(* ===== verification/Prelude.thy ===== *)
theory Prelude
  imports Main
begin

text \<open>
  Shared vocabulary of the development.

  Python code that touches the network or an object's attributes is a \<^emph>\<open>program\<close>: a
  function from a state to a result and the next state.  The result is a sum, \<open>Inl\<close> an
  exception that is being raised and \<open>Inr\<close> a returned value; the state survives an exception,
  as attributes do in Python.  \<open>bind\<close> is the sequencing of statements, \<open>attempt\<close> a
  \<open>try: ... except\<close> and \<open>ensuring\<close> a \<open>try: ... finally\<close>.

  A loop that need not end is a \<open>partial_function (option)\<close>: \<open>None\<close> is a loop that does not
  return.

  Bytes are \<^typ>\<open>char list\<close>: a \<^typ>\<open>char\<close> of HOL is one of 256 values.
\<close>

section \<open>Collections of facts\<close>

named_theorems prog_simps \<open>evaluation of programs\<close>
named_theorems inv_intros \<open>preservation of the components' invariants\<close>

section \<open>Programs over a state\<close>

type_synonym bytes = "char list"

type_synonym ('s, 'e, 'a) prog = "'s \<Rightarrow> ('e + 'a) \<times> 's"

definition return :: "'a \<Rightarrow> ('s, 'e, 'a) prog" where
  "return x = (\<lambda>s. (Inr x, s))"

definition throw :: "'e \<Rightarrow> ('s, 'e, 'a) prog" where
  "throw e = (\<lambda>s. (Inl e, s))"

definition bind :: "('s, 'e, 'a) prog \<Rightarrow> ('a \<Rightarrow> ('s, 'e, 'b) prog) \<Rightarrow> ('s, 'e, 'b) prog" where
  "bind m f = (\<lambda>s. case m s of (Inl e, s') \<Rightarrow> (Inl e, s') | (Inr x, s') \<Rightarrow> f x s')"

definition attempt :: "('s, 'e, 'a) prog \<Rightarrow> ('e \<Rightarrow> ('s, 'e, 'a) prog) \<Rightarrow> ('s, 'e, 'a) prog" where
  "attempt m h = (\<lambda>s. case m s of (Inl e, s') \<Rightarrow> h e s' | (Inr x, s') \<Rightarrow> (Inr x, s'))"

definition ensuring :: "('s, 'e, 'a) prog \<Rightarrow> ('s, 'e, unit) prog \<Rightarrow> ('s, 'e, 'a) prog" where
  "ensuring m f = (\<lambda>s. case m s of (r, s') \<Rightarrow>
     (case f s' of (Inl e, s'') \<Rightarrow> (Inl e, s'') | (Inr _, s'') \<Rightarrow> (r, s'')))"

definition update :: "('s \<Rightarrow> 's) \<Rightarrow> ('s, 'e, unit) prog" where
  "update f = (\<lambda>s. (Inr (), f s))"

abbreviation andthen :: "('s, 'e, unit) prog \<Rightarrow> ('s, 'e, 'b) prog \<Rightarrow> ('s, 'e, 'b) prog" where
  "andthen m k \<equiv> bind m (\<lambda>_. k)"

lemma return_apply [simp, prog_simps]: "return x s = (Inr x, s)"
  by (simp add: return_def)

lemma throw_apply [simp, prog_simps]: "throw e s = (Inl e, s)"
  by (simp add: throw_def)

lemma update_apply [simp, prog_simps]: "update f s = (Inr (), f s)"
  by (simp add: update_def)

lemma bind_Inr [simp, prog_simps]: "m s = (Inr x, s') \<Longrightarrow> bind m f s = f x s'"
  by (simp add: bind_def)

lemma bind_Inl [simp, prog_simps]: "m s = (Inl e, s') \<Longrightarrow> bind m f s = (Inl e, s')"
  by (simp add: bind_def)

lemma attempt_Inr [simp, prog_simps]: "m s = (Inr x, s') \<Longrightarrow> attempt m h s = (Inr x, s')"
  by (simp add: attempt_def)

lemma attempt_Inl [simp, prog_simps]: "m s = (Inl e, s') \<Longrightarrow> attempt m h s = h e s'"
  by (simp add: attempt_def)

lemma bind_return [simp]: "bind m return = m"
  by (rule ext) (simp add: bind_def split: prod.split sum.split)

lemma return_bind [simp]: "bind (return x) f = f x"
  by (rule ext) simp

lemma throw_bind [simp]: "bind (throw e) f = throw e"
  by (rule ext) simp

lemma bind_assoc: "bind (bind m f) g = bind m (\<lambda>x. bind (f x) g)"
  by (rule ext) (simp add: bind_def split: prod.split sum.split)

lemma bind_InrE:
  assumes "bind m f s = (Inr y, t)"
  obtains x s' where "m s = (Inr x, s')" "f x s' = (Inr y, t)"
  using assms by (auto simp: bind_def split: prod.splits sum.splits)

lemma bind_cases:
  obtains e s' where "m s = (Inl e, s')" "bind m f s = (Inl e, s')"
        | x s' where "m s = (Inr x, s')" "bind m f s = f x s'"
  by (cases "m s"; cases "fst (m s)") auto

text \<open>
  A predicate on states that a program keeps, whether it returns or raises.
\<close>

definition keeps :: "('s \<Rightarrow> bool) \<Rightarrow> ('s, 'e, 'a) prog \<Rightarrow> bool" where
  "keeps I m \<longleftrightarrow> (\<forall>s. I s \<longrightarrow> I (snd (m s)))"

lemma keepsI [intro?]: "(\<And>s. I s \<Longrightarrow> I (snd (m s))) \<Longrightarrow> keeps I m"
  by (simp add: keeps_def)

lemma keepsD: "keeps I m \<Longrightarrow> I s \<Longrightarrow> I (snd (m s))"
  by (simp add: keeps_def)

lemma keeps_return [inv_intros]: "keeps I (return x)"
  by (simp add: keeps_def)

lemma keeps_throw [inv_intros]: "keeps I (throw e)"
  by (simp add: keeps_def)

lemma keeps_update [inv_intros]: "(\<And>s. I s \<Longrightarrow> I (f s)) \<Longrightarrow> keeps I (update f)"
  by (simp add: keeps_def)

lemma keeps_bind [inv_intros]: "keeps I m \<Longrightarrow> (\<And>x. keeps I (f x)) \<Longrightarrow> keeps I (bind m f)"
  by (simp add: keeps_def bind_def split: prod.split sum.split) (metis snd_conv)

lemma keeps_attempt [inv_intros]: "keeps I m \<Longrightarrow> (\<And>e. keeps I (h e)) \<Longrightarrow> keeps I (attempt m h)"
  by (simp add: keeps_def attempt_def split: prod.split sum.split) (metis snd_conv)

lemma keeps_ensuring [inv_intros]: "keeps I m \<Longrightarrow> keeps I f \<Longrightarrow> keeps I (ensuring m f)"
  by (simp add: keeps_def ensuring_def split: prod.split sum.split) (metis snd_conv)

section \<open>Lists as Python sequences\<close>

text \<open>\<open>enumerate xs\<close> and the slice \<open>xs[i:j]\<close> for \<open>0 \<le> i\<close>, \<open>0 \<le> j\<close>.\<close>

abbreviation py_enumerate :: "'a list \<Rightarrow> (nat \<times> 'a) list" where
  "py_enumerate xs \<equiv> List.enumerate 0 xs"

definition slice :: "'a list \<Rightarrow> nat \<Rightarrow> nat \<Rightarrow> 'a list" where
  "slice xs i j = take (j - i) (drop i xs)"

lemma slice_append_drop: "i \<le> j \<Longrightarrow> slice xs i j @ drop j xs = drop i xs"
proof -
  assume "i \<le> j"
  then have "drop j xs = drop (j - i) (drop i xs)" by simp
  then show ?thesis by (simp only: slice_def append_take_drop_id)
qed

lemma set_py_enumerate: "set (py_enumerate xs) = {(i, xs ! i) |i. i < length xs}"
  by (force simp: in_set_enumerate_eq set_eq_iff)

lemma mem_py_enumerate [simp]: "(i, x) \<in> set (py_enumerate xs) \<longleftrightarrow> i < length xs \<and> x = xs ! i"
  by (auto simp: in_set_enumerate_eq)

end
