(* ===== verification/RW_Buffer.thy ===== *)
theory RW_Buffer
  imports Prelude
begin

text \<open>
  The reader/writer buffer of \<open>pssh/clients/reader.py\<close>: a \<open>BytesIO\<close> with one cursor that
  readers and writers share, a read and a write position, the event \<open>_unread_data\<close> that
  iterators wait on and the \<open>eof\<close> event.

  The class is given operation by operation (\<open>rw_write\<close> and \<open>rw_read\<close> are its \<open>write\<close>
  and \<open>read\<close>, \<open>eof_set\<close> is \<open>_Eof.set\<close>, \<open>iter_next\<close> one turn of \<open>__iter__\<close>), with its
  invariant and its refinement of a byte queue.  The lock is re-entrant and its body never
  switches to another greenlet, so each operation is one step.  \<open>RW_Schedule\<close> runs a writer
  and iterating readers.
\<close>

section \<open>Data\<close>

text \<open>
  \<open>BytesIO\<close>: the stored bytes and the cursor (\<open>tell\<close>).  A write past the end pads with zero
  bytes; a read returns everything from the cursor on.
\<close>

record bytes_io =
  content :: bytes
  tell :: nat

definition io_seek :: "nat \<Rightarrow> bytes_io \<Rightarrow> bytes_io" where
  "io_seek p b = b\<lparr>tell := p\<rparr>"

definition io_write :: "bytes \<Rightarrow> bytes_io \<Rightarrow> nat \<times> bytes_io" where
  "io_write d b =
     (if d = [] then (0, b)
      else let c = content b; p = tell b in
        (length d,
         b\<lparr>content := take p c @ replicate (p - length c) (CHR 0x00) @ d @ drop (p + length d) c,
           tell := p + length d\<rparr>))"

definition io_read :: "bytes_io \<Rightarrow> bytes \<times> bytes_io" where
  "io_read b = (drop (tell b) (content b), b\<lparr>tell := max (tell b) (length (content b))\<rparr>)"

record rw_buffer =
  buffer :: bytes_io
  read_pos :: nat
  write_pos :: nat
  unread_data :: bool
  eof :: bool

definition new_buffer :: rw_buffer where
  "new_buffer =
     \<lparr>buffer = \<lparr>content = [], tell = 0\<rparr>, read_pos = 0, write_pos = 0,
      unread_data = False, eof = False\<rparr>"

section \<open>Operations\<close>

definition seek_unless_at :: "nat \<Rightarrow> rw_buffer \<Rightarrow> rw_buffer" where
  "seek_unless_at p b = (if tell (buffer b) \<noteq> p then b\<lparr>buffer := io_seek p (buffer b)\<rparr> else b)"

definition rw_write :: "bytes \<Rightarrow> rw_buffer \<Rightarrow> rw_buffer" where
  "rw_write data b =
     (let b1 = seek_unless_at (write_pos b) b;
          (n, io) = io_write data (buffer b1);
          b2 = b1\<lparr>buffer := io, write_pos := write_pos b1 + n\<rparr>
      in if \<not> unread_data b2 \<and> read_pos b2 < write_pos b2 then b2\<lparr>unread_data := True\<rparr> else b2)"

definition rw_read :: "rw_buffer \<Rightarrow> bytes option \<times> rw_buffer" where
  "rw_read b =
     (if write_pos b = 0 \<or> read_pos b = write_pos b then (None, b\<lparr>unread_data := False\<rparr>)
      else let b1 = seek_unless_at (read_pos b) b;
               (data, io) = io_read (buffer b1)
           in (Some data, b1\<lparr>buffer := io, read_pos := read_pos b1 + length data\<rparr>))"

definition eof_set :: "rw_buffer \<Rightarrow> rw_buffer" where
  "eof_set b = b\<lparr>unread_data := True, eof := True\<rparr>"

text \<open>
  One turn of the iterator: from the loop test to the \<open>yield\<close>, to the call of \<open>wait\<close>, or to
  the end of the loop.
\<close>

datatype iter_result = Yield bytes | Wait | Stop

definition iter_next :: "rw_buffer \<Rightarrow> iter_result \<times> rw_buffer" where
  "iter_next b =
     (if \<not> eof b \<or> read_pos b \<noteq> write_pos b
      then (case rw_read b of
              (Some data, b') \<Rightarrow> (if data \<noteq> [] then (Yield data, b') else (Wait, b'))
            | (None, b') \<Rightarrow> (Wait, b'))
      else (Stop, b))"

section \<open>Invariant\<close>

text \<open>
  The write position is the length of what is stored, the read position is inside it, and
  unread bytes raise the event.
\<close>

definition rw_inv :: "rw_buffer \<Rightarrow> bool" where
  "rw_inv b \<longleftrightarrow>
     write_pos b = length (content (buffer b)) \<and> read_pos b \<le> write_pos b \<and>
     (read_pos b < write_pos b \<longrightarrow> unread_data b)"

definition unread :: "rw_buffer \<Rightarrow> bytes" where
  "unread b = drop (read_pos b) (content (buffer b))"

definition written :: "rw_buffer \<Rightarrow> bytes" where
  "written b = content (buffer b)"

lemma seek_unless_at_fields [simp]:
  "tell (buffer (seek_unless_at p b)) = p"
  "content (buffer (seek_unless_at p b)) = content (buffer b)"
  "read_pos (seek_unless_at p b) = read_pos b"
  "write_pos (seek_unless_at p b) = write_pos b"
  "unread_data (seek_unless_at p b) = unread_data b"
  "eof (seek_unless_at p b) = eof b"
  by (auto simp: seek_unless_at_def io_seek_def)

lemma rw_inv_new [simp, inv_intros]: "rw_inv new_buffer"
  by (simp add: rw_inv_def new_buffer_def)

lemma rw_write_fields:
  assumes "rw_inv b"
  shows "content (buffer (rw_write d b)) = content (buffer b) @ d"
    and "read_pos (rw_write d b) = read_pos b"
    and "write_pos (rw_write d b) = write_pos b + length d"
    and "eof (rw_write d b) = eof b"
    and "unread_data (rw_write d b) = (unread_data b \<or> read_pos b < write_pos b + length d)"
  using assms
  by (auto simp: rw_write_def io_write_def rw_inv_def Let_def split: prod.splits)

lemma rw_inv_write [inv_intros]: "rw_inv b \<Longrightarrow> rw_inv (rw_write d b)"
  by (subst rw_inv_def) (auto simp: rw_write_fields rw_inv_def)

lemma read_None:
  "rw_inv b \<Longrightarrow> unread b = [] \<Longrightarrow> rw_read b = (None, b\<lparr>unread_data := False\<rparr>)"
  by (auto simp: rw_read_def unread_def rw_inv_def)

lemma read_Some:
  assumes "rw_inv b" "unread b \<noteq> []"
  obtains b' where "rw_read b = (Some (unread b), b')" "rw_inv b'" "unread b' = []"
    "written b' = written b" "read_pos b' = write_pos b" "write_pos b' = write_pos b"
    "unread_data b' = unread_data b" "eof b' = eof b"
proof -
  from assms have *: "write_pos b \<noteq> 0" "read_pos b \<noteq> write_pos b" "unread_data b"
    by (auto simp: rw_inv_def unread_def)
  show thesis
    by (rule that[of "snd (rw_read b)"])
      (use assms * in \<open>auto simp: rw_read_def io_read_def unread_def written_def rw_inv_def Let_def\<close>)
qed

lemma rw_inv_read [inv_intros]: "rw_inv b \<Longrightarrow> rw_inv (snd (rw_read b))"
proof (cases "unread b = []")
  case True
  assume "rw_inv b"
  with True show ?thesis by (auto simp: read_None rw_inv_def unread_def)
next
  case False
  assume "rw_inv b"
  from read_Some[OF this False] show ?thesis by (metis snd_conv)
qed

lemma rw_inv_eof_set [inv_intros]: "rw_inv b \<Longrightarrow> rw_inv (eof_set b)"
  by (simp add: rw_inv_def eof_set_def)

lemma unread_eof_set: "unread (eof_set b) = unread b"
  by (simp add: unread_def eof_set_def)

lemma eof_eof_set: "eof (eof_set b)"
  by (simp add: eof_set_def)

section \<open>Refinement of a byte queue\<close>

text \<open>
  What a user of the buffer relies on: a write appends to what is unread, a read takes all of it
  or reports that there is nothing, and setting \<open>eof\<close> leaves the data alone.
\<close>

locale byte_queue =
  fixes put :: "bytes \<Rightarrow> 'q \<Rightarrow> 'q"
    and get :: "'q \<Rightarrow> bytes option \<times> 'q"
    and close :: "'q \<Rightarrow> 'q"
    and pending :: "'q \<Rightarrow> bytes"
    and closed :: "'q \<Rightarrow> bool"
    and inv :: "'q \<Rightarrow> bool"
  assumes inv_put: "inv q \<Longrightarrow> inv (put d q)"
    and inv_get: "inv q \<Longrightarrow> inv (snd (get q))"
    and inv_close: "inv q \<Longrightarrow> inv (close q)"
    and pending_put: "inv q \<Longrightarrow> pending (put d q) = pending q @ d"
    and pending_get: "inv q \<Longrightarrow> pending (snd (get q)) = []"
    and get_empty: "inv q \<Longrightarrow> pending q = [] \<Longrightarrow> fst (get q) = None"
    and get_pending: "inv q \<Longrightarrow> pending q \<noteq> [] \<Longrightarrow> fst (get q) = Some (pending q)"
    and pending_close: "inv q \<Longrightarrow> pending (close q) = pending q"
    and closed_put: "inv q \<Longrightarrow> closed (put d q) = closed q"
    and closed_get: "inv q \<Longrightarrow> closed (snd (get q)) = closed q"
    and closed_close: "inv q \<Longrightarrow> closed (close q)"
begin

text \<open>Any number of writes, then any number of reads.\<close>

fun put_all :: "bytes list \<Rightarrow> 'q \<Rightarrow> 'q" where
  "put_all [] q = q"
| "put_all (d # ds) q = put_all ds (put d q)"

lemma inv_put_all: "inv q \<Longrightarrow> inv (put_all ds q)"
  by (induction ds arbitrary: q) (auto intro: inv_put)

lemma pending_put_all: "inv q \<Longrightarrow> pending (put_all ds q) = pending q @ concat ds"
  by (induction ds arbitrary: q) (auto simp: pending_put inv_put)

lemma closed_put_all: "inv q \<Longrightarrow> closed (put_all ds q) = closed q"
  by (induction ds arbitrary: q) (auto simp: closed_put inv_put)

lemma get_after_puts:
  "inv q \<Longrightarrow> pending q @ concat ds \<noteq> [] \<Longrightarrow>
    fst (get (put_all ds q)) = Some (pending q @ concat ds)"
  using get_pending[of "put_all ds q"] by (simp add: pending_put_all inv_put_all)

text \<open>A sequence of operations, and the bytes its reads returned.\<close>

fun run :: "(bytes option) list \<Rightarrow> 'q \<Rightarrow> bytes \<times> 'q" where
  "run [] q = ([], q)"
| "run (Some d # ops) q = run ops (put d q)"
| "run (None # ops) q =
     (case get q of (r, q') \<Rightarrow>
        (case run ops q' of (out, q'') \<Rightarrow> ((case r of None \<Rightarrow> [] | Some d \<Rightarrow> d) @ out, q'')))"

fun puts_of :: "(bytes option) list \<Rightarrow> bytes" where
  "puts_of [] = []"
| "puts_of (Some d # ops) = d @ puts_of ops"
| "puts_of (None # ops) = puts_of ops"

lemma run_conserves:
  "inv q \<Longrightarrow> run ops q = (out, q') \<Longrightarrow> inv q' \<and> out @ pending q' = pending q @ puts_of ops"
proof (induction ops arbitrary: q out q')
  case Nil
  then show ?case by simp
next
  case (Cons op ops)
  show ?case
  proof (cases op)
    case (Some d)
    with Cons.prems have "run ops (put d q) = (out, q')" by simp
    from Cons.IH[OF inv_put[OF Cons.prems(1)] this] Some Cons.prems(1) show ?thesis
      by (simp add: pending_put)
  next
    case None
    obtain r q1 where g: "get q = (r, q1)" by force
    obtain o1 q2 where r: "run ops q1 = (o1, q2)" by force
    from g Cons.prems(1) have q1: "inv q1" "pending q1 = []"
      using inv_get pending_get by (metis snd_conv)+
    from Cons.IH[OF q1(1) r] q1(2) have ih: "inv q2" "o1 @ pending q2 = puts_of ops" by auto
    have "(case r of None \<Rightarrow> [] | Some d \<Rightarrow> d) = pending q"
      using get_empty[OF Cons.prems(1)] get_pending[OF Cons.prems(1)] g
      by (cases "pending q = []") auto
    with Cons.prems(2) None g r ih show ?thesis by auto
  qed
qed

end

interpretation rw: byte_queue rw_write rw_read eof_set unread eof rw_inv
proof unfold_locales
  fix q d
  assume "rw_inv q"
  then show "unread (rw_write d q) = unread q @ d"
    by (auto simp: unread_def rw_write_fields rw_inv_def)
next
  fix q
  assume i: "rw_inv q"
  show "unread (snd (rw_read q)) = []"
    using i by (cases "unread q = []") (auto simp: read_None unread_def elim: read_Some)
  show "eof (snd (rw_read q)) = eof q"
    using i by (cases "unread q = []") (auto simp: read_None elim: read_Some)
next
  fix q
  assume "rw_inv q" "unread q \<noteq> []"
  then show "fst (rw_read q) = Some (unread q)" by (auto elim: read_Some)
qed (auto simp: read_None rw_write_fields unread_eof_set eof_eof_set intro: inv_intros)

lemma iter_next_Yield:
  assumes "rw_inv b" "unread b \<noteq> []"
  obtains b' where "iter_next b = (Yield (unread b), b')" "rw_inv b'" "unread b' = []"
    "written b' = written b" "read_pos b' = write_pos b" "write_pos b' = write_pos b"
    "unread_data b' = unread_data b" "eof b' = eof b"
proof -
  from assms have "read_pos b \<noteq> write_pos b" by (auto simp: rw_inv_def unread_def)
  moreover obtain b' where "rw_read b = (Some (unread b), b')" and b': "rw_inv b'" "unread b' = []"
    "written b' = written b" "read_pos b' = write_pos b" "write_pos b' = write_pos b"
    "unread_data b' = unread_data b" "eof b' = eof b"
    by (rule read_Some[OF assms])
  ultimately have "iter_next b = (Yield (unread b), b')"
    using assms(2) by (simp add: iter_next_def)
  from that[OF this b'] show thesis .
qed

lemma iter_next_empty:
  assumes "rw_inv b" "unread b = []"
  shows "iter_next b = (if eof b then (Stop, b) else (Wait, b\<lparr>unread_data := False\<rparr>))"
  using assms by (auto simp: iter_next_def read_None rw_inv_def unread_def)

section \<open>The buffer as a queue\<close>

text \<open>
  The specification: the bytes that are pending and whether the end was announced.  A turn of the
  iterator yields all that is pending, ends after the end was announced, and waits otherwise.
\<close>

datatype buffer_op = OpWrite bytes | OpRead | OpNext | OpEof

datatype buffer_answer = Silent | GotRead "bytes option" | GotNext iter_result

fun queue_step :: "buffer_op \<Rightarrow> bytes \<times> bool \<Rightarrow> buffer_answer \<times> bytes \<times> bool" where
  "queue_step (OpWrite d) (q, ended) = (Silent, q @ d, ended)"
| "queue_step OpRead (q, ended) = (GotRead (if q = [] then None else Some q), [], ended)"
| "queue_step OpNext (q, ended) =
     (GotNext (if q \<noteq> [] then Yield q else if ended then Stop else Wait), [], ended)"
| "queue_step OpEof (q, ended) = (Silent, q, True)"

fun buffer_step :: "buffer_op \<Rightarrow> rw_buffer \<Rightarrow> buffer_answer \<times> rw_buffer" where
  "buffer_step (OpWrite d) b = (Silent, rw_write d b)"
| "buffer_step OpRead b = apfst GotRead (rw_read b)"
| "buffer_step OpNext b = apfst GotNext (iter_next b)"
| "buffer_step OpEof b = (Silent, eof_set b)"

fun run_ops :: "('op \<Rightarrow> 's \<Rightarrow> 'ans \<times> 's) \<Rightarrow> 'op list \<Rightarrow> 's \<Rightarrow> 'ans list \<times> 's" where
  "run_ops step [] s = ([], s)"
| "run_ops step (op # ops) s = (case step op s of (a, s') \<Rightarrow> apfst (\<lambda>as. a # as) (run_ops step ops s'))"

definition queue_of :: "rw_buffer \<Rightarrow> bytes \<times> bool" where
  "queue_of b = (unread b, eof b)"

lemma buffer_step_simulates:
  assumes "rw_inv b"
  shows "queue_step op (queue_of b) = map_prod id queue_of (buffer_step op b) \<and> rw_inv (snd (buffer_step op b))"
proof (cases op)
  case (OpWrite d)
  with assms show ?thesis by (simp add: queue_of_def rw.pending_put rw.closed_put rw.inv_put)
next
  case OpRead
  with assms rw.get_empty[OF assms] rw.get_pending[OF assms] show ?thesis
    by (simp add: queue_of_def prod_eq_iff rw.pending_get rw.closed_get rw.inv_get)
next
  case OpNext
  show ?thesis
  proof (cases "unread b = []")
    case True
    with OpNext assms show ?thesis
      by (auto simp: iter_next_empty queue_of_def unread_def rw_inv_def)
  next
    case False
    from iter_next_Yield[OF assms False] obtain b' where "iter_next b = (Yield (unread b), b')" "rw_inv b'"
      "unread b' = []" "eof b' = eof b" by metis
    with OpNext False show ?thesis by (simp add: queue_of_def)
  qed
next
  case OpEof
  with assms show ?thesis by (simp add: queue_of_def unread_eof_set eof_eof_set rw_inv_eof_set)
qed

lemma run_ops_simulates:
  assumes "\<And>op s. ok s \<Longrightarrow> spec op (absf s) = map_prod id absf (impl op s) \<and> ok (snd (impl op s))" "ok s"
  shows "run_ops spec ops (absf s) = map_prod id absf (run_ops impl ops s)"
  using assms(2)
proof (induction ops arbitrary: s)
  case (Cons op ops)
  obtain a t where t: "impl op s = (a, t)" by force
  with assms(1)[OF Cons.prems, of op] have "spec op (absf s) = (a, absf t)" "ok t" by auto
  with Cons.IH[of t] t show ?case by (cases "run_ops impl ops t") simp
qed simp

lemma run_ops_new_buffer:
  "run_ops queue_step ops ([], False) = map_prod id queue_of (run_ops buffer_step ops new_buffer)"
proof -
  have "queue_of new_buffer = ([], False)" by (simp add: queue_of_def unread_def new_buffer_def)
  with run_ops_simulates[of rw_inv queue_step queue_of buffer_step new_buffer ops, OF buffer_step_simulates rw_inv_new]
  show ?thesis by simp
qed

text \<open>
  C5: The buffer is a queue of bytes: whatever sequence of writes, reads, turns of an iterator and
  announcements of the end is made on a new buffer, every answer and the state it leaves are those
  of the queue, in which positions, the cursor and the event do not occur.
\<close>
theorem buffer_refines_queue:
  "run_ops queue_step ops ([], False) = map_prod id queue_of (run_ops buffer_step ops new_buffer)"
  by (rule run_ops_new_buffer)

end
