(* ===== verification/RW_Schedule.thy ===== *)
theory RW_Schedule
  imports RW_Buffer
begin

text \<open>
  One greenlet that fills a buffer and sets \<open>eof\<close>, and any number of greenlets that iterate
  over it, under a cooperative scheduler: a step is the code one greenlet runs between two
  switches.  A writer's step is one \<open>write\<close> or the final \<open>eof.set()\<close>; a reader's step is one
  turn of \<open>__iter__\<close>, which ends at a \<open>yield\<close>, in \<open>_unread_data.wait()\<close> or at the end of
  the loop; a waiting reader goes on once the event is set.
\<close>

section \<open>The step relation\<close>

datatype rstatus = Running | Waiting | Stopped

record sched =
  buf :: rw_buffer
  todo :: "bytes list"
  status :: "nat \<Rightarrow> rstatus"
  delivered :: "(nat \<times> bytes) list"

definition sched_init :: "bytes list \<Rightarrow> sched" where
  "sched_init chunks =
     \<lparr>buf = new_buffer, todo = chunks, status = (\<lambda>_. Running), delivered = []\<rparr>"

inductive sched_step :: "nat \<Rightarrow> sched \<Rightarrow> sched \<Rightarrow> bool" for n where
  write_chunk: "todo s = d # ds \<Longrightarrow>
     sched_step n s (s\<lparr>buf := rw_write d (buf s), todo := ds\<rparr>)"
| write_eof: "todo s = [] \<Longrightarrow> \<not> eof (buf s) \<Longrightarrow>
     sched_step n s (s\<lparr>buf := eof_set (buf s)\<rparr>)"
| turn_yield: "i < n \<Longrightarrow> status s i = Running \<Longrightarrow> iter_next (buf s) = (Yield d, b) \<Longrightarrow>
     sched_step n s (s\<lparr>buf := b, delivered := delivered s @ [(i, d)]\<rparr>)"
| turn_wait: "i < n \<Longrightarrow> status s i = Running \<Longrightarrow> iter_next (buf s) = (Wait, b) \<Longrightarrow>
     sched_step n s (s\<lparr>buf := b, status := (status s)(i := Waiting)\<rparr>)"
| turn_stop: "i < n \<Longrightarrow> status s i = Running \<Longrightarrow> iter_next (buf s) = (Stop, b) \<Longrightarrow>
     sched_step n s (s\<lparr>buf := b, status := (status s)(i := Stopped)\<rparr>)"
| wake: "i < n \<Longrightarrow> status s i = Waiting \<Longrightarrow> unread_data (buf s) \<Longrightarrow>
     sched_step n s (s\<lparr>status := (status s)(i := Running)\<rparr>)"

inductive sched_reachable :: "nat \<Rightarrow> bytes list \<Rightarrow> sched \<Rightarrow> bool" for n chunks where
  start: "sched_reachable n chunks (sched_init chunks)"
| step: "sched_reachable n chunks s \<Longrightarrow> sched_step n s t \<Longrightarrow> sched_reachable n chunks t"

definition delivered_bytes :: "sched \<Rightarrow> bytes" where
  "delivered_bytes s = concat (map snd (delivered s))"

section \<open>Invariants\<close>

text \<open>
  Conservation: what was delivered, what lies unread and what is still to be written make up the
  chunks, in order.  Wakefulness: a reader that sleeps without a signal has nothing to read and
  nothing has ended.  A reader that stopped saw the end.
\<close>

definition sched_conserves :: "bytes list \<Rightarrow> sched \<Rightarrow> bool" where
  "sched_conserves chunks s \<longleftrightarrow>
     delivered_bytes s @ unread (buf s) @ concat (todo s) = concat chunks"

definition sched_awake :: "sched \<Rightarrow> bool" where
  "sched_awake s \<longleftrightarrow> (eof (buf s) \<longrightarrow> todo s = [] \<and> unread_data (buf s))"

definition sched_stops :: "nat \<Rightarrow> sched \<Rightarrow> bool" where
  "sched_stops n s \<longleftrightarrow>
     (\<forall>i<n. status s i = Stopped \<longrightarrow> eof (buf s) \<and> unread (buf s) = [])"

definition sched_inv :: "nat \<Rightarrow> bytes list \<Rightarrow> sched \<Rightarrow> bool" where
  "sched_inv n chunks s \<longleftrightarrow>
     rw_inv (buf s) \<and> sched_conserves chunks s \<and> sched_awake s \<and> sched_stops n s"

lemmas sched_inv_defs =
  sched_inv_def sched_conserves_def sched_awake_def sched_stops_def delivered_bytes_def

lemma sched_inv_init: "sched_inv n chunks (sched_init chunks)"
  by (simp add: sched_inv_defs sched_init_def)
     (simp add: new_buffer_def unread_def rw_inv_def)

text \<open>What one turn of the iterator can do, read off the buffer.\<close>

lemma iter_next_YieldD:
  assumes "rw_inv b" "iter_next b = (Yield d, b')"
  shows "d = unread b" "d \<noteq> []" "rw_inv b'" "unread b' = []" "eof b' = eof b"
    "unread_data b' = unread_data b"
proof -
  from assms have ne: "unread b \<noteq> []" by (auto simp: iter_next_empty split: if_splits)
  from assms iter_next_Yield[OF assms(1) ne]
  show "d = unread b" "d \<noteq> []" "rw_inv b'" "unread b' = []" "eof b' = eof b"
    "unread_data b' = unread_data b"
    using ne by (metis Pair_inject iter_result.inject)+
qed

lemma iter_next_emptyD:
  assumes "rw_inv b" "iter_next b = (r, b')" "r = Wait \<or> r = Stop"
  shows "unread b = []" "r = (if eof b then Stop else Wait)"
    "b' = (if eof b then b else b\<lparr>unread_data := False\<rparr>)"
proof -
  show ne: "unread b = []"
  proof (rule ccontr)
    assume "unread b \<noteq> []"
    from iter_next_Yield[OF assms(1) this] assms(2,3) show False by (metis Pair_inject iter_result.distinct)
  qed
  from iter_next_empty[OF assms(1) ne] assms(2)
  show "r = (if eof b then Stop else Wait)"
    "b' = (if eof b then b else b\<lparr>unread_data := False\<rparr>)"
    by (auto split: if_splits)
qed

lemma iter_next_WaitD:
  "rw_inv b \<Longrightarrow> iter_next b = (Wait, b') \<Longrightarrow>
    unread b = [] \<and> \<not> eof b \<and> b' = b\<lparr>unread_data := False\<rparr>"
  using iter_next_emptyD[of b Wait b'] by (auto split: if_splits)

lemma iter_next_StopD:
  "rw_inv b \<Longrightarrow> iter_next b = (Stop, b') \<Longrightarrow> unread b = [] \<and> eof b \<and> b' = b"
  using iter_next_emptyD[of b Stop b'] by (auto split: if_splits)

lemma rw_inv_clear: "rw_inv b \<Longrightarrow> unread b = [] \<Longrightarrow> rw_inv (b\<lparr>unread_data := False\<rparr>)"
  by (auto simp: rw_inv_def unread_def)

lemma unread_clear [simp]: "unread (b\<lparr>unread_data := u\<rparr>) = unread b"
  by (simp add: unread_def)

lemmas turn_dests = iter_next_YieldD iter_next_WaitD iter_next_StopD

lemma sched_step_inv:
  assumes "sched_step n s t" "sched_inv n chunks s"
  shows "sched_inv n chunks t"
  using assms
proof (induction rule: sched_step.induct)
  case (write_chunk s d ds)
  then have "rw_inv (buf s)" "\<not> eof (buf s)" by (auto simp: sched_inv_defs)
  with write_chunk show ?case
    by (auto simp: sched_inv_defs rw.pending_put rw.closed_put rw.inv_put)
next
  case (write_eof s)
  then show ?case
    by (auto simp: sched_inv_defs rw.pending_close rw.inv_close)
       (auto simp: eof_set_def)
next
  case (turn_yield i s d b)
  then have "rw_inv (buf s)" by (simp add: sched_inv_def)
  from turn_yield iter_next_YieldD[OF this turn_yield(3)] show ?case
    by (auto simp: sched_inv_defs)
next
  case (turn_wait i s b)
  then have "rw_inv (buf s)" by (simp add: sched_inv_def)
  from turn_wait iter_next_WaitD[OF this turn_wait(3)] show ?case
    by (auto simp: sched_inv_defs rw_inv_clear)
next
  case (turn_stop i s b)
  then have "rw_inv (buf s)" by (simp add: sched_inv_def)
  from turn_stop iter_next_StopD[OF this turn_stop(3)] show ?case
    by (auto simp: sched_inv_defs)
next
  case (wake i s)
  then show ?case by (auto simp: sched_inv_defs)
qed

lemma sched_reachable_inv: "sched_reachable n chunks s \<Longrightarrow> sched_inv n chunks s"
  by (induction rule: sched_reachable.induct) (auto intro: sched_inv_init sched_step_inv)

section \<open>Progress and termination\<close>

definition sched_complete :: "nat \<Rightarrow> bytes list \<Rightarrow> sched \<Rightarrow> bool" where
  "sched_complete n chunks s \<longleftrightarrow>
     eof (buf s) \<and> todo s = [] \<and> (\<forall>i<n. status s i = Stopped) \<and>
     delivered_bytes s = concat chunks"

lemma running_can_step: "i < n \<Longrightarrow> status s i = Running \<Longrightarrow> \<exists>t. sched_step n s t"
  by (cases "iter_next (buf s)"; cases "fst (iter_next (buf s))")
     (auto intro: sched_step.intros)

lemma sched_progress:
  assumes "sched_inv n chunks s" "0 < n" "\<And>t. \<not> sched_step n s t"
  shows "sched_complete n chunks s"
proof -
  have todo: "todo s = []"
    using assms(3) by (cases "todo s") (blast intro: write_chunk)+
  have eof: "eof (buf s)" using assms(3) todo by (blast intro: write_eof)
  with assms(1) have ud: "unread_data (buf s)" by (simp add: sched_inv_defs)
  have stop: "status s i = Stopped" if "i < n" for i
    using assms(3) that ud running_can_step[OF that] by (cases "status s i") (auto intro: wake)
  with assms(1,2) have "unread (buf s) = []" by (auto simp: sched_inv_defs)
  with assms(1) todo eof stop show ?thesis
    by (simp add: sched_complete_def sched_inv_defs)
qed

text \<open>
  No schedule runs forever.  Between two steps of the writer, readers use up the signal, then the
  unread bytes, then their own statuses; a sleeper counts double while the signal is up, since
  the step that wakes it must count too.
\<close>

fun status_weight :: "bool \<Rightarrow> rstatus \<Rightarrow> nat" where
  "status_weight u Running = 1"
| "status_weight u Waiting = (if u then 2 else 0)"
| "status_weight u Stopped = 0"

definition writer_work :: "sched \<Rightarrow> nat" where
  "writer_work s = length (todo s) + (if eof (buf s) then 0 else 1)"

definition reader_work :: "nat \<Rightarrow> sched \<Rightarrow> nat" where
  "reader_work n s = (\<Sum>i<n. status_weight (unread_data (buf s)) (status s i))"

definition sched_measure :: "nat \<Rightarrow> (sched \<times> sched) set" where
  "sched_measure n = measures
     [writer_work, \<lambda>s. of_bool (unread_data (buf s)), \<lambda>s. of_bool (unread (buf s) \<noteq> []), reader_work n]"

lemma reader_work_decreases:
  assumes "i < n" "status_weight (unread_data (buf s)) v < status_weight (unread_data (buf s)) (status s i)"
    and "unread_data (buf t) = unread_data (buf s)" "status t = (status s)(i := v)"
  shows "reader_work n t < reader_work n s"
  unfolding reader_work_def
  by (rule sum_strict_mono_ex1) (use assms in auto)

lemmas sched_work = sched_measure_def writer_work_def

lemma sched_step_decreases:
  assumes "sched_step n s t" "sched_inv n chunks s"
  shows "(t, s) \<in> sched_measure n"
  using assms
proof (induction rule: sched_step.induct)
  case (write_chunk s d ds)
  then show ?case by (auto simp: sched_work sched_inv_def rw.closed_put)
next
  case (write_eof s)
  then show ?case by (auto simp: sched_work eof_set_def)
next
  case (turn_yield i s d b)
  then have "rw_inv (buf s)" by (simp add: sched_inv_def)
  from iter_next_YieldD[OF this turn_yield(3)] show ?case by (auto simp: sched_work)
next
  case (turn_wait i s b)
  then have "rw_inv (buf s)" by (simp add: sched_inv_def)
  from iter_next_WaitD[OF this turn_wait(3)]
  have b: "unread (buf s) = []" "\<not> eof (buf s)" "b = (buf s)\<lparr>unread_data := False\<rparr>" by auto
  show ?case
  proof (cases "unread_data (buf s)")
    case False
    have "reader_work n (s\<lparr>buf := b, status := (status s)(i := Waiting)\<rparr>) < reader_work n s"
      by (rule reader_work_decreases[OF turn_wait(1), where v = Waiting]) (use False turn_wait(2) b in auto)
    with b False show ?thesis by (auto simp: sched_work)
  qed (use b in \<open>auto simp: sched_work\<close>)
next
  case (turn_stop i s b)
  then have "rw_inv (buf s)" by (simp add: sched_inv_def)
  from iter_next_StopD[OF this turn_stop(3)] have b: "b = buf s" by simp
  have "reader_work n (s\<lparr>buf := b, status := (status s)(i := Stopped)\<rparr>) < reader_work n s"
    by (rule reader_work_decreases[OF turn_stop(1), where v = Stopped]) (use turn_stop(2) b in auto)
  with b show ?case by (auto simp: sched_work)
next
  case (wake i s)
  have "reader_work n (s\<lparr>status := (status s)(i := Running)\<rparr>) < reader_work n s"
    by (rule reader_work_decreases[OF wake(1), where v = Running]) (use wake in auto)
  then show ?case by (auto simp: sched_work)
qed

lemma sched_no_infinite_run:
  "\<nexists>f. f 0 = sched_init chunks \<and> (\<forall>k. sched_step n (f k) (f (Suc k)))"
proof
  assume "\<exists>f. f 0 = sched_init chunks \<and> (\<forall>k. sched_step n (f k) (f (Suc k)))"
  then obtain f where f: "f 0 = sched_init chunks" "\<And>k. sched_step n (f k) (f (Suc k))" by blast
  have "sched_inv n chunks (f k)" for k
    by (induction k) (auto simp: f(1) sched_inv_init intro: sched_step_inv[OF f(2)])
  with f(2) have "(f (Suc k), f k) \<in> sched_measure n" for k
    by (blast intro: sched_step_decreases)
  moreover have "wf (sched_measure n)" by (simp add: sched_measure_def)
  ultimately show False by (blast dest: wf_no_infinite_down_chainE)
qed

section \<open>Properties\<close>

text \<open>
  C4: When no step of the writer or of any of the consumers is possible any more, the end of the
  output has been set, every consumer has left its loop, and the chunks handed out are, joined in
  the order they were handed out, exactly the bytes the channel reader wrote: nothing is lost,
  repeated or reordered, and no consumer sleeps forever.
\<close>
theorem buffer_delivers_everything:
  assumes "sched_reachable n chunks s" "0 < n" "\<And>t. \<not> sched_step n s t"
  shows "sched_complete n chunks s"
  using sched_progress[OF sched_reachable_inv[OF assms(1)] assms(2,3)] .

text \<open>A complete run with one consumer: a chunk, its delivery, the end, the stop.\<close>

definition run_buffer :: rw_buffer where
  "run_buffer = snd (iter_next (rw_write ''ab'' new_buffer))"

definition run_end :: sched where
  "run_end = \<lparr>buf = eof_set run_buffer, todo = [], status = (\<lambda>_. Running)(0 := Stopped),
     delivered = [(0, ''ab'')]\<rparr>"

lemma run_end_reachable: "sched_reachable 1 [''ab''] run_end"
proof -
  let ?s0 = "sched_init [''ab'']"
  let ?s1 = "?s0\<lparr>buf := rw_write ''ab'' (buf ?s0), todo := []\<rparr>"
  let ?s2 = "?s1\<lparr>buf := run_buffer, delivered := delivered ?s1 @ [(0, ''ab'')]\<rparr>"
  let ?s3 = "?s2\<lparr>buf := eof_set (buf ?s2)\<rparr>"
  let ?s4 = "?s3\<lparr>buf := eof_set (buf ?s2), status := (status ?s3)(0 := Stopped)\<rparr>"
  have "sched_step 1 ?s0 ?s1" by (rule write_chunk) (simp add: sched_init_def)
  moreover have "iter_next (buf ?s1) = (Yield ''ab'', run_buffer)"
    by (simp add: sched_init_def run_buffer_def) code_simp
  then have "sched_step 1 ?s1 ?s2" by (intro turn_yield) (simp_all add: sched_init_def)
  moreover have "\<not> eof run_buffer" by code_simp
  then have "sched_step 1 ?s2 ?s3" by (intro write_eof) simp_all
  moreover have "iter_next (eof_set run_buffer) = (Stop, eof_set run_buffer)" by code_simp
  then have "sched_step 1 ?s3 ?s4" by (intro turn_stop) (simp_all add: sched_init_def)
  ultimately have "sched_reachable 1 [''ab''] ?s4"
    by (meson sched_reachable.start sched_reachable.step)
  then show ?thesis by (simp add: run_end_def sched_init_def)
qed

lemma run_end_stuck: "\<not> sched_step 1 run_end t"
proof
  assume "sched_step 1 run_end t"
  moreover have "eof (buf run_end)" by code_simp
  ultimately show False by cases (auto simp: run_end_def)
qed

theorem buffer_delivers_everything_witness:
  "sched_reachable 1 [''ab''] run_end \<and> sched_complete 1 [''ab''] run_end"
  using buffer_delivers_everything[of 1 "[''ab'']" run_end] run_end_reachable run_end_stuck by simp

text \<open>
  At every moment, whatever the interleaving, what has been handed out, followed by what waits
  in the buffer, followed by what the channel reader has yet to write, is the output of the channel.
\<close>
theorem buffer_keeps_order:
  assumes "sched_reachable n chunks s"
  shows "delivered_bytes s @ unread (buf s) @ concat (todo s) = concat chunks"
  using sched_reachable_inv[OF assms] by (simp add: sched_inv_def sched_conserves_def)

theorem buffer_keeps_order_witness:
  "delivered_bytes run_end @ unread (buf run_end) @ concat (todo run_end) = ''ab''"
  using buffer_keeps_order[OF run_end_reachable] by simp

text \<open>
  No wake-up is lost: whenever bytes wait in the buffer, or the end of the output has been set,
  the event the consumers wait on is set, so that a consumer in \<open>unread_data.wait()\<close> can go on.
\<close>
theorem buffer_no_lost_wakeup:
  assumes "sched_reachable n chunks s" "unread (buf s) \<noteq> [] \<or> eof (buf s)"
  shows "unread_data (buf s)"
  using sched_reachable_inv[OF assms(1)] assms(2)
  by (auto simp: sched_inv_def sched_awake_def rw_inv_def unread_def)

theorem buffer_no_lost_wakeup_witness: "eof (buf run_end) \<and> unread_data (buf run_end)"
proof -
  have "eof (buf run_end)" by code_simp
  with buffer_no_lost_wakeup[OF run_end_reachable] show ?thesis by simp
qed

text \<open>
  C34: Whatever the order in which the greenlets run, a session of one writer and any number of
  consumers ends: there is no infinite run.
\<close>
theorem buffer_schedule_terminates:
  "\<nexists>f. f 0 = sched_init chunks \<and> (\<forall>k. sched_step n (f k) (f (Suc k)))"
  by (rule sched_no_infinite_run)

end
