(* ===== verification/Output_Lines.thy ===== *)
theory Output_Lines
  imports Prelude
begin

text \<open>
  Reading a command's output line by line: \<open>_read_output_buffer\<close> and \<open>read_output_buffer\<close> of
  \<open>pssh/clients/base/single.py\<close>.  \<open>find_eol\<close> is the function of that name of \<open>ssh2.utils\<close>,
  a parameter: from a position it returns the offset of the end of the line and the length of
  the line ending, or \<open>-1\<close> when no line ends.  The chunks are what iterating over the buffer
  yields; a read timeout ends the iteration with an exception.
\<close>

section \<open>Lines of a stream of chunks\<close>

type_synonym find_eol = "bytes \<Rightarrow> nat \<Rightarrow> int \<times> nat"

text \<open>The \<open>while pos < size\<close> loop over one chunk, with the lines yielded so far.\<close>

partial_function (option) split_chunk ::
  "find_eol \<Rightarrow> bytes \<Rightarrow> nat \<Rightarrow> bytes \<Rightarrow> nat \<Rightarrow> bytes list \<Rightarrow> (bytes list \<times> bytes \<times> nat) option" where
  "split_chunk find_eol data pos remainder remainder_len out =
     (if pos < length data
      then (case find_eol data pos of
             (linesep, new_line_pos) \<Rightarrow>
               (if linesep = -1
                then let r = remainder @ drop pos data in Some (out, r, length r)
                else let end_of_line = pos + nat linesep;
                         line = (if remainder_len > 0
                                 then remainder @ slice data pos end_of_line
                                 else slice data pos end_of_line);
                         (r, n) = (if remainder_len > 0 then ([], 0) else (remainder, remainder_len))
                     in split_chunk find_eol data (pos + nat linesep + new_line_pos) r n (out @ [line])))
      else Some (out, remainder, remainder_len))"

fun split_chunks ::
  "find_eol \<Rightarrow> bytes list \<Rightarrow> bytes \<Rightarrow> nat \<Rightarrow> bytes list \<Rightarrow> (bytes list \<times> bytes \<times> nat) option" where
  "split_chunks find_eol [] remainder remainder_len out = Some (out, remainder, remainder_len)"
| "split_chunks find_eol (data # chunks) remainder remainder_len out =
     (case split_chunk find_eol data 0 remainder remainder_len out of
        None \<Rightarrow> None
      | Some (out', r, n) \<Rightarrow> split_chunks find_eol chunks r n out')"

datatype read_error = ReadTimeout

text \<open>
  The generator, run to its end: the lines it yields and how it ends.  \<open>timed_out\<close> says that the
  timer fires while it waits for a chunk that is not there.
\<close>

definition read_output_lines ::
  "find_eol \<Rightarrow> bytes list \<Rightarrow> bool \<Rightarrow> (bytes list \<times> (read_error + unit)) option" where
  "read_output_lines find_eol chunks timed_out =
     (case split_chunks find_eol chunks [] 0 [] of
        None \<Rightarrow> None
      | Some (out, remainder, remainder_len) \<Rightarrow>
          Some (if timed_out then (out, Inl ReadTimeout)
                else if remainder_len > 0 then (out @ [remainder], Inr ())
                else (out, Inr ())))"

section \<open>Decoding and logging\<close>

text \<open>
  \<open>read_output_buffer\<close>: each line is decoded, logged to the host logger as
  \<open>[host]prefix<TAB>output\<close> and yielded; the callback runs when the lines are used up.  A
  codec may raise, which ends the generator.
\<close>

record 'e read_log =
  outputs :: "string list"
  host_log :: "string list"
  called_back :: bool
  failure :: "'e option"

fun read_output_buffer ::
  "(bytes \<Rightarrow> 'e + string) \<Rightarrow> string \<Rightarrow> string \<Rightarrow> bool \<Rightarrow> bytes list \<Rightarrow> 'e read_log" where
  "read_output_buffer decode host prefix callback [] =
     \<lparr>outputs = [], host_log = [], called_back = callback, failure = None\<rparr>"
| "read_output_buffer decode host prefix callback (line # rest) =
     (case decode line of
        Inl e \<Rightarrow> \<lparr>outputs = [], host_log = [], called_back = False, failure = Some e\<rparr>
      | Inr output \<Rightarrow>
          (let r = read_output_buffer decode host prefix callback rest in
           r\<lparr>outputs := output # outputs r,
             host_log := (''['' @ host @ '']'' @ prefix @ [CHR 0x09] @ output) # host_log r\<rparr>))"

lemma read_output_buffer_decoded:
  assumes "\<And>l. l \<in> set ls \<Longrightarrow> decode l = Inr (f l)"
  shows "outputs (read_output_buffer decode host prefix cb ls) = map f ls"
    and "host_log (read_output_buffer decode host prefix cb ls) =
           map (\<lambda>l. ''['' @ host @ '']'' @ prefix @ [CHR 0x09] @ f l) ls"
    and "called_back (read_output_buffer decode host prefix cb ls) = cb"
    and "failure (read_output_buffer decode host prefix cb ls) = None"
  using assms by (induction ls) (auto simp: Let_def)

section \<open>What find_eol promises\<close>

abbreviation LF :: char where "LF \<equiv> CHR 0x0A"
abbreviation CR :: char where "CR \<equiv> CHR 0x0D"

text \<open>
  The documented behaviour: from a position inside the data, the first line feed ends the line;
  a carriage return right before it may be taken as part of the line ending.
\<close>

definition eol_at :: "bytes \<Rightarrow> int \<times> nat \<Rightarrow> bool" where
  "eol_at rest r \<longleftrightarrow>
     (if LF \<notin> set rest then fst r = -1
      else \<exists>line e rest2. rest = line @ e @ rest2 \<and> (e = [LF] \<or> e = [CR, LF]) \<and>
             LF \<notin> set line \<and> fst r = int (length line) \<and> snd r = length e)"

definition finds_eol :: "find_eol \<Rightarrow> bool" where
  "finds_eol f \<longleftrightarrow> (\<forall>data pos. pos < length data \<longrightarrow> eol_at (drop pos data) (f data pos))"

lemma finds_eol_none:
  "finds_eol f \<Longrightarrow> pos < length data \<Longrightarrow> LF \<notin> set (drop pos data) \<Longrightarrow> fst (f data pos) = -1"
  by (auto simp: finds_eol_def eol_at_def)

lemma eol_atI:
  "rest = line @ e @ rest2 \<Longrightarrow> e = [LF] \<or> e = [CR, LF] \<Longrightarrow> LF \<notin> set line \<Longrightarrow>
    eol_at rest (int (length line), length e)"
  by (auto simp: eol_at_def)

lemma finds_eolE:
  assumes "finds_eol f" "pos < length data" "LF \<in> set (drop pos data)"
  obtains line e where "e = [LF] \<or> e = [CR, LF]" "LF \<notin> set line"
    "f data pos = (int (length line), length e)"
    "drop pos data = line @ e @ drop (pos + length line + length e) data"
    "slice data pos (pos + length line) = line" "pos + length line + length e \<le> length data"
proof -
  from assms have "eol_at (drop pos data) (f data pos)" by (simp add: finds_eol_def)
  with assms(3) obtain line e rest2 where *: "drop pos data = line @ e @ rest2"
    "e = [LF] \<or> e = [CR, LF]" "LF \<notin> set line" "fst (f data pos) = int (length line)"
    "snd (f data pos) = length e"
    by (auto simp: eol_at_def)
  have "drop (length line + length e) (drop pos data) = rest2" by (simp add: *(1))
  then have rest2: "drop (pos + length line + length e) data = rest2"
    by (simp add: add.commute add.left_commute)
  have "length (drop pos data) = length line + length e + length rest2"
    using *(1) by simp
  with assms(2) have le: "pos + length line + length e \<le> length data" by simp
  have "slice data pos (pos + length line) = line" by (simp add: slice_def *(1))
  with * rest2 le show thesis by (intro that[of e line]) (auto intro: prod_eqI)
qed

text \<open>Two functions with that behaviour: one keeps a carriage return, the other drops it.\<close>

definition find_lf :: find_eol where
  "find_lf data pos =
     (let line = takeWhile (\<lambda>c. c \<noteq> LF) (drop pos data) in
      if LF \<in> set (drop pos data) then (int (length line), 1) else (-1, 0))"

definition find_crlf :: find_eol where
  "find_crlf data pos =
     (let line = takeWhile (\<lambda>c. c \<noteq> LF) (drop pos data) in
      if LF \<notin> set (drop pos data) then (-1, 0)
      else if line \<noteq> [] \<and> last line = CR then (int (length line) - 1, 2)
      else (int (length line), 1))"

lemma split_first_LF:
  assumes "LF \<in> set xs"
  shows "xs = takeWhile (\<lambda>c. c \<noteq> LF) xs @ LF # tl (dropWhile (\<lambda>c. c \<noteq> LF) xs)"
proof -
  from assms have ne: "dropWhile (\<lambda>c. c \<noteq> LF) xs \<noteq> []" by (simp add: dropWhile_eq_Nil_conv)
  with hd_dropWhile[OF ne] have "dropWhile (\<lambda>c. c \<noteq> LF) xs = LF # tl (dropWhile (\<lambda>c. c \<noteq> LF) xs)"
    by (metis list.collapse)
  then show ?thesis by (metis takeWhile_dropWhile_id)
qed

lemma LF_notin_takeWhile: "LF \<notin> set (takeWhile (\<lambda>c. c \<noteq> LF) xs)"
  by (auto dest: set_takeWhileD)

lemma finds_eol_find_lf: "finds_eol find_lf"
  unfolding finds_eol_def
proof (intro allI impI)
  fix data :: bytes and pos :: nat
  show "eol_at (drop pos data) (find_lf data pos)"
  proof (cases "LF \<in> set (drop pos data)")
    case True
    have "eol_at (drop pos data) (int (length (takeWhile (\<lambda>c. c \<noteq> LF) (drop pos data))), length [LF])"
      by (rule eol_atI) (use split_first_LF[OF True] LF_notin_takeWhile in auto)
    with True show ?thesis by (simp add: find_lf_def Let_def)
  qed (simp add: eol_at_def find_lf_def)
qed

lemma finds_eol_find_crlf: "finds_eol find_crlf"
  unfolding finds_eol_def
proof (intro allI impI)
  fix data :: bytes and pos :: nat
  let ?w = "takeWhile (\<lambda>c. c \<noteq> LF) (drop pos data)"
  show "eol_at (drop pos data) (find_crlf data pos)"
  proof (cases "LF \<in> set (drop pos data)")
    case True
    note split = split_first_LF[OF True]
    show ?thesis
    proof (cases "?w \<noteq> [] \<and> last ?w = CR")
      case cr: True
      then have w: "?w = butlast ?w @ [CR]" by (metis append_butlast_last_id)
      from w split have "drop pos data = butlast ?w @ [CR, LF] @ tl (dropWhile (\<lambda>c. c \<noteq> LF) (drop pos data))"
        by (metis append.assoc append_Cons append_Nil)
      moreover have "LF \<notin> set (butlast ?w)"
        using LF_notin_takeWhile by (metis in_set_butlastD)
      ultimately have "eol_at (drop pos data) (int (length (butlast ?w)), length [CR, LF])"
        by (intro eol_atI) auto
      moreover have "int (length (butlast ?w)) = int (length ?w) - 1"
        using cr by (cases ?w) auto
      ultimately show ?thesis using True cr by (simp add: find_crlf_def Let_def numeral_2_eq_2)
    next
      case False
      have "eol_at (drop pos data) (int (length ?w), length [LF])"
        by (rule eol_atI) (use split LF_notin_takeWhile in auto)
      with True False show ?thesis by (auto simp: find_crlf_def Let_def)
    qed
  qed (simp add: eol_at_def find_crlf_def)
qed

section \<open>Cutting a stream into lines\<close>

text \<open>
  The specification: \<open>cuts bs ls r\<close> when \<open>bs\<close> is the lines \<open>ls\<close>, each without a line feed
  and each followed by a line ending, and then the unfinished line \<open>r\<close>.
\<close>

inductive cuts :: "bytes \<Rightarrow> bytes list \<Rightarrow> bytes \<Rightarrow> bool" where
  cut_rest: "LF \<notin> set r \<Longrightarrow> cuts r [] r"
| cut_line: "LF \<notin> set l \<Longrightarrow> e = [LF] \<or> e = [CR, LF] \<Longrightarrow> cuts bs ls r \<Longrightarrow>
    cuts (l @ e @ bs) (l # ls) r"

lemma cuts_rest_LF: "cuts bs ls r \<Longrightarrow> LF \<notin> set r"
  by (induction rule: cuts.induct) auto

lemma cuts_append: "cuts bs ls r \<Longrightarrow> cuts (r @ cs) ls' r' \<Longrightarrow> cuts (bs @ cs) (ls @ ls') r'"
  by (induction rule: cuts.induct) (auto dest: cut_line)

text \<open>Without carriage returns the cut is unique: it is the split at every line feed.\<close>

fun split_lf :: "bytes \<Rightarrow> bytes \<Rightarrow> bytes list \<times> bytes" where
  "split_lf acc [] = ([], acc)"
| "split_lf acc (c # cs) =
     (if c = LF then (acc # fst (split_lf [] cs), snd (split_lf [] cs)) else split_lf (acc @ [c]) cs)"

lemma split_lf_line:
  "LF \<notin> set l \<Longrightarrow>
    split_lf acc (l @ LF # cs) = ((acc @ l) # fst (split_lf [] cs), snd (split_lf [] cs))"
  by (induction l arbitrary: acc) auto

lemma split_lf_rest: "LF \<notin> set r \<Longrightarrow> split_lf acc r = ([], acc @ r)"
  by (induction r arbitrary: acc) auto

lemma cuts_split_lf: "cuts bs ls r \<Longrightarrow> CR \<notin> set bs \<Longrightarrow> split_lf [] bs = (ls, r)"
  by (induction rule: cuts.induct) (auto simp: split_lf_line split_lf_rest)

definition with_rest :: "bytes list \<Rightarrow> bytes \<Rightarrow> bytes list" where
  "with_rest ls r = (if r = [] then ls else ls @ [r])"

definition lines_of :: "bytes \<Rightarrow> bytes list" where
  "lines_of bs = (case split_lf [] bs of (ls, r) \<Rightarrow> with_rest ls r)"

section \<open>The loops implement the cut\<close>

lemma split_chunk_cuts:
  assumes "finds_eol f" "LF \<notin> set rem"
  shows "\<exists>ls r. split_chunk f data pos rem (length rem) out = Some (out @ ls, r, length r) \<and>
           cuts (rem @ drop pos data) ls r"
  using assms(2)
proof (induction "length data - pos" arbitrary: pos rem out rule: less_induct)
  case less
  show ?case
  proof (cases "pos < length data")
    case False
    with less.prems show ?thesis
      by (subst split_chunk.simps) (auto intro: cut_rest)
  next
    case in_data: True
    show ?thesis
    proof (cases "LF \<in> set (drop pos data)")
      case False
      then have "fst (f data pos) = -1" using finds_eol_none[OF assms(1) in_data] by blast
      with in_data less.prems False show ?thesis
        by (subst split_chunk.simps) (auto simp: Let_def split: prod.splits intro!: cut_rest)
    next
      case True
      obtain line e where e: "e = [LF] \<or> e = [CR, LF]" "LF \<notin> set line"
        "f data pos = (int (length line), length e)"
        "drop pos data = line @ e @ drop (pos + length line + length e) data"
        "slice data pos (pos + length line) = line" "pos + length line + length e \<le> length data"
        using finds_eolE[OF assms(1) in_data True] by blast
      let ?pos = "pos + length line + length e"
      have unfold: "split_chunk f data pos rem (length rem) out =
          split_chunk f data ?pos [] (length ([] :: bytes)) (out @ [rem @ line])"
        using in_data e(3,5) by (subst split_chunk.simps) (auto simp: Let_def)
      have "length data - ?pos < length data - pos" using e(1) in_data by auto
      from less.hyps[OF this, of "[]" "out @ [rem @ line]"] obtain ls r where
        IH: "split_chunk f data ?pos [] (length ([] :: bytes)) (out @ [rem @ line]) =
             Some (out @ (rem @ line) # ls, r, length r)" "cuts (drop ?pos data) ls r"
        by auto
      from cut_line[OF _ e(1) IH(2), of "rem @ line"] less.prems e(2,4)
      have "cuts (rem @ drop pos data) ((rem @ line) # ls) r" by simp
      with unfold IH(1) show ?thesis by auto
    qed
  qed
qed

lemma split_chunks_cuts:
  assumes "finds_eol f" "LF \<notin> set rem"
  shows "\<exists>ls r. split_chunks f chunks rem (length rem) out = Some (out @ ls, r, length r) \<and>
           cuts (rem @ concat chunks) ls r"
  using assms(2)
proof (induction chunks arbitrary: rem out)
  case Nil
  then show ?case by (auto intro: cut_rest)
next
  case (Cons d ds)
  from split_chunk_cuts[OF assms(1) Cons.prems, of d 0 out] obtain ls r where
    1: "split_chunk f d 0 rem (length rem) out = Some (out @ ls, r, length r)" "cuts (rem @ d) ls r"
    by auto
  from Cons.IH[OF cuts_rest_LF[OF 1(2)], of "out @ ls"] obtain ls' r' where
    2: "split_chunks f ds r (length r) (out @ ls) = Some (out @ ls @ ls', r', length r')"
       "cuts (r @ concat ds) ls' r'"
    by auto
  from cuts_append[OF 1(2) 2(2)] 1(1) 2(1) show ?case by auto
qed

lemma read_output_lines_cuts:
  assumes "finds_eol f"
  obtains ls r where "cuts (concat chunks) ls r"
    "read_output_lines f chunks False = Some (with_rest ls r, Inr ())"
    "read_output_lines f chunks True = Some (ls, Inl ReadTimeout)"
proof -
  from split_chunks_cuts[OF assms, of "[]" chunks "[]"] obtain ls r where
    "split_chunks f chunks [] 0 [] = Some (ls, r, length r)" "cuts (concat chunks) ls r"
    by auto
  then show thesis by (intro that[of ls r]) (auto simp: read_output_lines_def with_rest_def)
qed

lemma read_output_lines_lf:
  assumes "finds_eol f" "CR \<notin> set (concat chunks)"
  shows "read_output_lines f chunks False = Some (lines_of (concat chunks), Inr ())"
proof -
  obtain ls r where c: "cuts (concat chunks) ls r"
    "read_output_lines f chunks False = Some (with_rest ls r, Inr ())"
    by (rule read_output_lines_cuts[OF assms(1)])
  from cuts_split_lf[OF c(1) assms(2)] c(2) show ?thesis by (simp add: lines_of_def)
qed

section \<open>Properties\<close>

text \<open>
  C6: For output without carriage returns, the lines of \<open>read_output_lines\<close> are the lines of the
  whole output, however it was cut into chunks: each line without its line feed, and the rest after
  the last line feed when it is not empty.
\<close>
theorem lines_independent_of_chunks:
  assumes "finds_eol f" "CR \<notin> set (concat chunks)"
  shows "read_output_lines f chunks False = Some (lines_of (concat chunks), Inr ())"
  using assms by (rule read_output_lines_lf)

theorem lines_independent_of_chunks_witness:
  "read_output_lines find_crlf [''ab'', ''c'' @ [LF], ''d'' @ [LF] @ ''e''] False =
     Some ([''abc'', ''d'', ''e''], Inr ())"
proof -
  have "lines_of (''abc'' @ [LF] @ ''d'' @ [LF] @ ''e'') = [''abc'', ''d'', ''e'']" by code_simp
  with lines_independent_of_chunks[OF finds_eol_find_crlf, of "[''ab'', ''c'' @ [LF], ''d'' @ [LF] @ ''e'']"]
  show ?thesis by simp
qed

text \<open>
  \<open>read_output_lines\<close> always returns, and cuts the bytes it read into lines that hold no line
  feed, each followed in the output by a line ending, with a rest that holds none.  At the end of
  the output the rest, when there is one, is the last line; when reading times out, all complete
  lines have been yielded and the rest is dropped.
\<close>
theorem read_output_lines_result:
  assumes "finds_eol f"
  shows "\<exists>ls r. cuts (concat chunks) ls r \<and>
    read_output_lines f chunks False = Some (with_rest ls r, Inr ()) \<and>
    read_output_lines f chunks True = Some (ls, Inl ReadTimeout)"
  using read_output_lines_cuts[OF assms, of chunks] by blast

theorem read_output_lines_result_witness:
  "finds_eol find_lf \<and> (\<exists>ls r. cuts ''ab'' ls r \<and>
     read_output_lines find_lf [''a'', ''b''] False = Some (with_rest ls r, Inr ()) \<and>
     read_output_lines find_lf [''a'', ''b''] True = Some (ls, Inl ReadTimeout))"
  using read_output_lines_result[OF finds_eol_find_lf, of "[''a'', ''b'']"] finds_eol_find_lf by simp

text \<open>
  With carriage returns the lines do depend on the chunks.  A line ending of two bytes that is
  split over two reads leaves its carriage return in the line, though the same bytes in one chunk
  do not.
\<close>
theorem crlf_split_over_chunks:
  "read_output_lines find_crlf [''a'' @ [CR, LF]] False = Some ([''a''], Inr ()) \<and>
   read_output_lines find_crlf [''a'' @ [CR], [LF]] False = Some ([''a'' @ [CR]], Inr ())"
proof -
  have 1: "find_crlf (''a'' @ [CR, LF]) 0 = (1, 2)" "find_crlf (''a'' @ [CR]) 0 = (-1, 0)"
    "find_crlf [LF] 0 = (0, 1)" by code_simp+
  then show ?thesis
    by (simp add: read_output_lines_def split_chunk.simps Let_def slice_def)
qed

text \<open>
  When every line decodes, \<open>read_output_buffer\<close> yields the decoded lines in order, logs each of
  them with the host and the prefix, and calls its callback once at the end, if there is one.
\<close>
theorem read_output_buffer_logs_and_yields:
  assumes "\<And>l. l \<in> set ls \<Longrightarrow> decode l = Inr (f l)"
  shows "read_output_buffer decode host prefix cb ls =
     \<lparr>outputs = map f ls, host_log = map (\<lambda>l. ''['' @ host @ '']'' @ prefix @ [CHR 0x09] @ f l) ls,
      called_back = cb, failure = None\<rparr>"
  using read_output_buffer_decoded[of ls decode f host prefix cb, OF assms] by simp

theorem read_output_buffer_logs_and_yields_witness:
  "read_output_buffer (Inr :: bytes \<Rightarrow> unit + string) ''h'' '''' True [''a''] =
     \<lparr>outputs = [''a''], host_log = [''[h]'' @ [CHR 0x09] @ ''a''], called_back = True, failure = None\<rparr>"
  using read_output_buffer_logs_and_yields[of "[''a'']" "Inr :: bytes \<Rightarrow> unit + string" id "''h''" "''''" True]
  by simp

end
