(* ===== verification/Channel_Readers.thy ===== *)
theory Channel_Readers
  imports RW_Buffer
begin

text \<open>
  The greenlets that read a channel into a buffer: \<open>_read_output_to_buffer\<close> of
  \<open>pssh/clients/native/single.py\<close> and of \<open>pssh/clients/ssh/single.py\<close>.

  The \<open>k\<close>-th call of the read function of the channel answers \<open>script k\<close>, and the \<open>k\<close>-th poll of
  the socket raises \<open>poll k\<close> when that is an exception.  The buffer is the \<open>ConcurrentRWBuffer\<close> of
  the theory \<open>RW_Buffer\<close>; a loop that never comes to an end is \<open>None\<close>.
\<close>

section \<open>The native client\<close>

partial_function (option) native_read_loop ::
  "(nat \<Rightarrow> 'e + int \<times> bytes) \<Rightarrow> (nat \<Rightarrow> 'e option) \<Rightarrow> int \<Rightarrow> nat \<Rightarrow> rw_buffer
     \<Rightarrow> (('e + unit) \<times> rw_buffer) option" where
  "native_read_loop script poll eagain k b =
     (case script k of
        Inl e \<Rightarrow> Some (Inl e, b)
      | Inr (sz, data) \<Rightarrow>
          (if sz = eagain
           then (case poll k of
                   Some e \<Rightarrow> Some (Inl e, b)
                 | None \<Rightarrow> native_read_loop script poll eagain (Suc k) b)
           else if sz \<le> 0 then Some (Inr (), b)
           else native_read_loop script poll eagain (Suc k) (rw_write data b)))"

text \<open>The \<open>finally\<close> block: the end of the output is set however the loop is left.\<close>

definition native_read_output_to_buffer ::
  "(nat \<Rightarrow> 'e + int \<times> bytes) \<Rightarrow> (nat \<Rightarrow> 'e option) \<Rightarrow> int \<Rightarrow> rw_buffer
     \<Rightarrow> (('e + unit) \<times> rw_buffer) option" where
  "native_read_output_to_buffer script poll eagain b =
     map_option (\<lambda>(r, b'). (r, eof_set b')) (native_read_loop script poll eagain 0 b)"

section \<open>The ssh-python client\<close>

datatype 'e ssh_read = ReadEOF | ReadRaises 'e | ReadData int bytes

partial_function (option) ssh_read_loop ::
  "(nat \<Rightarrow> 'e ssh_read) \<Rightarrow> (nat \<Rightarrow> 'e option) \<Rightarrow> nat \<Rightarrow> rw_buffer \<Rightarrow> (('e + unit) \<times> rw_buffer) option" where
  "ssh_read_loop script poll k b =
     (case poll k of
        Some e \<Rightarrow> Some (Inl e, b)
      | None \<Rightarrow>
          (case script k of
             ReadEOF \<Rightarrow> Some (Inr (), b)
           | ReadRaises e \<Rightarrow> Some (Inl e, b)
           | ReadData sz data \<Rightarrow>
               ssh_read_loop script poll (Suc k) (if sz > 0 then rw_write data b else b)))"

definition ssh_read_output_to_buffer ::
  "(nat \<Rightarrow> 'e ssh_read) \<Rightarrow> (nat \<Rightarrow> 'e option) \<Rightarrow> rw_buffer \<Rightarrow> (('e + unit) \<times> rw_buffer) option" where
  "ssh_read_output_to_buffer script poll b =
     map_option (\<lambda>(r, b'). (r, eof_set b')) (ssh_read_loop script poll 0 b)"

section \<open>What is written\<close>

text \<open>The chunks of the first \<open>n\<close> answers, from the \<open>k\<close>-th on, that carry data.\<close>

fun native_chunks :: "(nat \<Rightarrow> 'e + int \<times> bytes) \<Rightarrow> int \<Rightarrow> nat \<Rightarrow> nat \<Rightarrow> bytes list" where
  "native_chunks script eagain k 0 = []"
| "native_chunks script eagain k (Suc n) =
     (case script k of
        Inr (sz, data) \<Rightarrow> (if sz = eagain then [] else [data])
      | Inl _ \<Rightarrow> []) @ native_chunks script eagain (Suc k) n"

fun ssh_chunks :: "(nat \<Rightarrow> 'e ssh_read) \<Rightarrow> nat \<Rightarrow> nat \<Rightarrow> bytes list" where
  "ssh_chunks script k 0 = []"
| "ssh_chunks script k (Suc n) =
     (case script k of ReadData sz data \<Rightarrow> (if sz > 0 then [data] else []) | _ \<Rightarrow> []) @
     ssh_chunks script (Suc k) n"

text \<open>An answer after which the native loop goes on, and one that ends it, with its result.\<close>

definition goes_on :: "int \<Rightarrow> 'e + int \<times> bytes \<Rightarrow> bool" where
  "goes_on eagain ans \<longleftrightarrow> (\<exists>sz data. ans = Inr (sz, data) \<and> (sz = eagain \<or> 0 < sz))"

definition last_result :: "'e + int \<times> bytes \<Rightarrow> 'e + unit" where
  "last_result ans = (case ans of Inl e \<Rightarrow> Inl e | Inr _ \<Rightarrow> Inr ())"

lemma native_read_loop_script:
  assumes "\<And>i. i < n \<Longrightarrow> goes_on eagain (script (k + i))" "\<not> goes_on eagain (script (k + n))"
    "\<And>i. poll i = None"
  shows "native_read_loop script poll eagain k b =
    Some (last_result (script (k + n)), rw.put_all (native_chunks script eagain k n) b)"
  using assms(1,2)
proof (induction n arbitrary: k b)
  case 0
  then show ?case
    by (subst native_read_loop.simps)
       (auto simp: goes_on_def last_result_def rw.put_all.simps split: sum.splits)
next
  case (Suc n)
  obtain sz data where s: "script k = Inr (sz, data)" "sz = eagain \<or> 0 < sz"
    using Suc.prems(1)[of 0] by (auto simp: goes_on_def)
  have "native_read_loop script poll eagain (Suc k) b' =
      Some (last_result (script (Suc k + n)), rw.put_all (native_chunks script eagain (Suc k) n) b')" for b'
    by (rule Suc.IH) (use Suc.prems(1)[of "Suc _"] Suc.prems(2) in auto)
  with s assms(3) show ?case
    by (subst native_read_loop.simps) (auto simp: rw.put_all.simps)
qed

lemma ssh_read_loop_script:
  assumes "\<And>i. i < n \<Longrightarrow> \<exists>sz data. script (k + i) = ReadData sz data"
    "script (k + n) = ReadEOF \<and> r = Inr () \<or> script (k + n) = ReadRaises e \<and> r = Inl e"
    "\<And>i. poll i = None"
  shows "ssh_read_loop script poll k b = Some (r, rw.put_all (ssh_chunks script k n) b)"
  using assms(1,2)
proof (induction n arbitrary: k b)
  case 0
  then show ?case
    by (subst ssh_read_loop.simps) (auto simp: assms(3) rw.put_all.simps)
next
  case (Suc n)
  obtain sz data where s: "script k = ReadData sz data"
    using Suc.prems(1)[of 0] by auto
  have "ssh_read_loop script poll (Suc k) b' = Some (r, rw.put_all (ssh_chunks script (Suc k) n) b')" for b'
    by (rule Suc.IH) (use Suc.prems(1)[of "Suc _"] Suc.prems(2) in auto)
  with s assms(3) show ?case
    by (subst ssh_read_loop.simps) (auto simp: rw.put_all.simps)
qed

text \<open>
  However the loops are left, by the end of the channel or an exception of the read function or of
  the poll, the end of the output is set, and nothing but whole chunks has been appended.
\<close>

definition reads_chunks :: "(nat \<Rightarrow> 'e + int \<times> bytes) \<Rightarrow> int \<Rightarrow> nat \<Rightarrow> rw_buffer \<Rightarrow> rw_buffer \<Rightarrow> bool" where
  "reads_chunks script eagain k b b' \<longleftrightarrow> (rw_inv b \<longrightarrow>
     rw_inv b' \<and> eof b' = eof b \<and> (\<exists>n. written b' = written b @ concat (native_chunks script eagain k n)))"

lemma reads_chunks_refl: "reads_chunks script eagain k b b"
  by (auto simp: reads_chunks_def intro: exI[of _ 0])

lemma reads_chunks_skip:
  assumes "script k = Inr (eagain, d)" "reads_chunks script eagain (Suc k) b b'"
  shows "reads_chunks script eagain k b b'"
  unfolding reads_chunks_def
proof
  assume "rw_inv b"
  with assms(2) obtain n where "rw_inv b'" "eof b' = eof b"
    "written b' = written b @ concat (native_chunks script eagain (Suc k) n)"
    by (auto simp: reads_chunks_def)
  with assms(1) show "rw_inv b' \<and> eof b' = eof b \<and>
      (\<exists>n. written b' = written b @ concat (native_chunks script eagain k n))"
    by (auto intro!: exI[of _ "Suc n"])
qed

lemma reads_chunks_put:
  assumes "script k = Inr (sz, d)" "sz \<noteq> eagain" "reads_chunks script eagain (Suc k) (rw_write d b) b'"
  shows "reads_chunks script eagain k b b'"
  unfolding reads_chunks_def
proof
  assume inv: "rw_inv b"
  from rw_write_fields(1,4)[OF inv] have "written (rw_write d b) = written b @ d" "eof (rw_write d b) = eof b"
    by (simp_all add: written_def)
  with assms(3) rw_inv_write[OF inv] obtain n where "rw_inv b'" "eof b' = eof b"
    "written b' = written b @ d @ concat (native_chunks script eagain (Suc k) n)"
    by (auto simp: reads_chunks_def)
  with assms(1,2) show "rw_inv b' \<and> eof b' = eof b \<and>
      (\<exists>n. written b' = written b @ concat (native_chunks script eagain k n))"
    by (auto intro!: exI[of _ "Suc n"])
qed

lemma native_read_loop_chunks:
  assumes "native_read_loop script poll eagain k b = Some res"
  shows "reads_chunks script eagain k b (snd res)"
proof (rule native_read_loop.raw_induct[where P = "\<lambda>script poll eagain k b res. reads_chunks script eagain k b (snd res)",
      OF _ assms], goal_cases)
  case (1 loop script poll eagain k b res)
  note ih = 1(1)[rule_format]
  from 1(2) show ?case
    by (auto simp: reads_chunks_refl split: sum.splits prod.splits if_splits option.splits
        intro: reads_chunks_skip reads_chunks_put ih)
qed

section \<open>Properties\<close>

text \<open>
  The reader of the native client returns as soon as the channel says that there is no more, or
  raises; then its buffer holds exactly the data of the reads before, in order, EAGAIN answers
  aside, and the end of the output is set in either case.
\<close>
theorem native_reader_fills_buffer:
  assumes "\<And>i. i < n \<Longrightarrow> goes_on eagain (script i)" "\<not> goes_on eagain (script n)" "\<And>i. poll i = None"
  shows "\<exists>b. native_read_output_to_buffer script poll eagain new_buffer = Some (last_result (script n), b) \<and>
     rw_inv b \<and> eof b \<and> unread b = concat (native_chunks script eagain 0 n)"
proof -
  let ?b = "rw.put_all (native_chunks script eagain 0 n) new_buffer"
  have "native_read_loop script poll eagain 0 new_buffer = Some (last_result (script n), ?b)"
    using native_read_loop_script[of n eagain script 0 poll new_buffer] assms by simp
  moreover have "unread new_buffer = []" by (simp add: unread_def new_buffer_def)
  ultimately show ?thesis
    using rw.inv_put_all[OF rw_inv_new, of "native_chunks script eagain 0 n"]
      rw.pending_put_all[OF rw_inv_new, of "native_chunks script eagain 0 n"]
    by (simp add: native_read_output_to_buffer_def rw_inv_eof_set eof_eof_set unread_eof_set)
qed

theorem native_reader_fills_buffer_witness:
  "\<exists>b. native_read_output_to_buffer
       (\<lambda>k. Inr ([(2, ''ab''), (-37, ''''), (1, ''c''), (0, '''')] ! k) :: unit + int \<times> bytes)
       (\<lambda>k. None) (-37) new_buffer = Some (Inr (), b) \<and> rw_inv b \<and> eof b \<and> unread b = ''abc''"
proof -
  let ?s = "\<lambda>k. Inr ([(2, ''ab''), (-37, ''''), (1, ''c''), (0, '''')] ! k) :: unit + int \<times> bytes"
  have 1: "goes_on (-37) (?s i)" if "i < 3" for i
    using that by (auto simp: goes_on_def less_Suc_eq eval_nat_numeral)
  have 2: "\<not> goes_on (-37) (?s 3)" by (simp add: goes_on_def)
  have "concat (native_chunks ?s (-37) 0 3) = ''abc''" "last_result (?s 3) = Inr ()"
    by (simp_all add: eval_nat_numeral last_result_def)
  with native_reader_fills_buffer[of 3 "-37" ?s "\<lambda>k. None"] 1 2 show ?thesis by simp
qed

text \<open>
  The reader of the ssh-python client polls before each read and does the same: on the end of
  the channel it returns, on any other exception it raises, the buffer holds the data of the reads
  that returned some, and the end of the output is set.
\<close>
theorem ssh_reader_fills_buffer:
  assumes "\<And>i. i < n \<Longrightarrow> \<exists>sz data. script i = ReadData sz data" "\<And>i. poll i = None"
    "script n = ReadEOF \<and> r = Inr () \<or> script n = ReadRaises e \<and> r = Inl e"
  shows "\<exists>b. ssh_read_output_to_buffer script poll new_buffer = Some (r, b) \<and>
     rw_inv b \<and> eof b \<and> unread b = concat (ssh_chunks script 0 n)"
proof -
  let ?b = "rw.put_all (ssh_chunks script 0 n) new_buffer"
  have "ssh_read_loop script poll 0 new_buffer = Some (r, ?b)"
    using ssh_read_loop_script[of n script 0 r e poll new_buffer] assms by simp
  moreover have "unread new_buffer = []" by (simp add: unread_def new_buffer_def)
  ultimately show ?thesis
    using rw.inv_put_all[OF rw_inv_new, of "ssh_chunks script 0 n"]
      rw.pending_put_all[OF rw_inv_new, of "ssh_chunks script 0 n"]
    by (simp add: ssh_read_output_to_buffer_def rw_inv_eof_set eof_eof_set unread_eof_set)
qed

theorem ssh_reader_fills_buffer_witness:
  "\<exists>b. ssh_read_output_to_buffer
       (\<lambda>k. [ReadData 2 ''ab'', ReadData (-2) '''', ReadRaises ''reset''] ! k)
       (\<lambda>k. None) new_buffer = Some (Inl ''reset'', b) \<and> rw_inv b \<and> eof b \<and> unread b = ''ab''"
proof -
  let ?s = "\<lambda>k. [ReadData 2 ''ab'', ReadData (-2) '''', ReadRaises ''reset''] ! k"
  have 1: "\<exists>sz data. ?s i = ReadData sz data" if "i < 2" for i
    using that by (auto simp: less_Suc_eq eval_nat_numeral)
  have "concat (ssh_chunks ?s 0 2) = ''ab''" by (simp add: eval_nat_numeral)
  with ssh_reader_fills_buffer[of 2 ?s "\<lambda>k. None" "Inl ''reset''" "''reset''"] 1 show ?thesis by simp
qed

text \<open>
  Whatever ends the native reader, an exception of a read or of a poll included, only whole
  chunks of a prefix of the reads are in the buffer, and the end of the output is set.
\<close>
theorem native_reader_always_sets_eof:
  assumes "native_read_output_to_buffer script poll eagain new_buffer = Some (r, b)"
  shows "rw_inv b \<and> eof b \<and> (\<exists>n. written b = concat (native_chunks script eagain 0 n))"
proof -
  from assms obtain b' where b: "native_read_loop script poll eagain 0 new_buffer = Some (r, b')" "b = eof_set b'"
    by (auto simp: native_read_output_to_buffer_def)
  moreover have "written new_buffer = []" by (simp add: written_def new_buffer_def)
  ultimately show ?thesis
    using native_read_loop_chunks[OF b(1)] rw_inv_eof_set[of b'] eof_eof_set[of b']
    by (auto simp: reads_chunks_def written_def eof_set_def)
qed

theorem native_reader_always_sets_eof_witness:
  "native_read_output_to_buffer (\<lambda>k. if k = 0 then Inr (1, ''a'') else Inl ''gone'') (\<lambda>k. None) (-37) new_buffer =
     Some (Inl ''gone'', eof_set (rw_write ''a'' new_buffer)) \<and> eof (eof_set (rw_write ''a'' new_buffer))"
proof -
  have "native_read_output_to_buffer (\<lambda>k. if k = 0 then Inr (1, ''a'') else Inl ''gone'') (\<lambda>k. None) (-37) new_buffer =
     Some (Inl ''gone'', eof_set (rw_write ''a'' new_buffer))"
    by (simp add: native_read_output_to_buffer_def native_read_loop.simps)
  with native_reader_always_sets_eof[OF this] show ?thesis by simp
qed

end
