(* ===== verification/Py_Values.thy ===== *)
theory Py_Values
  imports Prelude
begin

text \<open>
  The Python values the code inspects: their truth, their types, \<open>or\<close>, \<open>str\<close> and \<open>repr\<close>, and
  the printf-style \<open>%\<close> on strings, which the code uses to format commands, paths and messages.

  A \<open>str\<close> is a list of characters up to 255.  A float is known by whether it is zero and by its
  \<open>repr\<close>; any other object by its \<open>repr\<close>.
\<close>

section \<open>Values\<close>

datatype pyval =
    PNone
  | PBool bool
  | PInt int
  | PFloat bool string
  | PStr string
  | PBytes bytes
  | PList "pyval list"
  | PTuple "pyval list"
  | PDict "(string \<times> pyval) list"
  | PObj string

fun truthy :: "pyval \<Rightarrow> bool" where
  "truthy PNone = False"
| "truthy (PBool b) = b"
| "truthy (PInt i) = (i \<noteq> 0)"
| "truthy (PFloat nonzero _) = nonzero"
| "truthy (PStr s) = (s \<noteq> [])"
| "truthy (PBytes s) = (s \<noteq> [])"
| "truthy (PList xs) = (xs \<noteq> [])"
| "truthy (PTuple xs) = (xs \<noteq> [])"
| "truthy (PDict kvs) = (kvs \<noteq> [])"
| "truthy (PObj _) = True"

definition py_or :: "pyval \<Rightarrow> pyval \<Rightarrow> pyval" where
  "py_or a b = (if truthy a then a else b)"

text \<open>\<open>isinstance\<close>; a \<open>bool\<close> is an \<open>int\<close>.\<close>

fun is_str :: "pyval \<Rightarrow> bool" where
  "is_str (PStr _) = True" | "is_str _ = False"

fun is_bytes :: "pyval \<Rightarrow> bool" where
  "is_bytes (PBytes _) = True" | "is_bytes _ = False"

fun is_bool :: "pyval \<Rightarrow> bool" where
  "is_bool (PBool _) = True" | "is_bool _ = False"

fun is_int :: "pyval \<Rightarrow> bool" where
  "is_int (PInt _) = True" | "is_int (PBool _) = True" | "is_int _ = False"

fun is_float :: "pyval \<Rightarrow> bool" where
  "is_float (PFloat _ _) = True" | "is_float _ = False"

fun is_list :: "pyval \<Rightarrow> bool" where
  "is_list (PList _) = True" | "is_list _ = False"

lemma py_or_simps [simp]:
  "truthy a \<Longrightarrow> py_or a b = a"
  "\<not> truthy a \<Longrightarrow> py_or a b = b"
  by (simp_all add: py_or_def)

section \<open>str and repr\<close>

definition digit :: "nat \<Rightarrow> char" where
  "digit d = char_of (48 + d)"

fun dec_nat :: "nat \<Rightarrow> string" where
  "dec_nat n = (if n < 10 then [digit n] else dec_nat (n div 10) @ [digit (n mod 10)])"

declare dec_nat.simps [simp del]

definition dec_int :: "int \<Rightarrow> string" where
  "dec_int i = (if i < 0 then ''-'' @ dec_nat (nat (- i)) else dec_nat (nat i))"

definition hex_digit :: "nat \<Rightarrow> char" where
  "hex_digit d = (if d < 10 then char_of (48 + d) else char_of (87 + d))"

definition hex_escape :: "nat \<Rightarrow> string" where
  "hex_escape n = [CHR 0x5C, CHR ''x'', hex_digit (n div 16), hex_digit (n mod 16)]"

definition repr_quote :: "string \<Rightarrow> char" where
  "repr_quote s = (if CHR 0x27 \<in> set s \<and> CHR 0x22 \<notin> set s then CHR 0x22 else CHR 0x27)"

definition repr_char :: "bool \<Rightarrow> char \<Rightarrow> char \<Rightarrow> string" where
  "repr_char high quote c =
     (let n = of_char c :: nat in
      if c = quote \<or> c = CHR 0x5C then [CHR 0x5C, c]
      else if n = 10 then [CHR 0x5C, CHR ''n'']
      else if n = 13 then [CHR 0x5C, CHR ''r'']
      else if n = 9 then [CHR 0x5C, CHR ''t'']
      else if n < 32 \<or> n = 127 then hex_escape n
      else if n > 127 \<and> (high \<or> n \<le> 160 \<or> n = 173) then hex_escape n
      else [c])"

definition repr_str :: "string \<Rightarrow> string" where
  "repr_str s = (let q = repr_quote s in [q] @ concat (map (repr_char False q) s) @ [q])"

definition repr_bytes :: "bytes \<Rightarrow> string" where
  "repr_bytes s = (let q = repr_quote s in ''b'' @ [q] @ concat (map (repr_char True q) s) @ [q])"

fun comma_join :: "string list \<Rightarrow> string" where
  "comma_join [] = ''''"
| "comma_join [s] = s"
| "comma_join (s # t # ts) = s @ '', '' @ comma_join (t # ts)"

fun py_repr :: "pyval \<Rightarrow> string" where
  "py_repr PNone = ''None''"
| "py_repr (PBool b) = (if b then ''True'' else ''False'')"
| "py_repr (PInt i) = dec_int i"
| "py_repr (PFloat _ r) = r"
| "py_repr (PStr s) = repr_str s"
| "py_repr (PBytes s) = repr_bytes s"
| "py_repr (PList xs) = ''['' @ comma_join (map py_repr xs) @ '']''"
| "py_repr (PTuple xs) =
     ''('' @ comma_join (map py_repr xs) @ (if length xs = 1 then '','' else '''') @ '')''"
| "py_repr (PDict kvs) =
     ''{'' @ comma_join (map (\<lambda>(k, v). repr_str k @ '': '' @ py_repr v) kvs) @ ''}''"
| "py_repr (PObj r) = r"

definition py_str :: "pyval \<Rightarrow> string" where
  "py_str v = (case v of PStr s \<Rightarrow> s | _ \<Rightarrow> py_repr v)"

lemma py_str_PStr [simp]: "py_str (PStr s) = s"
  by (simp add: py_str_def)

section \<open>The formatting operator\<close>

text \<open>
  \<open>FmtNotModelled\<close> marks a conversion outside the model: flags, widths, precisions, and the
  conversions other than \<open>%s\<close>, \<open>%r\<close>, \<open>%d\<close>, \<open>%i\<close>, \<open>%u\<close> and \<open>%%\<close>.
\<close>

datatype fmt_error = FmtTypeError | FmtValueError | FmtKeyError string | FmtNotModelled

text \<open>
  The argument is a tuple, whose items are used in turn, or a single value, which is used once.
  A mapping key \<open>%(key)s\<close> makes the value looked up the next argument.
\<close>

datatype fmt_args = Items "pyval list" | Single pyval | Used

fun next_arg :: "fmt_args \<Rightarrow> fmt_error + pyval \<times> fmt_args" where
  "next_arg (Items (x # xs)) = Inr (x, Items xs)"
| "next_arg (Items []) = Inl FmtTypeError"
| "next_arg (Single v) = Inr (v, Used)"
| "next_arg Used = Inl FmtTypeError"

fun is_mapping :: "pyval \<Rightarrow> bool" where
  "is_mapping (PDict _) = True"
| "is_mapping (PList _) = True"
| "is_mapping (PBytes _) = True"
| "is_mapping _ = False"

fun map_lookup :: "pyval \<Rightarrow> string \<Rightarrow> fmt_error + pyval" where
  "map_lookup (PDict kvs) key =
     (case map_of kvs key of None \<Rightarrow> Inl (FmtKeyError key) | Some v \<Rightarrow> Inr v)"
| "map_lookup _ key = Inl FmtTypeError"

text \<open>The key up to its closing parenthesis, and the rest of the format.\<close>

fun take_key :: "nat \<Rightarrow> string \<Rightarrow> (string \<times> string) option" where
  "take_key depth [] = None"
| "take_key depth (c # cs) =
     (if c = CHR '')'' \<and> depth = 0 then Some ([], cs)
      else map_option (\<lambda>(k, r). (c # k, r))
        (take_key (if c = CHR '')'' then depth - 1 else if c = CHR ''('' then Suc depth else depth) cs))"

lemma take_key_length: "take_key d cs = Some (k, r) \<Longrightarrow> length r < length cs"
  by (induction d cs arbitrary: k r rule: take_key.induct) (fastforce split: if_splits)+

text \<open>One conversion, for the character after the \<open>%\<close> and the key.\<close>

definition convert :: "char \<Rightarrow> fmt_args \<Rightarrow> fmt_error + string \<times> fmt_args" where
  "convert c args =
     (if c = CHR ''%'' then Inr (''%'', args)
      else if c \<in> set ''-+ #0123456789*.hlL'' then Inl FmtNotModelled
      else (case next_arg args of
              Inl e \<Rightarrow> Inl e
            | Inr (v, args') \<Rightarrow>
                if c = CHR ''s'' then Inr (py_str v, args')
                else if c = CHR ''r'' then Inr (py_repr v, args')
                else if c \<in> set ''diu'' then
                  (case v of
                     PInt i \<Rightarrow> Inr (dec_int i, args')
                   | PBool b \<Rightarrow> Inr (if b then ''1'' else ''0'', args')
                   | PFloat _ _ \<Rightarrow> Inl FmtNotModelled
                   | _ \<Rightarrow> Inl FmtTypeError)
                else if c \<in> set ''acoxXeEfFgG'' then Inl FmtNotModelled
                else Inl FmtValueError))"

function (sequential) format_from :: "pyval option \<Rightarrow> fmt_args \<Rightarrow> string \<Rightarrow> fmt_error + string" where
  "format_from dict args [] =
     (case args of
        Items (_ # _) \<Rightarrow> Inl FmtTypeError
      | Single _ \<Rightarrow> (if dict = None then Inl FmtTypeError else Inr [])
      | _ \<Rightarrow> Inr [])"
| "format_from dict args (c # cs) =
     (if c \<noteq> CHR ''%'' then map_sum id (Cons c) (format_from dict args cs)
      else (case cs of
              [] \<Rightarrow> Inl FmtValueError
            | k # ks \<Rightarrow>
                if k = CHR ''('' then
                  (case dict of
                     None \<Rightarrow> Inl FmtTypeError
                   | Some d \<Rightarrow>
                       (case take_key 0 ks of
                          None \<Rightarrow> Inl FmtValueError
                        | Some (key, rest) \<Rightarrow>
                            (case map_lookup d key of
                               Inl e \<Rightarrow> Inl e
                             | Inr v \<Rightarrow>
                                 (case rest of
                                    [] \<Rightarrow> Inl FmtValueError
                                  | c' # rest' \<Rightarrow>
                                      (case convert c' (Single v) of
                                         Inl e \<Rightarrow> Inl e
                                       | Inr (s, args') \<Rightarrow>
                                           map_sum id (\<lambda>t. s @ t) (format_from dict args' rest'))))))
                else (case convert k args of
                        Inl e \<Rightarrow> Inl e
                      | Inr (s, args') \<Rightarrow> map_sum id (\<lambda>t. s @ t) (format_from dict args' ks))))"
  by pat_completeness auto
termination
  by (relation "measure (\<lambda>(d, a, s). length s)") (auto dest!: take_key_length)

declare format_from.simps [simp del]

definition py_format :: "string \<Rightarrow> pyval \<Rightarrow> fmt_error + string" where
  "py_format fmt v =
     format_from (if is_mapping v then Some v else None)
       (case v of PTuple xs \<Rightarrow> Items xs | _ \<Rightarrow> Single v) fmt"

section \<open>Templates\<close>

lemma format_literal:
  "CHR ''%'' \<notin> set p \<Longrightarrow>
    format_from dict args (p @ cs) = map_sum id (\<lambda>t. p @ t) (format_from dict args cs)"
proof (induction p)
  case Nil
  then show ?case by (cases "format_from dict args cs") auto
next
  case (Cons c p)
  then show ?case
    by (cases "format_from dict args cs") (auto simp: format_from.simps)
qed

lemma format_percent_s:
  "format_from dict args (''%s'' @ cs) =
    (case next_arg args of
       Inl e \<Rightarrow> Inl e
     | Inr (v, args') \<Rightarrow> map_sum id (\<lambda>t. py_str v @ t) (format_from dict args' cs))"
  by (auto simp: format_from.simps(2) convert_def split: sum.split)

text \<open>Literal pieces with a \<open>%s\<close> between each two, and what formatting makes of them.\<close>

fun template :: "string list \<Rightarrow> string" where
  "template [] = []"
| "template [p] = p"
| "template (p # q # ps) = p @ ''%s'' @ template (q # ps)"

fun weave :: "string list \<Rightarrow> string list \<Rightarrow> string" where
  "weave [] _ = []"
| "weave (p # ps) [] = p"
| "weave (p # ps) (x # xs) = p @ x @ weave ps xs"

lemma format_template_items:
  assumes "\<And>p. p \<in> set ps \<Longrightarrow> CHR ''%'' \<notin> set p" "ps \<noteq> []"
  shows "format_from dict (Items xs) (template ps) =
    (if length ps = Suc (length xs) then Inr (weave ps (map py_str xs)) else Inl FmtTypeError)"
  using assms
proof (induction ps arbitrary: xs rule: template.induct)
  case (2 p)
  then show ?case
    using format_literal[of p dict "Items xs" "[]"]
    by (cases xs) (auto simp: format_from.simps)
next
  case (3 p q ps)
  from "3.prems" have p: "CHR ''%'' \<notin> set p" by simp
  show ?case
  proof (cases xs)
    case Nil
    with p show ?thesis
      using format_percent_s[of dict "Items []" "template (q # ps)"] by (simp add: format_literal)
  next
    case (Cons x xs')
    with p "3.IH"[of xs'] "3.prems" show ?thesis
      using format_percent_s[of dict "Items (x # xs')" "template (q # ps)"] by (simp add: format_literal)
  qed
qed simp

lemma py_format_template:
  assumes "\<And>p. p \<in> set ps \<Longrightarrow> CHR ''%'' \<notin> set p" "ps \<noteq> []"
  shows "py_format (template ps) (PTuple xs) =
    (if length ps = Suc (length xs) then Inr (weave ps (map py_str xs)) else Inl FmtTypeError)"
  using format_template_items[OF assms] by (simp add: py_format_def)

text \<open>A format that is one mapping key, as the SCP functions use it.\<close>

lemma take_key_simple:
  "CHR '')'' \<notin> set k \<Longrightarrow> CHR ''('' \<notin> set k \<Longrightarrow> take_key 0 (k @ CHR '')'' # r) = Some (k, r)"
  by (induction k) auto

lemma py_format_key:
  assumes "CHR '')'' \<notin> set k" "CHR ''('' \<notin> set k"
  shows "py_format (''%('' @ k @ '')s'') (PDict kvs) =
    (case map_of kvs k of None \<Rightarrow> Inl (FmtKeyError k) | Some v \<Rightarrow> Inr (py_str v))"
  using take_key_simple[OF assms, of "''s''"]
  by (auto simp: py_format_def format_from.simps convert_def split: option.split)

end
