(* ===== verification/Py_Strings.thy ===== *)
theory Py_Strings
  imports Prelude
begin

text \<open>
  The string functions and the parts of \<open>os.path\<close> that the file transfers and the key
  validation use, on POSIX.
\<close>

section \<open>Strings\<close>

text \<open>\<open>s.split(c)\<close>, \<open>c.join(xs)\<close>, \<open>s.endswith(c)\<close>, \<open>s.startswith(c)\<close> for one character.\<close>

fun split_on :: "char \<Rightarrow> string \<Rightarrow> string list" where
  "split_on c [] = [[]]"
| "split_on c (x # xs) =
     (if x = c then [] # split_on c xs
      else (case split_on c xs of [] \<Rightarrow> [[x]] | p # ps \<Rightarrow> (x # p) # ps))"

fun join_with :: "char \<Rightarrow> string list \<Rightarrow> string" where
  "join_with c [] = []"
| "join_with c [p] = p"
| "join_with c (p # q # ps) = p @ c # join_with c (q # ps)"

definition ends_with :: "char \<Rightarrow> string \<Rightarrow> bool" where
  "ends_with c s = (s \<noteq> [] \<and> last s = c)"

definition starts_with :: "char \<Rightarrow> string \<Rightarrow> bool" where
  "starts_with c s = (s \<noteq> [] \<and> hd s = c)"

text \<open>\<open>s.rfind(c)\<close>, \<open>-1\<close> when there is none.\<close>

definition rfind :: "char \<Rightarrow> string \<Rightarrow> int" where
  "rfind c s =
     (if c \<in> set s then int (length s) - 1 - int (length (takeWhile (\<lambda>x. x \<noteq> c) (rev s))) else -1)"

lemma split_on_nonempty [simp]: "split_on c s \<noteq> []"
  by (cases s) (auto split: list.split)

lemma split_on_pieces: "p \<in> set (split_on c s) \<Longrightarrow> c \<notin> set p"
  by (induction s arbitrary: p) (auto split: if_splits list.splits)

lemma join_split: "join_with c (split_on c s) = s"
proof (induction s)
  case (Cons x xs)
  have "join_with c ((x # p) # ps) = x # join_with c (p # ps)" for p ps
    by (cases ps) auto
  with Cons show ?case by (cases "split_on c xs") (auto split: list.split)
qed simp

lemma split_on_no_sep: "c \<notin> set s \<Longrightarrow> split_on c s = [s]"
  by (induction s) auto

lemma split_on_append_sep: "c \<notin> set p \<Longrightarrow> split_on c (p @ c # s) = p # split_on c s"
  by (induction p) auto

lemma split_on_at_sep: "split_on c (p @ c # s) = split_on c p @ split_on c s"
proof (induction p)
  case (Cons x xs)
  obtain q qs where "split_on c xs = q # qs" by (cases "split_on c xs") auto
  with Cons show ?case by simp
qed simp

lemma split_join:
  "(\<And>p. p \<in> set ps \<Longrightarrow> c \<notin> set p) \<Longrightarrow> ps \<noteq> [] \<Longrightarrow> split_on c (join_with c ps) = ps"
  by (induction c ps rule: join_with.induct) (auto simp: split_on_no_sep split_on_append_sep)

lemma rfind_split:
  assumes "c \<notin> set b"
  shows "rfind c (a @ c # b) = int (length a)"
proof -
  have "takeWhile (\<lambda>x. x \<noteq> c) (rev b @ c # rev a) = rev b"
    using assms by (subst takeWhile_append2) auto
  then show ?thesis by (simp add: rfind_def)
qed

lemma rfind_none: "c \<notin> set s \<Longrightarrow> rfind c s = -1"
  by (simp add: rfind_def)

lemma split_last_sep:
  assumes "c \<in> set s"
  obtains a b where "s = a @ c # b" "c \<notin> set b"
  using assms by (metis split_list_last)

section \<open>Paths\<close>

abbreviation SLASH :: char where "SLASH \<equiv> CHR ''/''"

definition path_join :: "string \<Rightarrow> string \<Rightarrow> string" where
  "path_join a b =
     (if starts_with SLASH b then b
      else if a = [] \<or> ends_with SLASH a then a @ b
      else a @ SLASH # b)"

definition is_abs :: "string \<Rightarrow> bool" where
  "is_abs p = starts_with SLASH p"

fun norm_comps :: "bool \<Rightarrow> string list \<Rightarrow> string list \<Rightarrow> string list" where
  "norm_comps rooted new [] = new"
| "norm_comps rooted new (d # comps) =
     (if d = [] \<or> d = ''.'' then norm_comps rooted new comps
      else if d \<noteq> ''..'' \<or> (\<not> rooted \<and> new = []) \<or> (new \<noteq> [] \<and> last new = ''..'')
      then norm_comps rooted (new @ [d]) comps
      else norm_comps rooted (butlast new) comps)"

definition initial_slashes :: "string \<Rightarrow> nat" where
  "initial_slashes p =
     (if \<not> starts_with SLASH p then 0
      else if take 2 p = [SLASH, SLASH] \<and> take 3 p \<noteq> [SLASH, SLASH, SLASH] then 2 else 1)"

definition normpath :: "string \<Rightarrow> string" where
  "normpath p =
     (if p = [] then ''.''
      else let n = initial_slashes p;
               q = replicate n SLASH @
                   join_with SLASH (norm_comps (n > 0) [] (split_on SLASH p))
           in if q = [] then ''.'' else q)"

lemma path_join_abs: "is_abs a \<Longrightarrow> is_abs (path_join a b)"
  by (auto simp: is_abs_def path_join_def starts_with_def)

text \<open>The last component and what precedes it, as \<open>rsplit\<close> and the copies use them.\<close>

definition last_component :: "string \<Rightarrow> string" where
  "last_component p = last (split_on SLASH p)"

definition nonempty_components :: "string \<Rightarrow> string list" where
  "nonempty_components p = filter (\<lambda>d. d \<noteq> []) (split_on SLASH p)"

lemma nonempty_components_no_sep: "d \<in> set (nonempty_components p) \<Longrightarrow> SLASH \<notin> set d \<and> d \<noteq> []"
  by (auto simp: nonempty_components_def dest: split_on_pieces)

end
