(* ===== verification/Exceptions.thy ===== *)
theory Exceptions
  imports Py_Values
begin

text \<open>
  \<open>pssh/exceptions.py\<close>: the exception classes and their order, and \<open>_PSSHError.__str__\<close>, which formats the
  printf-style arguments an exception was raised with.
\<close>

section \<open>The classes\<close>

datatype pssh_exception =
    PSSHError
  | NoIPv6AddressFoundError
  | UnknownHostError
  | ConnectionError
  | AuthenticationError
  | SSHError
  | HostArgumentError
  | SessionError
  | SFTPError
  | SFTPIOError
  | ProxyError
  | Timeout
  | SCPError
  | PKeyFileError
  | ShellError
  | HostConfigError
  | InvalidAPIUseError

text \<open>
  The base class of each.  \<open>PSSHError\<close> is \<open>_PSSHError\<close>; \<open>ConnectionError\<close> is the built-in class of that
  name, whose bases are outside the package.
\<close>

primrec base_class :: "pssh_exception \<Rightarrow> pssh_exception option" where
  "base_class PSSHError = None"
| "base_class NoIPv6AddressFoundError = Some PSSHError"
| "base_class UnknownHostError = Some PSSHError"
| "base_class ConnectionError = None"
| "base_class AuthenticationError = Some PSSHError"
| "base_class SSHError = Some PSSHError"
| "base_class HostArgumentError = Some PSSHError"
| "base_class SessionError = Some PSSHError"
| "base_class SFTPError = Some PSSHError"
| "base_class SFTPIOError = Some SFTPError"
| "base_class ProxyError = Some PSSHError"
| "base_class Timeout = Some PSSHError"
| "base_class SCPError = Some PSSHError"
| "base_class PKeyFileError = Some PSSHError"
| "base_class ShellError = Some PSSHError"
| "base_class HostConfigError = Some PSSHError"
| "base_class InvalidAPIUseError = Some PSSHError"

lemma base_class_cases:
  "base_class e = None \<or> base_class e = Some PSSHError \<or> e = SFTPIOError \<and> base_class e = Some SFTPError"
  by (cases e) simp_all

text \<open>\<open>issubclass\<close> is a partial order.\<close>

instantiation pssh_exception :: order
begin

definition less_eq_pssh_exception :: "pssh_exception \<Rightarrow> pssh_exception \<Rightarrow> bool" where
  "less_eq_pssh_exception e c \<longleftrightarrow>
     e = c \<or> base_class e = Some c \<or>
     (case base_class e of None \<Rightarrow> False | Some b \<Rightarrow> base_class b = Some c)"

definition less_pssh_exception :: "pssh_exception \<Rightarrow> pssh_exception \<Rightarrow> bool" where
  "less_pssh_exception e c \<longleftrightarrow> e \<le> c \<and> e \<noteq> c"

lemma issubclass_iff:
  "(e :: pssh_exception) \<le> c \<longleftrightarrow>
     e = c \<or> c = PSSHError \<and> base_class e \<noteq> None \<or> c = SFTPError \<and> e = SFTPIOError"
  using base_class_cases[of e] by (auto simp: less_eq_pssh_exception_def)

instance
proof
  fix x y z :: pssh_exception
  show "x \<le> x" by (simp add: issubclass_iff)
  show "x \<le> z" if "x \<le> y" "y \<le> z" using that by (auto simp: issubclass_iff)
  show "x = y" if "x \<le> y" "y \<le> x" using that by (auto simp: issubclass_iff)
  show "x < y \<longleftrightarrow> x \<le> y \<and> \<not> y \<le> x" by (auto simp: less_pssh_exception_def issubclass_iff)
qed

end

text \<open>Which \<open>except\<close> clause catches which class.\<close>

definition catches :: "pssh_exception \<Rightarrow> pssh_exception \<Rightarrow> bool" where
  "catches handler e \<longleftrightarrow> e \<le> handler"

text \<open>The older names are the same classes.\<close>

definition UnknownHostException :: pssh_exception where "UnknownHostException = UnknownHostError"
definition ConnectionErrorException :: pssh_exception where "ConnectionErrorException = ConnectionError"
definition AuthenticationException :: pssh_exception where "AuthenticationException = AuthenticationError"
definition SSHException :: pssh_exception where "SSHException = SSHError"
definition HostArgumentException :: pssh_exception where "HostArgumentException = HostArgumentError"

section \<open>The message\<close>

text \<open>\<open>Exception.__str__\<close>.\<close>

fun default_str :: "pyval list \<Rightarrow> string" where
  "default_str [] = ''''"
| "default_str [x] = py_str x"
| "default_str xs = py_repr (PTuple xs)"

text \<open>
  \<open>None\<close> only where the format uses a conversion that the model of \<open>%\<close> leaves out.
\<close>

definition pssh_str :: "pyval list \<Rightarrow> string option" where
  "pssh_str args =
     (case args of
        PStr fmt # rest \<Rightarrow>
          (if rest = [] then Some (default_str args)
           else (case py_format fmt (PTuple rest) of
                   Inr s \<Rightarrow> Some s
                 | Inl FmtNotModelled \<Rightarrow> None
                 | Inl _ \<Rightarrow> Some (default_str args)))
      | _ \<Rightarrow> Some (default_str args))"

text \<open>
  The text of an exception of each class.  The built-in \<open>OSError\<close> takes two to five arguments apart,
  which is left out; with other numbers its text is that of \<open>Exception\<close>.
\<close>

definition exception_str :: "pssh_exception \<Rightarrow> pyval list \<Rightarrow> string option" where
  "exception_str c args =
     (if c \<le> PSSHError then pssh_str args
      else if 2 \<le> length args \<and> length args \<le> 5 then None
      else Some (default_str args))"

lemma only_connection_error_is_foreign: "\<not> c \<le> PSSHError \<longleftrightarrow> c = ConnectionError"
  by (cases c) (simp_all add: issubclass_iff)

lemma pssh_str_template:
  assumes "\<And>p. p \<in> set ps \<Longrightarrow> CHR ''%'' \<notin> set p" "ps \<noteq> []" "xs \<noteq> []"
  shows "pssh_str (PStr (template ps) # xs) =
    Some (if length ps = Suc (length xs) then weave ps (map py_str xs)
          else default_str (PStr (template ps) # xs))"
  using py_format_template[OF assms(1,2), of xs] assms(3) by (simp add: pssh_str_def)

lemma exception_text_of:
  assumes "\<And>p. p \<in> set ps \<Longrightarrow> CHR ''%'' \<notin> set p" "ps \<noteq> []" "xs \<noteq> []" "c \<noteq> ConnectionError"
  shows "exception_str c (PStr (template ps) # xs) =
    Some (if length ps = Suc (length xs) then weave ps (map py_str xs)
          else default_str (PStr (template ps) # xs))"
  using pssh_str_template[OF assms(1-3)] assms(4) only_connection_error_is_foreign[of c]
  by (simp add: exception_str_def)

section \<open>Properties\<close>

text \<open>
  The text of an exception of the library is its template with the other arguments formatted
  into the placeholders; when their numbers differ it falls back to Python's own text.
\<close>
theorem exception_text:
  assumes "\<And>p. p \<in> set ps \<Longrightarrow> CHR ''%'' \<notin> set p" "ps \<noteq> []" "xs \<noteq> []" "c \<noteq> ConnectionError"
  shows "exception_str c (PStr (template ps) # xs) =
    Some (if length ps = Suc (length xs) then weave ps (map py_str xs)
          else default_str (PStr (template ps) # xs))"
  using assms by (rule exception_text_of)

theorem exception_text_witness:
  "exception_str UnknownHostError (PStr (template [''Unknown host '', '' - retry '', '''']) # [PStr ''h'', PInt 3]) =
     Some ''Unknown host h - retry 3''"
proof -
  have "weave [''Unknown host '', '' - retry '', ''''] (map py_str [PStr ''h'', PInt 3]) = ''Unknown host h - retry 3''"
    by code_simp
  moreover have "CHR ''%'' \<notin> set p" if "p \<in> set [''Unknown host '', '' - retry '', '''']" for p
    using that by auto
  ultimately show ?thesis
    using exception_text[of "[''Unknown host '', '' - retry '', '''']" "[PStr ''h'', PInt 3]" UnknownHostError] by simp
qed

end
