(* ===== verification/Validation.thy ===== *)
theory Validation
  imports Py_Values Py_Strings Exceptions
begin

text \<open>
  \<open>pssh/clients/common.py\<close>: checking a private key path and the keyboard-interactive setting.
  The environment is a parameter: \<open>expanduser\<close> of \<open>os.path\<close>, which reads the home directories,
  and \<open>exists\<close>, which reads the file system.
\<close>

section \<open>Validation of keys\<close>

text \<open>A raised exception: its class and its arguments.\<close>

type_synonym raised = "pssh_exception \<times> pyval list"

definition pkey_file_msg :: string where
  "pkey_file_msg = ''File %s does not exist. Please use either absolute or relative to user directory paths like '~/.ssh/my_key' for pkey parameter''"

definition validate_pkey_path ::
  "(string \<Rightarrow> string) \<Rightarrow> (string \<Rightarrow> bool) \<Rightarrow> string option \<Rightarrow> raised + string option" where
  "validate_pkey_path expanduser path_exists pkey =
     (case pkey of
        None \<Rightarrow> Inr None
      | Some p \<Rightarrow>
          let q = normpath (expanduser p) in
          if \<not> path_exists q then Inl (PKeyFileError, [PStr pkey_file_msg, PStr q])
          else Inr (Some q))"

definition validate_pkey ::
  "(string \<Rightarrow> string) \<Rightarrow> (string \<Rightarrow> bool) \<Rightarrow> pyval \<Rightarrow> raised + pyval" where
  "validate_pkey expanduser path_exists pkey =
     (case pkey of
        PNone \<Rightarrow> Inr PNone
      | PStr p \<Rightarrow>
          (case validate_pkey_path expanduser path_exists (Some p) of
             Inl e \<Rightarrow> Inl e
           | Inr None \<Rightarrow> Inr PNone
           | Inr (Some q) \<Rightarrow> Inr (PStr q))
      | _ \<Rightarrow> Inr pkey)"

definition validate_api_msg :: string where
  "validate_api_msg = ''Keyboard interactive authentication is enabled but no password is provided - cannot continue''"

definition validate_api :: "pyval \<Rightarrow> pyval \<Rightarrow> raised + unit" where
  "validate_api keyboard_interactive password =
     (if truthy keyboard_interactive \<and> \<not> truthy password
      then Inl (InvalidAPIUseError, [PStr validate_api_msg]) else Inr ())"

section \<open>What a validated key is\<close>

lemma validate_pkey_ok:
  assumes "validate_pkey expanduser path_exists pkey = Inr v"
  shows "v = pkey \<and> \<not> is_str pkey \<or>
    (\<exists>p. pkey = PStr p \<and> v = PStr (normpath (expanduser p)) \<and> path_exists (normpath (expanduser p)))"
  using assms
  by (cases pkey) (auto simp: validate_pkey_def validate_pkey_path_def Let_def split: if_splits)

lemma validate_pkey_error:
  "validate_pkey expanduser path_exists pkey = Inl e \<longleftrightarrow>
    (\<exists>p. pkey = PStr p \<and> \<not> path_exists (normpath (expanduser p)) \<and>
      e = (PKeyFileError, [PStr pkey_file_msg, PStr (normpath (expanduser p))]))"
  by (cases pkey) (auto simp: validate_pkey_def validate_pkey_path_def Let_def split: if_splits)

lemma validate_api_error:
  "validate_api ki pw = Inl e \<longleftrightarrow>
    truthy ki \<and> \<not> truthy pw \<and> e = (InvalidAPIUseError, [PStr validate_api_msg])"
  by (auto simp: validate_api_def)

lemma validate_api_ok: "validate_api ki pw = Inr () \<longleftrightarrow> (truthy ki \<longrightarrow> truthy pw)"
  by (auto simp: validate_api_def)

section \<open>Properties\<close>

text \<open>
  A private key path is accepted exactly when the path it names, after the home directory is
  put in and the path is normalised, exists, and that path is what the client uses; anything that
  is not a path is passed through as it is; otherwise \<open>PKeyFileError\<close> is raised with that path.
\<close>
theorem validate_pkey_result:
  "validate_pkey expanduser path_exists pkey =
     (if \<not> is_str pkey then Inr pkey
      else let q = normpath (expanduser (py_str pkey)) in
        if path_exists q then Inr (PStr q) else Inl (PKeyFileError, [PStr pkey_file_msg, PStr q]))"
  by (cases pkey) (simp_all add: validate_pkey_def validate_pkey_path_def Let_def)

end
