(* ===== verification/Host_Config.thy ===== *)
theory Host_Config
  imports Py_Values
begin

text \<open>
  \<open>pssh/config.py\<close>: \<open>HostConfig\<close>, whose constructor stores what it is given and then checks
  it.  The fields hold arbitrary Python values until the checks have passed.
\<close>

section \<open>The record and its defaults\<close>

record host_config =
  hc_user :: pyval
  hc_port :: pyval
  hc_password :: pyval
  hc_private_key :: pyval
  hc_allow_agent :: pyval
  hc_alias :: pyval
  hc_num_retries :: pyval
  hc_retry_delay :: pyval
  hc_timeout :: pyval
  hc_identity_auth :: pyval
  hc_proxy_host :: pyval
  hc_proxy_port :: pyval
  hc_proxy_user :: pyval
  hc_proxy_password :: pyval
  hc_proxy_pkey :: pyval
  hc_keepalive_seconds :: pyval
  hc_ipv6_only :: pyval
  hc_cert_file :: pyval
  hc_auth_thread_pool :: pyval
  hc_gssapi_auth :: pyval
  hc_gssapi_server_identity :: pyval
  hc_gssapi_client_identity :: pyval
  hc_gssapi_delegate_credentials :: pyval
  hc_forward_ssh_agent :: pyval
  hc_compress :: pyval
  hc_keyboard_interactive :: pyval

text \<open>The keyword arguments' defaults.\<close>

definition default_config :: host_config where
  "default_config =
     \<lparr>hc_user = PNone,
      hc_port = PNone,
      hc_password = PNone,
      hc_private_key = PNone,
      hc_allow_agent = PNone,
      hc_alias = PNone,
      hc_num_retries = PNone,
      hc_retry_delay = PNone,
      hc_timeout = PNone,
      hc_identity_auth = PNone,
      hc_proxy_host = PNone,
      hc_proxy_port = PNone,
      hc_proxy_user = PNone,
      hc_proxy_password = PNone,
      hc_proxy_pkey = PNone,
      hc_keepalive_seconds = PNone,
      hc_ipv6_only = PNone,
      hc_cert_file = PNone,
      hc_auth_thread_pool = PBool True,
      hc_gssapi_auth = PBool False,
      hc_gssapi_server_identity = PNone,
      hc_gssapi_client_identity = PNone,
      hc_gssapi_delegate_credentials = PBool False,
      hc_forward_ssh_agent = PBool False,
      hc_compress = PBool False,
      hc_keyboard_interactive = PBool False\<rparr>"

section \<open>The checks\<close>

datatype config_error = ConfigValueError "pyval list" | ConfigInvalidAPIUse string

text \<open>
  \<open>ValueError(template % (value,))\<close> and \<open>ValueError(template, value)\<close>: the code raises the
  first form for most fields and the second for the last ones.
\<close>

definition formatted_error :: "string \<Rightarrow> pyval \<Rightarrow> config_error" where
  "formatted_error fmt v =
     ConfigValueError (case py_format fmt (PTuple [v]) of Inr s \<Rightarrow> [PStr s] | Inl _ \<Rightarrow> [])"

definition plain_error :: "string \<Rightarrow> pyval \<Rightarrow> config_error" where
  "plain_error fmt v = ConfigValueError [PStr fmt, v]"

definition fails :: "(pyval \<Rightarrow> bool) list \<Rightarrow> pyval \<Rightarrow> bool" where
  "fails types v \<longleftrightarrow> v \<noteq> PNone \<and> \<not> (\<exists>t \<in> set types. t v)"

text \<open>\<open>_sanity_checks\<close>: the first check that fails raises.\<close>

definition sanity_checks :: "host_config \<Rightarrow> config_error + unit" where
  "sanity_checks c =
     (if fails [is_str] (hc_user c) then Inl (formatted_error ''Username %s is not a string'' (hc_user c)) else
     (if fails [is_int] (hc_port c) then Inl (formatted_error ''Port %s is not an integer'' (hc_port c)) else
     (if fails [is_str] (hc_password c) then Inl (formatted_error ''Password %s is not a string'' (hc_password c)) else
     (if fails [is_str] (hc_alias c) then Inl (formatted_error ''Alias %s is not a string'' (hc_alias c)) else
     (if fails [is_str, is_bytes] (hc_private_key c) then Inl (formatted_error ''Private key %s is not a string or bytes'' (hc_private_key c)) else
     (if fails [is_bool] (hc_allow_agent c) then Inl (formatted_error ''Allow agent %s is not a boolean'' (hc_allow_agent c)) else
     (if fails [is_int] (hc_num_retries c) then Inl (formatted_error ''Num retries %s is not an integer'' (hc_num_retries c)) else
     (if fails [is_int, is_float] (hc_timeout c) then Inl (formatted_error ''Timeout %s is not an integer'' (hc_timeout c)) else
     (if fails [is_int, is_float] (hc_retry_delay c) then Inl (formatted_error ''Retry delay %s is not a number'' (hc_retry_delay c)) else
     (if fails [is_bool] (hc_identity_auth c) then Inl (formatted_error ''Identity auth %s is not a boolean'' (hc_identity_auth c)) else
     (if fails [is_str] (hc_proxy_host c) then Inl (formatted_error ''Proxy host %s is not a string'' (hc_proxy_host c)) else
     (if fails [is_int] (hc_proxy_port c) then Inl (formatted_error ''Proxy port %s is not an integer'' (hc_proxy_port c)) else
     (if fails [is_str] (hc_proxy_user c) then Inl (formatted_error ''Proxy user %s is not a string'' (hc_proxy_user c)) else
     (if fails [is_str] (hc_proxy_password c) then Inl (formatted_error ''Proxy password %s is not a string'' (hc_proxy_password c)) else
     (if fails [is_str, is_bytes] (hc_proxy_pkey c) then Inl (formatted_error ''Proxy pkey %s is not a string or bytes'' (hc_proxy_pkey c)) else
     (if fails [is_int] (hc_keepalive_seconds c) then Inl (formatted_error ''Keepalive seconds %s is not an integer'' (hc_keepalive_seconds c)) else
     (if fails [is_bool] (hc_ipv6_only c) then Inl (formatted_error ''IPv6 only %s is not a boolean value'' (hc_ipv6_only c)) else
     (if fails [is_str, is_bytes] (hc_cert_file c) then Inl (plain_error ''Cert file %s is not a string or bytes'' (hc_cert_file c)) else
     (if fails [is_bool] (hc_forward_ssh_agent c) then Inl (plain_error ''Forward SSH agent %s is not a bool'' (hc_forward_ssh_agent c)) else
     (if fails [is_bool] (hc_gssapi_auth c) then Inl (plain_error ''GSSAPI auth %s is not a bool'' (hc_gssapi_auth c)) else
     (if fails [is_str] (hc_gssapi_server_identity c) then Inl (plain_error ''GSSAPI server identity %s is not a string'' (hc_gssapi_server_identity c)) else
     (if fails [is_str] (hc_gssapi_client_identity c) then Inl (plain_error ''GSSAPI client identity %s is not a string'' (hc_gssapi_client_identity c)) else
     (if fails [is_bool] (hc_gssapi_delegate_credentials c) then Inl (plain_error ''GSSAPI delegate credentials %s is not a bool'' (hc_gssapi_delegate_credentials c)) else
     (if fails [is_bool] (hc_compress c) then Inl (plain_error ''Compress %s is not a bool'' (hc_compress c)) else
     (if fails [is_bool] (hc_keyboard_interactive c) then Inl (plain_error ''keyboard_interactive %s is not a bool'' (hc_keyboard_interactive c)) else
      Inr ())))))))))))))))))))))))))"

definition config_api_msg :: string where
  "config_api_msg = ''Keyboard interactive authentication is enabled but no password is provided''"

text \<open>\<open>HostConfig(...)\<close>: the arguments, and the object or what the constructor raises.\<close>

definition make_host_config :: "host_config \<Rightarrow> config_error + host_config" where
  "make_host_config c =
     (if truthy (hc_keyboard_interactive c) \<and> \<not> truthy (hc_password c)
      then Inl (ConfigInvalidAPIUse config_api_msg)
      else (case sanity_checks c of Inl e \<Rightarrow> Inl e | Inr () \<Rightarrow> Inr c))"

section \<open>What the checks ask for\<close>

text \<open>The same requirements as a table: a field and the types it may have.\<close>

definition field_types :: "((host_config \<Rightarrow> pyval) \<times> (pyval \<Rightarrow> bool) list) list" where
  "field_types =
     [(hc_user, [is_str]),
      (hc_port, [is_int]),
      (hc_password, [is_str]),
      (hc_alias, [is_str]),
      (hc_private_key, [is_str, is_bytes]),
      (hc_allow_agent, [is_bool]),
      (hc_num_retries, [is_int]),
      (hc_timeout, [is_int, is_float]),
      (hc_retry_delay, [is_int, is_float]),
      (hc_identity_auth, [is_bool]),
      (hc_proxy_host, [is_str]),
      (hc_proxy_port, [is_int]),
      (hc_proxy_user, [is_str]),
      (hc_proxy_password, [is_str]),
      (hc_proxy_pkey, [is_str, is_bytes]),
      (hc_keepalive_seconds, [is_int]),
      (hc_ipv6_only, [is_bool]),
      (hc_cert_file, [is_str, is_bytes]),
      (hc_forward_ssh_agent, [is_bool]),
      (hc_gssapi_auth, [is_bool]),
      (hc_gssapi_server_identity, [is_str]),
      (hc_gssapi_client_identity, [is_str]),
      (hc_gssapi_delegate_credentials, [is_bool]),
      (hc_compress, [is_bool]),
      (hc_keyboard_interactive, [is_bool])]"

definition well_typed :: "host_config \<Rightarrow> bool" where
  "well_typed c \<longleftrightarrow> (\<forall>(field, types) \<in> set field_types. \<not> fails types (field c))"

lemma sanity_checks_ok: "sanity_checks c = Inr () \<longleftrightarrow> well_typed c"
  unfolding sanity_checks_def well_typed_def field_types_def by simp

lemma make_host_config_ok:
  "make_host_config c = Inr d \<longleftrightarrow>
    d = c \<and> well_typed c \<and> (truthy (hc_keyboard_interactive c) \<longrightarrow> truthy (hc_password c))"
  unfolding make_host_config_def
  by (auto simp: sanity_checks_ok[symmetric] split: sum.split unit.split)

lemma formatted_error_message:
  assumes "CHR ''%'' \<notin> set p" "CHR ''%'' \<notin> set q"
  shows "formatted_error (p @ ''%s'' @ q) v = ConfigValueError [PStr (p @ py_str v @ q)]"
proof -
  have "py_format (template [p, q]) (PTuple [v]) = Inr (p @ py_str v @ q)"
    using assms by (subst py_format_template) auto
  then show ?thesis by (simp add: formatted_error_def)
qed

section \<open>Properties\<close>



text \<open>
  The first checks put the offending value into the text of the error; the checks from
  \<open>cert_file\<close> on pass the template and the value as two arguments instead, and the template is
  never filled in.
\<close>
theorem cert_file_error_is_not_formatted:
  "make_host_config (default_config\<lparr>hc_user := PInt 5\<rparr>) =
     Inl (ConfigValueError [PStr ''Username 5 is not a string'']) \<and>
   make_host_config (default_config\<lparr>hc_cert_file := PInt 5\<rparr>) =
     Inl (ConfigValueError [PStr ''Cert file %s is not a string or bytes'', PInt 5])"
proof -
  have "formatted_error (''Username '' @ ''%s'' @ '' is not a string'') (PInt 5) =
      ConfigValueError [PStr (''Username '' @ py_str (PInt 5) @ '' is not a string'')]"
    by (rule formatted_error_message) simp_all
  moreover have "py_str (PInt 5) = ''5''" by code_simp
  ultimately have "formatted_error ''Username %s is not a string'' (PInt 5) =
      ConfigValueError [PStr ''Username 5 is not a string'']"
    by simp
  then show ?thesis
    by (simp add: make_host_config_def sanity_checks_def fails_def default_config_def plain_error_def)
qed

end
