(* ===== verification/Connection.thy ===== *)
theory Connection
  imports Prelude
begin

text \<open>
  Establishing a connection: \<open>_get_addr_info\<close>, \<open>_connect\<close>, \<open>_connect_socket\<close> and
  \<open>_connect_init_session_retry\<close> of \<open>pssh/clients/base/single.py\<close>, and the two \<open>_init_session\<close>
  of \<open>pssh/clients/native/single.py\<close> and \<open>pssh/clients/ssh/single.py\<close>.

  The network is a parameter: what the resolver, a new socket, a connect, a handshake and a
  shutdown do is a function of the history of what the client has done so far, so that any
  sequence of outcomes is possible.  The state is that history, and the attributes
  \<open>self.sock\<close> and \<open>self.session\<close>.
\<close>

section \<open>Data\<close>

datatype family = AF_INET | AF_INET6 | AF_OTHER int

record addr =
  addr_family :: family
  addr_type :: int
  sockaddr :: string

datatype net_event =
    Resolve string int
  | OpenSocket family int
  | SetTimeout
  | Dial string
  | Sleep
  | Disconnect
  | Shutdown
  | Detach
  | NewSession
  | SetOption string
  | SetSocket
  | Handshake

datatype resolve_result = Resolved "addr list" | GaiError string | ResolveError string
datatype dial_result = Connected | RefusedConn | OSErr string | DialError string
datatype handshake_result = Shaken | HandshakeTimeout string | HandshakeError string

record net =
  resolver :: "net_event list \<Rightarrow> resolve_result"
  opener :: "net_event list \<Rightarrow> string option"
  dialer :: "net_event list \<Rightarrow> dial_result"
  shaker :: "net_event list \<Rightarrow> handshake_result"
  closed_at :: "net_event list \<Rightarrow> bool"
  shutdown_raises :: "net_event list \<Rightarrow> bool"
  option_raises :: "net_event list \<Rightarrow> string option"

record conn_params =
  num_retries :: int
  ipv6_only :: bool
  timeout_set :: bool
  compress_set :: bool
  gss_server_set :: bool
  gss_client_set :: bool
  client_host :: string
  client_port :: int

text \<open>Sockets are numbered in the order they are opened.\<close>

record conn =
  history :: "net_event list"
  sock :: "nat option"
  session :: bool

datatype conn_error =
    EGai string
  | ENoIPv6 string "string list"
  | EUnknownHost string string int int
  | ERefused "(string \<times> int) list"
  | EConnection string int string int int
  | ESSH2Timeout string int string
  | EOtherException string
  | EAttributeError

definition emit :: "net_event \<Rightarrow> conn \<Rightarrow> conn" where
  "emit ev s = s\<lparr>history := history s @ [ev]\<rparr>"

lemma emit_fields [simp]:
  "history (emit ev s) = history s @ [ev]" "sock (emit ev s) = sock s" "session (emit ev s) = session s"
  by (simp_all add: emit_def)

section \<open>Resolving and connecting\<close>

definition get_addr_info :: "conn_params \<Rightarrow> net \<Rightarrow> string \<Rightarrow> int \<Rightarrow> conn \<Rightarrow> (conn_error + addr list) \<times> conn" where
  "get_addr_info P E host port s =
     (let s1 = emit (Resolve host port) s in
      case resolver E (history s1) of
        GaiError m \<Rightarrow> (Inl (EGai m), s1)
      | ResolveError m \<Rightarrow> (Inl (EOtherException m), s1)
      | Resolved addr_info \<Rightarrow>
          if ipv6_only P
          then let filtered = filter (\<lambda>a. addr_family a = AF_INET6) addr_info in
               if filtered = [] then (Inl (ENoIPv6 host (map sockaddr addr_info)), s1)
               else (Inr filtered, s1)
          else (Inr addr_info, s1))"

text \<open>Making the socket: \<open>self.sock\<close> is set only when the constructor returns.\<close>

definition open_socket :: "conn_params \<Rightarrow> net \<Rightarrow> addr \<Rightarrow> conn \<Rightarrow> (conn_error + unit) \<times> conn" where
  "open_socket P E a s =
     (let s1 = emit (OpenSocket (addr_family a) (addr_type a)) s in
      case opener E (history s1) of
        Some m \<Rightarrow> (Inl (EOtherException m), s1)
      | None \<Rightarrow>
          let s2 = s1\<lparr>sock := Some (length (history s))\<rparr> in
          (Inr (), if timeout_set P then emit SetTimeout s2 else s2))"

text \<open>
  \<open>_connect\<close>, the loop over the addresses, and \<open>_connect_socket\<close>.  The loop goes on to the next
  address only after a refused connection, and the last refusal is raised again with the host and
  the port added to its arguments.
\<close>

function (sequential) connect ::
    "conn_params \<Rightarrow> net \<Rightarrow> string \<Rightarrow> int \<Rightarrow> int \<Rightarrow> conn \<Rightarrow> (conn_error + unit) \<times> conn"
  and connect_addrs ::
    "conn_params \<Rightarrow> net \<Rightarrow> string \<Rightarrow> int \<Rightarrow> int \<Rightarrow> addr list \<Rightarrow> conn \<Rightarrow> (conn_error + unit) \<times> conn"
  and connect_socket ::
    "conn_params \<Rightarrow> net \<Rightarrow> addr \<Rightarrow> string \<Rightarrow> int \<Rightarrow> int \<Rightarrow> conn \<Rightarrow> (conn_error + unit) \<times> conn"
where
  "connect P E host port retries s =
     (case get_addr_info P E host port s of
        (Inl (EGai m), s1) \<Rightarrow>
          (if retries < num_retries P
           then connect P E host port (retries + 1) (emit Sleep s1)
           else (Inl (EUnknownHost host m retries (num_retries P)), s1))
      | (Inl e, s1) \<Rightarrow> (Inl e, s1)
      | (Inr addr_info, s1) \<Rightarrow> connect_addrs P E host port retries addr_info s1)"
| "connect_addrs P E host port retries [] s = (Inr (), s)"
| "connect_addrs P E host port retries (a # rest) s =
     (case connect_socket P E a host port retries s of
        (Inl (ERefused args), s1) \<Rightarrow>
          (if rest = [] then (Inl (ERefused (args @ [(host, port)])), s1)
           else connect_addrs P E host port retries rest s1)
      | (Inl e, s1) \<Rightarrow> (Inl e, s1)
      | (Inr _, s1) \<Rightarrow> (Inr (), s1))"
| "connect_socket P E a host port retries s =
     (case open_socket P E a s of
        (Inl e, s1) \<Rightarrow> (Inl e, s1)
      | (Inr _, s1) \<Rightarrow>
          (let s2 = emit (Dial (sockaddr a)) s1 in
           case dialer E (history s2) of
             Connected \<Rightarrow> (Inr (), s2)
           | RefusedConn \<Rightarrow> (Inl (ERefused []), s2)
           | DialError m \<Rightarrow> (Inl (EOtherException m), s2)
           | OSErr m \<Rightarrow>
               (if retries < num_retries P
                then connect P E host port (retries + 1) (emit Sleep s2)
                else (Inl (EConnection host port m retries (num_retries P)), s2))))"
  by pat_completeness auto
termination
  by (relation "measures
        [\<lambda>x. case x of
           Inl (P, E, host, port, retries, s) \<Rightarrow> nat (num_retries P - retries)
         | Inr (Inl (P, E, host, port, retries, as, s)) \<Rightarrow> nat (num_retries P - retries)
         | Inr (Inr (P, E, a, host, port, retries, s)) \<Rightarrow> nat (num_retries P - retries),
         \<lambda>x. case x of Inl _ \<Rightarrow> 2 | Inr (Inl _) \<Rightarrow> 1 | Inr (Inr _) \<Rightarrow> 0,
         \<lambda>x. case x of Inr (Inl (P, E, host, port, retries, as, s)) \<Rightarrow> length as | _ \<Rightarrow> 0]") auto

declare connect.simps [simp del] connect_addrs.simps [simp del] connect_socket.simps [simp del]

lemmas connect_unfold = connect.simps connect_addrs.simps connect_socket.simps
lemmas connect_induct = connect_connect_addrs_connect_socket.induct


section \<open>What the steps of a connection leave in the history\<close>

text \<open>The number of events of a kind.\<close>

fun is_dial :: "net_event \<Rightarrow> bool" where
  "is_dial (Dial _) = True" | "is_dial _ = False"

fun is_resolve :: "net_event \<Rightarrow> bool" where
  "is_resolve (Resolve _ _) = True" | "is_resolve _ = False"

definition count :: "(net_event \<Rightarrow> bool) \<Rightarrow> conn \<Rightarrow> nat" where
  "count q s = length (filter q (history s))"

lemma count_emit [simp]: "count q (emit ev s) = count q s + (if q ev then 1 else 0)"
  by (simp add: count_def)

lemma count_sock [simp]: "count q (s\<lparr>sock := x\<rparr>) = count q s"
  "count q (s\<lparr>session := y\<rparr>) = count q s"
  by (simp_all add: count_def)

lemma get_addr_info_cases:
  obtains (gai) m where "get_addr_info P E host port s = (Inl (EGai m), emit (Resolve host port) s)"
    | (other) e where "get_addr_info P E host port s = (Inl e, emit (Resolve host port) s)"
        "\<And>m. e \<noteq> EGai m" "\<And>xs. e \<noteq> ERefused xs"
    | (found) as bs where "get_addr_info P E host port s = (Inr as, emit (Resolve host port) s)"
        "\<And>a. a \<in> set as \<Longrightarrow> ipv6_only P \<Longrightarrow> addr_family a = AF_INET6"
        "resolver E (history (emit (Resolve host port) s)) = Resolved bs" "length as \<le> length bs"
proof (cases "resolver E (history (emit (Resolve host port) s))")
  case (Resolved bs)
  let ?f = "filter (\<lambda>a. addr_family a = AF_INET6) bs"
  show thesis
  proof (cases "ipv6_only P")
    case True
    with Resolved show thesis
      by (cases "?f = []") (auto simp: get_addr_info_def Let_def intro: other found[of ?f bs])
  next
    case False
    with Resolved show thesis by (auto simp: get_addr_info_def intro: found[of bs bs])
  qed
next
  case (GaiError m)
  then show thesis by (intro gai[of m]) (simp add: get_addr_info_def)
next
  case (ResolveError m)
  then show thesis by (intro other[of "EOtherException m"]) (simp_all add: get_addr_info_def)
qed

definition opened :: "conn_params \<Rightarrow> addr \<Rightarrow> conn \<Rightarrow> conn" where
  "opened P a s = (if timeout_set P then emit SetTimeout else id)
     ((emit (OpenSocket (addr_family a) (addr_type a)) s)\<lparr>sock := Some (length (history s))\<rparr>)"

lemma history_opened:
  "history (opened P a s) = history s @ OpenSocket (addr_family a) (addr_type a) #
     (if timeout_set P then [SetTimeout] else [])"
  by (simp add: opened_def)

lemma count_opened [simp]:
  "\<not> q SetTimeout \<Longrightarrow>
     count q (opened P a s) = count q s + (if q (OpenSocket (addr_family a) (addr_type a)) then 1 else 0)"
  by (simp add: count_def history_opened)

lemma open_socket_cases:
  obtains (raised) m where
      "open_socket P E a s = (Inl (EOtherException m), emit (OpenSocket (addr_family a) (addr_type a)) s)"
    | (made) "open_socket P E a s = (Inr (), opened P a s)"
      "opener E (history s @ [OpenSocket (addr_family a) (addr_type a)]) = None"
proof (cases "opener E (history s @ [OpenSocket (addr_family a) (addr_type a)])")
  case None
  then show thesis by (intro made) (simp_all add: open_socket_def opened_def Let_def)
next
  case (Some m)
  then show thesis by (intro raised[of m]) (simp add: open_socket_def)
qed

text \<open>The branches of the three functions.\<close>

lemma connect_gai:
  "get_addr_info P E host port s = (Inl (EGai m), s1) \<Longrightarrow>
     connect P E host port retries s =
       (if retries < num_retries P then connect P E host port (retries + 1) (emit Sleep s1)
        else (Inl (EUnknownHost host m retries (num_retries P)), s1))"
  by (simp add: connect.simps[of P E host port retries s])

lemma connect_other:
  "get_addr_info P E host port s = (Inl e, s1) \<Longrightarrow> (\<And>m. e \<noteq> EGai m) \<Longrightarrow>
     connect P E host port retries s = (Inl e, s1)"
  by (cases e) (auto simp: connect.simps[of P E host port retries s])

lemma connect_found:
  "get_addr_info P E host port s = (Inr as, s1) \<Longrightarrow>
     connect P E host port retries s = connect_addrs P E host port retries as s1"
  by (simp add: connect.simps[of P E host port retries s])

lemma connect_addrs_refused:
  "connect_socket P E a host port retries s = (Inl (ERefused args), s1) \<Longrightarrow> rest \<noteq> [] \<Longrightarrow>
     connect_addrs P E host port retries (a # rest) s = connect_addrs P E host port retries rest s1"
  by (simp add: connect_addrs.simps)

lemma connect_addrs_stops:
  "connect_socket P E a host port retries s = (r, s1) \<Longrightarrow>
     \<nexists>args. r = Inl (ERefused args) \<and> rest \<noteq> [] \<Longrightarrow>
     snd (connect_addrs P E host port retries (a # rest) s) = s1"
  by (auto simp: connect_addrs.simps split: sum.splits conn_error.splits)

lemma connect_socket_retry:
  "open_socket P E a s = (Inr (), s1) \<Longrightarrow>
     dialer E (history (emit (Dial (sockaddr a)) s1)) = OSErr m \<Longrightarrow> retries < num_retries P \<Longrightarrow>
     connect_socket P E a host port retries s =
       connect P E host port (retries + 1) (emit Sleep (emit (Dial (sockaddr a)) s1))"
  by (simp add: connect_socket.simps[of P E a host port retries s] Let_def)

lemma connect_socket_stops:
  "open_socket P E a s = (Inr (), s1) \<Longrightarrow>
     \<nexists>m. dialer E (history (emit (Dial (sockaddr a)) s1)) = OSErr m \<and> retries < num_retries P \<Longrightarrow>
     snd (connect_socket P E a host port retries s) = emit (Dial (sockaddr a)) s1"
  by (auto simp: connect_socket.simps Let_def split: dial_result.splits)

text \<open>
  What holds of a connection attempt: \<open>C\<close> of \<open>connect\<close>, \<open>L\<close> of a list of addresses and \<open>D\<close> of one of
  them.  Each law is a step that the three functions take; together they give the contract of all
  three, without a further induction.
\<close>

locale connect_contract =
  fixes P :: conn_params and E :: net and host :: string and port :: int
    and C :: "int \<Rightarrow> conn \<Rightarrow> (conn_error + unit) \<times> conn \<Rightarrow> bool"
    and L :: "int \<Rightarrow> addr list \<Rightarrow> conn \<Rightarrow> (conn_error + unit) \<times> conn \<Rightarrow> bool"
    and D :: "int \<Rightarrow> addr \<Rightarrow> conn \<Rightarrow> (conn_error + unit) \<times> conn \<Rightarrow> bool"
  assumes unresolved: "C retries s (Inl e, emit (Resolve host port) s)"
    and resolved_again: "retries < num_retries P \<Longrightarrow> C (retries + 1) (emit Sleep (emit (Resolve host port) s)) r
        \<Longrightarrow> C retries s r"
    and resolved: "get_addr_info P E host port s = (Inr as, emit (Resolve host port) s) \<Longrightarrow>
        (\<And>a. a \<in> set as \<Longrightarrow> ipv6_only P \<Longrightarrow> addr_family a = AF_INET6) \<Longrightarrow>
        resolver E (history (emit (Resolve host port) s)) = Resolved bs \<Longrightarrow> length as \<le> length bs \<Longrightarrow>
        L retries as (emit (Resolve host port) s) r \<Longrightarrow> C retries s r"
    and no_address: "L retries [] s (Inr (), s)"
    and next_address: "D retries a s (Inl (ERefused args), s1) \<Longrightarrow> rest \<noteq> [] \<Longrightarrow> L retries rest s1 r
        \<Longrightarrow> L retries (a # rest) s r"
    and last_address: "D retries a s (x, s1) \<Longrightarrow> isl y = isl x \<Longrightarrow> L retries (a # rest) s (y, s1)"
    and no_socket: "D retries a s (Inl e, emit (OpenSocket (addr_family a) (addr_type a)) s)"
    and dialled: "(x = Inr () \<Longrightarrow> dialer E (history (emit (Dial (sockaddr a)) (opened P a s))) = Connected) \<Longrightarrow>
        D retries a s (x, emit (Dial (sockaddr a)) (opened P a s))"
    and dialled_again: "retries < num_retries P \<Longrightarrow>
        C (retries + 1) (emit Sleep (emit (Dial (sockaddr a)) (opened P a s))) r \<Longrightarrow> D retries a s r"
begin

lemma socket_contract:
  assumes "\<And>m. dialer E (history (emit (Dial (sockaddr a)) (opened P a s))) = OSErr m \<Longrightarrow> retries < num_retries P \<Longrightarrow>
      open_socket P E a s = (Inr (), opened P a s) \<Longrightarrow>
      C (retries + 1) (emit Sleep (emit (Dial (sockaddr a)) (opened P a s)))
        (connect P E host port (retries + 1) (emit Sleep (emit (Dial (sockaddr a)) (opened P a s))))"
  shows "D retries a s (connect_socket P E a host port retries s)"
proof (cases rule: open_socket_cases[of P E a s])
  case (raised m)
  then show ?thesis by (simp add: connect_socket.simps no_socket)
next
  case o: made
  let ?s2 = "emit (Dial (sockaddr a)) (opened P a s)"
  show ?thesis
  proof (cases "\<exists>m. dialer E (history ?s2) = OSErr m \<and> retries < num_retries P")
    case True
    then obtain m where d: "dialer E (history ?s2) = OSErr m" "retries < num_retries P" by blast
    from assms[OF d o(1)] dialled_again[OF d(2)] show ?thesis by (simp add: connect_socket_retry[OF o(1) d])
  next
    case False
    then obtain x where "connect_socket P E a host port retries s = (x, ?s2)"
      "x = Inr () \<Longrightarrow> dialer E (history ?s2) = Connected"
      using o(1) by (cases "dialer E (history ?s2)")
        (auto simp: connect_socket.simps[of P E a host port retries s] Let_def)
    with dialled[of x a s retries] show ?thesis by simp
  qed
qed

lemma addrs_contract:
  assumes "D retries a s (connect_socket P E a host port retries s)"
    and "\<And>args s1. connect_socket P E a host port retries s = (Inl (ERefused args), s1) \<Longrightarrow> rest \<noteq> [] \<Longrightarrow>
      L retries rest s1 (connect_addrs P E host port retries rest s1)"
  shows "L retries (a # rest) s (connect_addrs P E host port retries (a # rest) s)"
proof -
  obtain r s1 where r: "connect_socket P E a host port retries s = (r, s1)" by force
  with assms(1) have D: "D retries a s (r, s1)" by simp
  show ?thesis
  proof (cases "\<exists>args. r = Inl (ERefused args) \<and> rest \<noteq> []")
    case True
    then obtain args where ref: "r = Inl (ERefused args)" "rest \<noteq> []" by blast
    with assms(2) r next_address D show ?thesis
      by (simp add: connect_addrs_refused[OF r[unfolded ref(1)] ref(2)])
  next
    case False
    then obtain y where "connect_addrs P E host port retries (a # rest) s = (y, s1)" "isl y = isl r"
      using r by (cases r; cases "projl r") (auto simp: connect_addrs.simps)
    with last_address[OF D] show ?thesis by simp
  qed
qed

lemma contract_parts:
  shows "P' = P \<Longrightarrow> E' = E \<Longrightarrow> host' = host \<Longrightarrow> port' = port \<Longrightarrow> C retries s (connect P' E' host' port' retries s)"
    and "P' = P \<Longrightarrow> E' = E \<Longrightarrow> host' = host \<Longrightarrow> port' = port \<Longrightarrow>
           L retries as s (connect_addrs P' E' host' port' retries as s)"
    and "P' = P \<Longrightarrow> E' = E \<Longrightarrow> host' = host \<Longrightarrow> port' = port \<Longrightarrow>
           D retries a s (connect_socket P' E' a host' port' retries s)"
proof (induction P' E' host' port' retries s and P' E' host' port' retries as s and P' E' a host' port' retries s
    rule: connect_induct)
  case (1 P' E' host' port' retries s)
  note eqs = "1.prems"
  show ?case
  proof (cases rule: get_addr_info_cases[of P E host port s])
    case g: (gai m)
    show ?thesis
      using "1.IH"(1)[unfolded eqs, OF g[symmetric] refl] resolved_again unresolved
      by (simp add: eqs connect_gai[OF g])
  next
    case o: (other e)
    then show ?thesis by (simp add: eqs connect_other unresolved)
  next
    case f: (found as bs)
    from "1.IH"(2)[unfolded eqs, OF f(1)[symmetric] refl] show ?thesis
      by (simp add: eqs connect_found[OF f(1)] resolved[OF f(1-4)])
  qed
next
  case (2 P' E' host' port' retries s)
  then show ?case by (simp add: connect_addrs.simps no_address)
next
  case (3 P' E' host' port' retries a rest s)
  note eqs = "3.prems"
  show ?case
    using addrs_contract[of retries a s rest] "3.IH"(1)[OF eqs] "3.IH"(2)[unfolded eqs, OF _ refl refl _ refl refl refl refl]
    by (simp add: eqs)
next
  case (4 P' E' a host' port' retries s)
  note eqs = "4.prems"
  show ?case
    using socket_contract[of a s retries] "4.IH"[unfolded eqs, OF _ refl refl _ _ refl refl refl refl] by (simp add: eqs)
qed

lemmas contract = contract_parts[OF refl refl refl refl]

end

text \<open>The history only grows, by events of a kind.\<close>

definition adds :: "(net_event \<Rightarrow> bool) \<Rightarrow> conn \<Rightarrow> conn \<Rightarrow> bool" where
  "adds q s t \<longleftrightarrow> (\<exists>evs. history t = history s @ evs \<and> list_all q evs)"

lemma adds_same: "history t = history s \<Longrightarrow> adds q s t"
  by (simp add: adds_def)

lemma adds_refl [simp]: "adds q s s"
  by (simp add: adds_def)

lemma adds_trans [trans]: "adds q s t \<Longrightarrow> adds q t u \<Longrightarrow> adds q s u"
  by (auto simp: adds_def)

lemma adds_emit: "q ev \<Longrightarrow> adds q s t \<Longrightarrow> adds q s (emit ev t)"
  by (auto simp: adds_def)

lemma adds_attrs [simp]:
  "adds q s (t\<lparr>sock := x\<rparr>) \<longleftrightarrow> adds q s t" "adds q s (t\<lparr>session := y\<rparr>) \<longleftrightarrow> adds q s t"
  by (simp_all add: adds_def)

lemma adds_mono: "adds q s t \<Longrightarrow> (\<And>ev. q ev \<Longrightarrow> q' ev) \<Longrightarrow> adds q' s t"
  by (auto simp: adds_def list_all_iff)

lemma adds_count: "adds q s t \<Longrightarrow> (\<And>ev. q ev \<Longrightarrow> \<not> p ev) \<Longrightarrow> count p t = count p s"
  by (auto simp: adds_def count_def list_all_iff filter_empty_conv)

lemma adds_list_all: "adds q s t \<Longrightarrow> list_all q (history s) \<Longrightarrow> list_all q (history t)"
  by (auto simp: adds_def)

text \<open>The events of a connection: the sockets are of the admissible families.\<close>

fun conn_event :: "conn_params \<Rightarrow> string \<Rightarrow> int \<Rightarrow> net_event \<Rightarrow> bool" where
  "conn_event P host port (Resolve h p) = (h = host \<and> p = port)"
| "conn_event P host port (OpenSocket f _) = (ipv6_only P \<longrightarrow> f = AF_INET6)"
| "conn_event P host port SetTimeout = True"
| "conn_event P host port (Dial _) = True"
| "conn_event P host port Sleep = True"
| "conn_event P host port _ = False"

lemma adds_opened:
  "(ipv6_only P \<Longrightarrow> addr_family a = AF_INET6) \<Longrightarrow> adds (conn_event P host port) s (opened P a s)"
  by (auto simp: adds_def history_opened)

interpretation attempt_events: connect_contract P E host port
    "\<lambda>retries s r. adds (conn_event P host port) s (snd r)"
    "\<lambda>retries as s r. (\<forall>a\<in>set as. ipv6_only P \<longrightarrow> addr_family a = AF_INET6) \<longrightarrow> adds (conn_event P host port) s (snd r)"
    "\<lambda>retries a s r. (ipv6_only P \<longrightarrow> addr_family a = AF_INET6) \<longrightarrow> adds (conn_event P host port) s (snd r)"
  for P E host port
proof
  fix retries s and a :: addr and r :: "(conn_error + unit) \<times> conn"
  assume r: "adds (conn_event P host port) (emit Sleep (emit (Dial (sockaddr a)) (opened P a s))) (snd r)"
  show "(ipv6_only P \<longrightarrow> addr_family a = AF_INET6) \<longrightarrow> adds (conn_event P host port) s (snd r)"
  proof
    assume "ipv6_only P \<longrightarrow> addr_family a = AF_INET6"
    then have "adds (conn_event P host port) s (emit Sleep (emit (Dial (sockaddr a)) (opened P a s)))"
      by (simp add: adds_emit adds_opened)
    with r show "adds (conn_event P host port) s (snd r)" by (rule adds_trans[rotated])
  qed
qed (auto simp: adds_emit adds_opened intro: adds_trans[rotated])

lemma connect_events: "adds (conn_event P host port) s (snd (connect P E host port retries s))"
  by (rule attempt_events.contract)

section \<open>The number of attempts\<close>

text \<open>
  A retry starts again with all addresses, and a refused retry goes on with the rest of the
  addresses of the attempt it was made from.  With at most \<open>k\<close> addresses per resolution and \<open>m\<close>
  retries left, at most this many sockets are dialled.
\<close>

fun dial_bound :: "nat \<Rightarrow> nat \<Rightarrow> nat" where
  "dial_bound k 0 = k"
| "dial_bound k (Suc m) = k * (1 + dial_bound k m)"

definition retries_left :: "conn_params \<Rightarrow> int \<Rightarrow> nat" where
  "retries_left P retries = nat (num_retries P - retries)"

definition socket_bound :: "nat \<Rightarrow> nat \<Rightarrow> nat" where
  "socket_bound k m = 1 + (case m of 0 \<Rightarrow> 0 | Suc m' \<Rightarrow> dial_bound k m')"

lemma dial_bound_socket: "dial_bound k m = k * socket_bound k m"
  by (cases m) (simp_all add: socket_bound_def)

lemma dial_bound_Suc: "dial_bound k m \<le> dial_bound k (Suc m)"
  by (cases k; cases m) auto

lemma dial_bound_1 [simp]: "dial_bound (Suc 0) m = Suc m"
  by (induction m) auto

lemma retries_left_step:
  "retries < num_retries P \<Longrightarrow> retries_left P retries = Suc (retries_left P (retries + 1))"
  by (auto simp: retries_left_def)

definition at_most_addrs :: "nat \<Rightarrow> net \<Rightarrow> bool" where
  "at_most_addrs k E \<longleftrightarrow> (\<forall>h as. resolver E h = Resolved as \<longrightarrow> length as \<le> k)"

interpretation attempt_dials: connect_contract P E host port
    "\<lambda>retries s r. at_most_addrs k E \<longrightarrow> count is_dial (snd r) \<le> count is_dial s + dial_bound k (retries_left P retries)"
    "\<lambda>retries as s r. at_most_addrs k E \<longrightarrow>
       count is_dial (snd r) \<le> count is_dial s + length as * socket_bound k (retries_left P retries)"
    "\<lambda>retries a s r. at_most_addrs k E \<longrightarrow>
       count is_dial (snd r) \<le> count is_dial s + socket_bound k (retries_left P retries)"
  for P E host port k
proof
  fix retries s and r :: "(conn_error + unit) \<times> conn"
  assume "retries < num_retries P"
    "at_most_addrs k E \<longrightarrow> count is_dial (snd r) \<le>
       count is_dial (emit Sleep (emit (Resolve host port) s)) + dial_bound k (retries_left P (retries + 1))"
  with dial_bound_Suc[of k "retries_left P (retries + 1)"]
  show "at_most_addrs k E \<longrightarrow> count is_dial (snd r) \<le> count is_dial s + dial_bound k (retries_left P retries)"
    by (auto simp: retries_left_step)
next
  fix retries s and as bs :: "addr list" and r :: "(conn_error + unit) \<times> conn"
  assume found: "resolver E (history (emit (Resolve host port) s)) = Resolved bs" "length as \<le> length bs"
    "at_most_addrs k E \<longrightarrow> count is_dial (snd r) \<le>
       count is_dial (emit (Resolve host port) s) + length as * socket_bound k (retries_left P retries)"
  show "at_most_addrs k E \<longrightarrow> count is_dial (snd r) \<le> count is_dial s + dial_bound k (retries_left P retries)"
  proof
    assume k: "at_most_addrs k E"
    with found have "length as \<le> k" unfolding at_most_addrs_def using le_trans by blast
    then have "length as * socket_bound k m \<le> dial_bound k m" for m by (simp add: dial_bound_socket)
    from this[of "retries_left P retries"] found(3) k
    show "count is_dial (snd r) \<le> count is_dial s + dial_bound k (retries_left P retries)" by simp
  qed
qed (auto simp: retries_left_step socket_bound_def)

lemmas connect_dials = attempt_dials.contract(1)[rule_format]

section \<open>Exact behaviour on a failing network\<close>

text \<open>What one address leaves in the history, and an attempt repeated after delays.\<close>

definition socket_events :: "conn_params \<Rightarrow> addr \<Rightarrow> net_event list" where
  "socket_events P a = OpenSocket (addr_family a) (addr_type a) #
     (if timeout_set P then [SetTimeout] else []) @ [Dial (sockaddr a)]"

fun attempts :: "nat \<Rightarrow> net_event list \<Rightarrow> net_event list" where
  "attempts 0 evs = evs"
| "attempts (Suc m) evs = evs @ Sleep # attempts m evs"

lemma attempts_filter:
  "\<not> q Sleep \<Longrightarrow> length (filter q (attempts m evs)) = Suc m * length (filter q evs)"
  by (induction m) auto

lemma attempts_sleeps:
  "Sleep \<notin> set evs \<Longrightarrow> count_list (attempts m evs) Sleep = m"
  by (induction m) auto

text \<open>Sockets can be made.\<close>

definition sockets_open :: "net \<Rightarrow> bool" where
  "sockets_open E \<longleftrightarrow> (\<forall>h. opener E h = None)"

lemma open_socket_ok: "sockets_open E \<Longrightarrow> open_socket P E a s = (Inr (), opened P a s)"
  by (cases rule: open_socket_cases[of P E a s])
     (auto simp: sockets_open_def open_socket_def opened_def Let_def)

lemma history_dialled: "history (emit (Dial (sockaddr a)) (opened P a s)) = history s @ socket_events P a"
  by (simp add: history_opened socket_events_def)

lemma connect_socket_refused:
  assumes "sockets_open E" "dialer E (history s @ socket_events P a) = RefusedConn"
  shows "connect_socket P E a host port retries s =
           (Inl (ERefused []), emit (Dial (sockaddr a)) (opened P a s))"
  using assms
  by (simp add: connect_socket.simps[of P E a host port retries s] open_socket_ok Let_def history_opened socket_events_def)

lemma connect_socket_connected:
  assumes "sockets_open E" "dialer E (history s @ socket_events P a) = Connected"
  shows "connect_socket P E a host port retries s =
           (Inr (), emit (Dial (sockaddr a)) (opened P a s))"
  using assms
  by (simp add: connect_socket.simps[of P E a host port retries s] open_socket_ok Let_def history_opened socket_events_def)

lemma connect_addrs_all_refused:
  assumes "sockets_open E" "\<And>h. dialer E h = RefusedConn" "as \<noteq> []"
  shows "fst (connect_addrs P E host port retries as s) = Inl (ERefused [(host, port)])"
    and "history (snd (connect_addrs P E host port retries as s)) =
           history s @ concat (map (socket_events P) as)"
proof -
  have "fst (connect_addrs P E host port retries as s) = Inl (ERefused [(host, port)]) \<and>
     history (snd (connect_addrs P E host port retries as s)) = history s @ concat (map (socket_events P) as)"
    using \<open>as \<noteq> []\<close>
  proof (induction as arbitrary: s rule: list_nonempty_induct)
    case (single a)
    then show ?case
      using connect_socket_refused[OF assms(1,2)]
      by (simp add: connect_addrs.simps history_opened socket_events_def)
  next
    case (cons a as)
    then show ?case
      using connect_socket_refused[OF assms(1,2)]
      by (simp add: connect_addrs_refused history_opened socket_events_def)
  qed
  then show "fst (connect_addrs P E host port retries as s) = Inl (ERefused [(host, port)])"
    "history (snd (connect_addrs P E host port retries as s)) = history s @ concat (map (socket_events P) as)"
    by simp_all
qed

lemma connect_gai_forever:
  assumes "\<And>h. resolver E h = GaiError m"
  shows "fst (connect P E host port retries s) =
           Inl (EUnknownHost host m (max retries (num_retries P)) (num_retries P)) \<and>
         history (snd (connect P E host port retries s)) =
           history s @ attempts (retries_left P retries) [Resolve host port]"
proof (induction "retries_left P retries" arbitrary: retries s)
  case 0
  then have "\<not> retries < num_retries P" by (auto simp: retries_left_def)
  with 0 show ?case
    by (simp add: connect.simps[of P E host port retries s] get_addr_info_def assms max_def)
next
  case (Suc n)
  then have lt: "retries < num_retries P" by (auto simp: retries_left_def)
  with Suc(2) have "n = retries_left P (retries + 1)" by (simp add: retries_left_step)
  from Suc(1)[OF this, of "emit Sleep (emit (Resolve host port) s)"] lt show ?case
    by (simp add: connect.simps[of P E host port retries s] get_addr_info_def assms retries_left_step max_def)
qed

lemma connect_oserr_forever:
  assumes "sockets_open E" "\<And>h. dialer E h = OSErr m" "\<And>h. resolver E h = Resolved [a]"
    "ipv6_only P \<Longrightarrow> addr_family a = AF_INET6"
  shows "fst (connect P E host port retries s) =
           Inl (EConnection host port m (max retries (num_retries P)) (num_retries P)) \<and>
         history (snd (connect P E host port retries s)) =
           history s @ attempts (retries_left P retries) (Resolve host port # socket_events P a)"
proof (induction "retries_left P retries" arbitrary: retries s)
  case 0
  then have "\<not> retries < num_retries P" by (auto simp: retries_left_def)
  with 0 assms show ?case
    by (simp add: connect_found[of P E host port s "[a]"] get_addr_info_def connect_addrs.simps connect_socket.simps
        open_socket_ok Let_def history_opened socket_events_def max_def)
next
  case (Suc n)
  then have lt: "retries < num_retries P" by (auto simp: retries_left_def)
  let ?s1 = "emit (Resolve host port) s"
  let ?s2 = "emit Sleep (emit (Dial (sockaddr a)) (opened P a ?s1))"
  have g: "get_addr_info P E host port s = (Inr [a], ?s1)"
    using assms(3,4) by (cases "ipv6_only P") (simp_all add: get_addr_info_def Let_def)
  have c: "connect_socket P E a host port retries ?s1 = connect P E host port (retries + 1) ?s2"
    by (rule connect_socket_retry[OF open_socket_ok[OF assms(1)] assms(2) lt])
  from lt Suc(2) have "n = retries_left P (retries + 1)" by (simp add: retries_left_step)
  from Suc(1)[OF this, of ?s2] lt show ?case
    by (cases "connect P E host port (retries + 1) ?s2")
       (simp add: connect_found[OF g] connect_addrs.simps c retries_left_step max_def history_opened socket_events_def)
qed

section \<open>Starting the session\<close>

text \<open>
  \<open>self.sock\<close> is shut down and detached, any error ignored; on a client without a socket the
  test of \<open>self.sock.closed\<close> raises.
\<close>

definition shut_socket :: "net \<Rightarrow> conn \<Rightarrow> (conn_error + unit) \<times> conn" where
  "shut_socket E s =
     (if sock s = None then (Inl EAttributeError, s)
      else if closed_at E (history s) then (Inr (), s)
      else let s1 = emit Shutdown s in
           (Inr (), if shutdown_raises E (history s1) then s1 else emit Detach s1))"

definition disconnect_eagain :: "net \<Rightarrow> conn \<Rightarrow> conn" where
  "disconnect_eagain E s =
     (if session s \<and> sock s \<noteq> None \<and> \<not> closed_at E (history s) then emit Disconnect s else s)"

definition reconnect :: "conn_params \<Rightarrow> net \<Rightarrow> string \<Rightarrow> int \<Rightarrow> int \<Rightarrow> conn \<Rightarrow> (conn_error + unit) \<times> conn" where
  "reconnect P E host port retries s =
     (case shut_socket E ((disconnect_eagain E s)\<lparr>session := False\<rparr>) of
        (Inl e, s1) \<Rightarrow> (Inl e, s1)
      | (Inr _, s1) \<Rightarrow> connect P E host port retries (emit Sleep (s1\<lparr>sock := None\<rparr>)))"

text \<open>Options set on a new session, before the handshake is tried.\<close>

fun set_options :: "net \<Rightarrow> string list \<Rightarrow> conn \<Rightarrow> (conn_error + unit) \<times> conn" where
  "set_options E [] s = (Inr (), s)"
| "set_options E (opt # opts) s =
     (let s1 = emit (SetOption opt) s in
      case option_raises E (history s1) of
        Some m \<Rightarrow> (Inl (EOtherException m), s1)
      | None \<Rightarrow> set_options E opts s1)"

definition native_options :: "conn_params \<Rightarrow> string list" where
  "native_options P = (if compress_set P then [''FLAG_COMPRESS''] else []) @
     (if timeout_set P then [''timeout''] else [])"

definition ssh_options :: "conn_params \<Rightarrow> string list" where
  "ssh_options P = [''USER'', ''HOST''] @
     (if compress_set P then [''COMPRESSION''] else []) @ [''PORT''] @
     (if gss_server_set P then [''GSSAPI_SERVER_IDENTITY''] else []) @
     (if gss_client_set P then [''GSSAPI_CLIENT_IDENTITY''] else []) @
     (if gss_client_set P \<or> gss_server_set P then [''GSSAPI_DELEGATE_CREDENTIALS''] else [])"

text \<open>
  The session of the native client: a failed handshake is retried after a delay, and the last
  failure is raised again, a timeout of libssh2 as the \<open>Timeout\<close> of the library.
\<close>

definition new_session :: "conn \<Rightarrow> conn" where
  "new_session s = (emit NewSession s)\<lparr>session := True\<rparr>"

function native_init_session ::
    "conn_params \<Rightarrow> net \<Rightarrow> string \<Rightarrow> int \<Rightarrow> int \<Rightarrow> conn \<Rightarrow> (conn_error + unit) \<times> conn" where
  "native_init_session P E host port retries s =
     (case set_options E (native_options P) (new_session s) of
        (Inl e, s1) \<Rightarrow> (Inl e, s1)
      | (Inr _, s1) \<Rightarrow>
          (let s2 = emit Handshake s1; result = shaker E (history s2) in
           if result = Shaken then (Inr (), s2)
           else if retries < num_retries P then
             (case reconnect P E host port (retries + 1) (emit Sleep s2) of
                (Inl e, s3) \<Rightarrow> (Inl e, s3)
              | (Inr _, s3) \<Rightarrow> native_init_session P E host port (retries + 1) s3)
           else
             (case shut_socket E s2 of
                (Inl e, s3) \<Rightarrow> (Inl e, s3)
              | (Inr _, s3) \<Rightarrow>
                  (Inl (case result of
                          HandshakeTimeout m \<Rightarrow> ESSH2Timeout (client_host P) (client_port P) m
                        | HandshakeError m \<Rightarrow> EOtherException m), s3))))"
  by pat_completeness auto
termination
  by (relation "measure (\<lambda>(P, E, host, port, retries, s). nat (num_retries P - retries))") auto

text \<open>
  The session of the ssh-python client: the socket is handed over and the session connected in one
  \<open>try\<close>, there is no delay of its own before the retry, and the socket is left as it is.
\<close>

definition ssh_handshake :: "net \<Rightarrow> conn \<Rightarrow> handshake_result \<times> conn" where
  "ssh_handshake E s =
     (let s1 = emit SetSocket s in
      if shaker E (history s1) \<noteq> Shaken then (shaker E (history s1), s1)
      else let s2 = emit Handshake s1 in (shaker E (history s2), s2))"

function ssh_init_session ::
    "conn_params \<Rightarrow> net \<Rightarrow> string \<Rightarrow> int \<Rightarrow> int \<Rightarrow> conn \<Rightarrow> (conn_error + unit) \<times> conn" where
  "ssh_init_session P E host port retries s =
     (case set_options E (ssh_options P) (new_session s) of
        (Inl e, s1) \<Rightarrow> (Inl e, s1)
      | (Inr _, s1) \<Rightarrow>
          (case ssh_handshake E s1 of (result, s2) \<Rightarrow>
             if result = Shaken then (Inr (), s2)
             else if retries < num_retries P then
               (case reconnect P E host port (retries + 1) s2 of
                  (Inl e, s3) \<Rightarrow> (Inl e, s3)
                | (Inr _, s3) \<Rightarrow> ssh_init_session P E host port (retries + 1) s3)
             else (Inl (case result of HandshakeTimeout m \<Rightarrow> EOtherException m
                                     | HandshakeError m \<Rightarrow> EOtherException m), s2)))"
  by pat_completeness auto
termination
  by (relation "measure (\<lambda>(P, E, host, port, retries, s). nat (num_retries P - retries))") auto

declare native_init_session.simps [simp del] ssh_init_session.simps [simp del]


section \<open>The number of handshakes\<close>

fun is_handshake :: "net_event \<Rightarrow> bool" where
  "is_handshake Handshake = True" | "is_handshake _ = False"

lemma adds_shut_socket: "adds (\<lambda>ev. ev = Shutdown \<or> ev = Detach) s (snd (shut_socket E s))"
  by (simp add: shut_socket_def Let_def adds_emit)

lemma adds_disconnect_eagain: "adds (\<lambda>ev. ev = Disconnect) s (disconnect_eagain E s)"
  by (simp add: disconnect_eagain_def adds_emit)

lemma adds_set_options: "adds (\<lambda>ev. \<exists>opt. ev = SetOption opt) s (snd (set_options E opts s))"
proof (induction opts arbitrary: s)
  case (Cons opt opts)
  have "adds (\<lambda>ev. \<exists>opt. ev = SetOption opt) s (emit (SetOption opt) s)" by (auto intro: adds_emit)
  with Cons show ?case by (auto simp: Let_def split: option.splits intro: adds_trans)
qed simp

lemma reconnect_events:
  "adds (\<lambda>ev. ev \<in> {Disconnect, Shutdown, Detach} \<or> conn_event P host port ev) s
     (snd (reconnect P E host port retries s))"
proof -
  let ?q = "\<lambda>ev. ev \<in> {Disconnect, Shutdown, Detach} \<or> conn_event P host port ev"
  let ?s1 = "(disconnect_eagain E s)\<lparr>session := False\<rparr>"
  obtain r s2 where r: "shut_socket E ?s1 = (r, s2)" by force
  have "adds ?q s ?s1" using adds_mono[OF adds_disconnect_eagain[of s E], of ?q] by simp
  also have "adds ?q ?s1 s2" using adds_mono[OF adds_shut_socket[of ?s1 E], of ?q] r by simp
  finally have s2: "adds ?q s s2" .
  then have "adds ?q s (emit Sleep (s2\<lparr>sock := None\<rparr>))" by (simp add: adds_emit)
  then have "adds ?q s (snd (connect P E host port retries (emit Sleep (s2\<lparr>sock := None\<rparr>))))"
    by (rule adds_trans) (rule adds_mono[OF connect_events], blast)
  with s2 r show ?thesis by (simp add: reconnect_def split: sum.split)
qed

lemma count_quiet:
  "count is_handshake (snd (shut_socket E s)) = count is_handshake s"
  "count is_handshake (snd (set_options E opts s)) = count is_handshake s"
  "count is_handshake (snd (reconnect P E host port retries s)) = count is_handshake s"
  "count is_handshake (new_session s) = count is_handshake s"
  by (rule adds_count[OF adds_shut_socket], auto)
     (rule adds_count[OF adds_set_options], auto,
      rule adds_count[OF reconnect_events], auto elim: is_handshake.elims, simp add: new_session_def)

lemma native_init_session_handshakes:
  "count is_handshake (snd (native_init_session P E host port retries s)) \<le>
     count is_handshake s + Suc (retries_left P retries)"
proof (induction P E host port retries s rule: native_init_session.induct)
  case (1 P E host port retries s)
  obtain r s1 where o: "set_options E (native_options P) (new_session s) = (r, s1)" by force
  have s1: "count is_handshake s1 = count is_handshake s"
    using count_quiet(2)[of E "native_options P" "new_session s"] o by (simp add: count_quiet)
  let ?s2 = "emit Handshake s1"
  obtain r3 s3 where c: "reconnect P E host port (retries + 1) (emit Sleep ?s2) = (r3, s3)" by force
  have s3: "count is_handshake s3 = Suc (count is_handshake s)"
    using count_quiet(3)[of P E host port "retries + 1" "emit Sleep ?s2"] c s1 by simp
  obtain r4 s4 where f: "shut_socket E ?s2 = (r4, s4)" by force
  have s4: "count is_handshake s4 = Suc (count is_handshake s)"
    using count_quiet(1)[of E ?s2] f s1 by simp
  show ?case
  proof (cases "\<exists>x y. r = Inr x \<and> r3 = Inr y \<and> shaker E (history ?s2) \<noteq> Shaken \<and> retries < num_retries P")
    case True
    then obtain x y where t: "r = Inr x" "r3 = Inr y" "shaker E (history ?s2) \<noteq> Shaken" "retries < num_retries P"
      by blast
    from "1.IH"[OF o[symmetric] t(1) refl refl t(3,4) c[symmetric] t(2)] s3 t o c show ?thesis
      by (simp add: native_init_session.simps[of P E host port retries s] Let_def retries_left_step)
  next
    case False
    then consider "\<exists>e. r = Inl e" | "\<exists>e. r3 = Inl e" | "shaker E (history ?s2) = Shaken" | "\<not> retries < num_retries P"
      by (metis (full_types) sum.exhaust)
    then show ?thesis
      using o c f s1 s3 s4
      by cases (auto simp: native_init_session.simps[of P E host port retries s] Let_def split: sum.splits)
  qed
qed

lemma count_ssh_handshake:
  "ssh_handshake E s = (result, t) \<Longrightarrow> count is_handshake t \<le> Suc (count is_handshake s)"
  by (auto simp: ssh_handshake_def Let_def split: if_splits)

lemma ssh_init_session_handshakes:
  "count is_handshake (snd (ssh_init_session P E host port retries s)) \<le>
     count is_handshake s + Suc (retries_left P retries)"
proof (induction P E host port retries s rule: ssh_init_session.induct)
  case (1 P E host port retries s)
  obtain r s1 where o: "set_options E (ssh_options P) (new_session s) = (r, s1)" by force
  have s1: "count is_handshake s1 = count is_handshake s"
    using count_quiet(2)[of E "ssh_options P" "new_session s"] o by (simp add: count_quiet)
  obtain result s2 where h: "ssh_handshake E s1 = (result, s2)" by force
  have s2: "count is_handshake s2 \<le> Suc (count is_handshake s)"
    using count_ssh_handshake[OF h] s1 by simp
  obtain r3 s3 where c: "reconnect P E host port (retries + 1) s2 = (r3, s3)" by force
  have s3: "count is_handshake s3 \<le> Suc (count is_handshake s)"
    using count_quiet(3)[of P E host port "retries + 1" s2] c s2 by simp
  show ?case
  proof (cases "\<exists>x y. r = Inr x \<and> r3 = Inr y \<and> result \<noteq> Shaken \<and> retries < num_retries P")
    case True
    then obtain x y where t: "r = Inr x" "r3 = Inr y" "result \<noteq> Shaken" "retries < num_retries P"
      by blast
    from "1.IH"[OF o[symmetric] t(1) h[symmetric] t(3,4) c[symmetric] t(2)] s3 t o h c show ?thesis
      by (simp add: ssh_init_session.simps[of P E host port retries s] retries_left_step)
  next
    case False
    then consider "\<exists>e. r = Inl e" | "\<exists>e. r3 = Inl e" | "result = Shaken" | "\<not> retries < num_retries P"
      by (metis (full_types) sum.exhaust)
    then show ?thesis
      using o h c s1 s2 s3
      by cases (auto simp: ssh_init_session.simps[of P E host port retries s] split: sum.splits)
  qed
qed

section \<open>A connection that succeeds\<close>

definition connected_now :: "net \<Rightarrow> conn \<Rightarrow> bool" where
  "connected_now E t \<longleftrightarrow>
     sock t \<noteq> None \<and> (\<exists>h x. history t = h @ [Dial x]) \<and> dialer E (history t) = Connected"

text \<open>The resolver never answers with an empty list.\<close>

definition resolves :: "net \<Rightarrow> bool" where
  "resolves E \<longleftrightarrow> (\<forall>h. resolver E h \<noteq> Resolved [])"

lemma get_addr_info_nonempty:
  "resolves E \<Longrightarrow> get_addr_info P E host port s = (Inr as, s1) \<Longrightarrow> as \<noteq> []"
  by (auto simp: get_addr_info_def resolves_def Let_def split: resolve_result.splits if_splits)

lemma sock_opened [simp]: "sock (opened P a s) = Some (length (history s))"
  by (simp add: opened_def)

interpretation attempt_succeeds: connect_contract P E host port
    "\<lambda>retries s r. resolves E \<longrightarrow> fst r = Inr () \<longrightarrow> connected_now E (snd r)"
    "\<lambda>retries as s r. resolves E \<longrightarrow> as \<noteq> [] \<longrightarrow> fst r = Inr () \<longrightarrow> connected_now E (snd r)"
    "\<lambda>retries a s r. resolves E \<longrightarrow> fst r = Inr () \<longrightarrow> connected_now E (snd r)"
  for P E host port
proof
  fix s as and r :: "(conn_error + unit) \<times> conn"
  assume "get_addr_info P E host port s = (Inr as, emit (Resolve host port) s)"
    "resolves E \<longrightarrow> as \<noteq> [] \<longrightarrow> fst r = Inr () \<longrightarrow> connected_now E (snd r)"
  then show "resolves E \<longrightarrow> fst r = Inr () \<longrightarrow> connected_now E (snd r)"
    using get_addr_info_nonempty by blast
next
  fix y x :: "conn_error + unit" and s1 s :: conn
  assume "resolves E \<longrightarrow> fst (x, s1) = Inr () \<longrightarrow> connected_now E (snd (x, s1))" "isl y = isl x"
  then show "resolves E \<longrightarrow> a # rest \<noteq> [] \<longrightarrow> fst (y, s1) = Inr () \<longrightarrow> connected_now E (snd (y, s1))" for a :: addr and rest
    by (cases x) auto
qed (auto simp: connected_now_def)

lemmas connect_succeeds = attempt_succeeds.contract(1)[rule_format]

section \<open>Properties\<close>

text \<open>A network for the examples: one address, and the answer of each dial.\<close>

definition local_addr :: addr where
  "local_addr = \<lparr>addr_family = AF_INET6, addr_type = 1, sockaddr = ''::1''\<rparr>"

definition one_host :: "(net_event list \<Rightarrow> dial_result) \<Rightarrow> net" where
  "one_host dials = \<lparr>resolver = (\<lambda>h. Resolved [local_addr]), opener = (\<lambda>h. None), dialer = dials,
     shaker = (\<lambda>h. HandshakeError ''x''), closed_at = (\<lambda>h. False), shutdown_raises = (\<lambda>h. False),
     option_raises = (\<lambda>h. None)\<rparr>"

definition params :: "int \<Rightarrow> conn_params" where
  "params n = \<lparr>num_retries = n, ipv6_only = True, timeout_set = False, compress_set = False,
     gss_server_set = False, gss_client_set = False, client_host = ''h'', client_port = 22\<rparr>"

definition idle :: conn where
  "idle = \<lparr>history = [], sock = None, session = False\<rparr>"

lemmas example_defs = one_host_def params_def idle_def local_addr_def

lemma one_host_facts:
  "sockets_open (one_host d)" "resolves (one_host d)" "at_most_addrs 1 (one_host d)"
  by (auto simp: one_host_def sockets_open_def resolves_def at_most_addrs_def)

text \<open>
  When \<open>_connect\<close> returns, the last thing that happened is that a socket was connected, and
  \<open>self.sock\<close> is set, whatever failed and was retried before; for a resolver that does not answer
  with an empty list.
\<close>
theorem connect_returns_connected:
  assumes "resolves E" "connect P E host port retries s = (Inr (), t)"
  shows "connected_now E t"
  using connect_succeeds[OF assms(1), of P host port retries s] assms(2) by simp

definition second_time :: "net_event list \<Rightarrow> dial_result" where
  "second_time h = (if length (filter is_dial h) < 2 then OSErr ''timed out'' else Connected)"

theorem connect_returns_connected_witness:
  "connected_now (one_host second_time) (snd (connect (params 3) (one_host second_time) ''h'' 22 1 idle))"
proof -
  have "fst (connect (params 3) (one_host second_time) ''h'' 22 1 idle) = Inr ()" by code_simp
  then have "connect (params 3) (one_host second_time) ''h'' 22 1 idle =
      (Inr (), snd (connect (params 3) (one_host second_time) ''h'' 22 1 idle))"
    by (simp add: prod_eq_iff)
  from connect_returns_connected[OF one_host_facts(2) this] show ?thesis .
qed

text \<open>
  With \<open>ipv6_only\<close>, a client that connects opens no socket of another family, on no retry and
  whatever the resolver answers.
\<close>
theorem ipv6_only_opens_ipv6_sockets:
  assumes "ipv6_only P" "history s = []"
    "OpenSocket f ty \<in> set (history (snd (connect P E host port retries s)))"
  shows "f = AF_INET6"
  using connect_events[of P host port s E retries] assms by (auto simp: adds_def list_all_iff)

theorem ipv6_only_opens_ipv6_sockets_witness:
  "OpenSocket AF_INET6 1 \<in> set (history (snd (connect (params 1) (one_host (\<lambda>h. Connected)) ''h'' 22 1 idle)))
     \<and> AF_INET6 = AF_INET6"
proof -
  have 1: "OpenSocket AF_INET6 1 \<in> set (history (snd (connect (params 1) (one_host (\<lambda>h. Connected)) ''h'' 22 1 idle)))"
    by code_simp
  have "ipv6_only (params 1)" "history idle = []" by (simp_all add: params_def idle_def)
  from ipv6_only_opens_ipv6_sockets[OF this 1] 1 show ?thesis by simp
qed

text \<open>
  With at most \<open>k\<close> addresses per resolution, a connection started on its first attempt dials at
  most \<open>dial_bound k (num_retries - 1)\<close> sockets; with one address that is \<open>num_retries\<close>.
\<close>
theorem connect_dials_at_most:
  assumes "at_most_addrs k E"
  shows "count is_dial (snd (connect P E host port 1 s)) \<le>
     count is_dial s + dial_bound k (nat (num_retries P - 1))"
  using connect_dials[OF assms, of P host port 1 s] by (simp add: retries_left_def)

theorem connect_dials_at_most_witness:
  "count is_dial (snd (connect (params 3) (one_host (\<lambda>h. OSErr ''x'')) ''h'' 22 1 idle)) \<le> 3"
  using connect_dials_at_most[OF one_host_facts(3), of "params 3" "\<lambda>h. OSErr ''x''" "''h''" 22 idle]
  by (simp add: params_def count_def idle_def eval_nat_numeral)

definition two_addrs :: net where
  "two_addrs = (one_host (\<lambda>h. if length (filter is_dial h) mod 3 = 1 then OSErr ''x'' else RefusedConn))
     \<lparr>resolver := \<lambda>h. Resolved [local_addr, local_addr]\<rparr>"

text \<open>
  The bound is attained.  With two addresses, timeouts that alternate with refusals make a
  client of two attempts dial six times: a retry that ends in a refusal goes on with the rest of
  the addresses of the attempt before it.
\<close>
theorem connect_dials_more_than_num_retries:
  "at_most_addrs 2 two_addrs \<and> num_retries (params 2) = 2 \<and>
   count is_dial (snd (connect (params 2) two_addrs ''h'' 22 1 idle)) = 6"
proof -
  have "count is_dial (snd (connect (params 2) two_addrs ''h'' 22 1 idle)) = 6" by code_simp
  then show ?thesis by (simp add: two_addrs_def at_most_addrs_def params_def)
qed

text \<open>
  A refused connection is never retried.  When all dials are refused, each address is tried
  once, in the order of the resolver and without any delay, and the refusal is raised with the
  host and the port, whatever \<open>num_retries\<close> is.
\<close>
theorem refused_connections_are_not_retried:
  assumes "sockets_open E" "\<And>h. dialer E h = RefusedConn"
    and "get_addr_info P E host port s = (Inr as, s1)" "as \<noteq> []"
  shows "fst (connect P E host port retries s) = Inl (ERefused [(host, port)]) \<and>
    history (snd (connect P E host port retries s)) = history s1 @ concat (map (socket_events P) as)"
  using connect_addrs_all_refused[OF assms(1,2,4)] connect_found[OF assms(3)] by simp

theorem refused_connections_are_not_retried_witness:
  "fst (connect (params 5) (one_host (\<lambda>h. RefusedConn)) ''h'' 22 1 idle) = Inl (ERefused [(''h'', 22)]) \<and>
   history (snd (connect (params 5) (one_host (\<lambda>h. RefusedConn)) ''h'' 22 1 idle)) =
     [Resolve ''h'' 22, OpenSocket AF_INET6 1, Dial ''::1'']"
proof -
  have g: "get_addr_info (params 5) (one_host (\<lambda>h. RefusedConn)) ''h'' 22 idle =
      (Inr [local_addr], emit (Resolve ''h'' 22) idle)"
    by (simp add: get_addr_info_def example_defs Let_def)
  have "dialer (one_host (\<lambda>h. RefusedConn)) h = RefusedConn" for h by (simp add: one_host_def)
  from refused_connections_are_not_retried[OF one_host_facts(1) this g] show ?thesis
    by (simp add: socket_events_def params_def idle_def local_addr_def)
qed

text \<open>
  When the one address of a host cannot be connected to, exactly \<open>num_retries\<close> attempts are
  made (one when it is not positive), each with a resolution of its own and a delay before each
  but the first, and \<open>ConnectionError\<close> is raised with the number of the last attempt.
\<close>
theorem connect_gives_up_after_num_retries:
  assumes "sockets_open E" "\<And>h. dialer E h = OSErr m" "\<And>h. resolver E h = Resolved [a]"
    "ipv6_only P \<Longrightarrow> addr_family a = AF_INET6"
  shows "fst (connect P E host port 1 s) =
           Inl (EConnection host port m (max 1 (num_retries P)) (num_retries P)) \<and>
         history (snd (connect P E host port 1 s)) =
           history s @ attempts (nat (num_retries P - 1)) (Resolve host port # socket_events P a)"
  using connect_oserr_forever[OF assms, where host = host and port = port and retries = 1 and s = s]
  by (simp add: retries_left_def)

theorem connect_gives_up_after_num_retries_witness:
  "fst (connect (params 2) (one_host (\<lambda>h. OSErr ''x'')) ''h'' 22 1 idle) = Inl (EConnection ''h'' 22 ''x'' 2 2) \<and>
   history (snd (connect (params 2) (one_host (\<lambda>h. OSErr ''x'')) ''h'' 22 1 idle)) =
     [Resolve ''h'' 22, OpenSocket AF_INET6 1, Dial ''::1'', Sleep,
      Resolve ''h'' 22, OpenSocket AF_INET6 1, Dial ''::1'']"
  using connect_gives_up_after_num_retries[OF one_host_facts(1), of "\<lambda>h. OSErr ''x''" "''x''" local_addr
      "params 2" "''h''" 22 idle]
  by (simp add: example_defs socket_events_def)

text \<open>
  A host that cannot be resolved is looked up \<open>num_retries\<close> times, with a delay before each but
  the first, no socket is opened, and \<open>UnknownHostError\<close> is raised.
\<close>
theorem unknown_host_is_looked_up_num_retries_times:
  assumes "\<And>h. resolver E h = GaiError m"
  shows "fst (connect P E host port 1 s) =
           Inl (EUnknownHost host m (max 1 (num_retries P)) (num_retries P)) \<and>
         history (snd (connect P E host port 1 s)) =
           history s @ attempts (nat (num_retries P - 1)) [Resolve host port]"
  using connect_gai_forever[OF assms, of P host port 1 s] by (simp add: retries_left_def)

theorem unknown_host_is_looked_up_num_retries_times_witness:
  "history (snd (connect (params 2) ((one_host (\<lambda>h. Connected))\<lparr>resolver := \<lambda>h. GaiError ''x''\<rparr>) ''h'' 22 1 idle)) =
     [Resolve ''h'' 22, Sleep, Resolve ''h'' 22]"
  using unknown_host_is_looked_up_num_retries_times[of "(one_host (\<lambda>h. Connected))\<lparr>resolver := \<lambda>h. GaiError ''x''\<rparr>"
      "''x''" "params 2" "''h''" 22 idle]
  by (simp add: params_def idle_def)

text \<open>
  C37: Starting the session of either client makes at most \<open>num_retries\<close> handshakes (one when it is
  not positive), the reconnections in between included.
\<close>
theorem at_most_num_retries_handshakes:
  "count is_handshake (snd (native_init_session P E host port 1 s)) \<le>
     count is_handshake s + nat (max 1 (num_retries P)) \<and>
   count is_handshake (snd (ssh_init_session P E host port 1 s)) \<le>
     count is_handshake s + nat (max 1 (num_retries P))"
  using native_init_session_handshakes[of P E host port 1 s] ssh_init_session_handshakes[of P E host port 1 s]
  by (auto simp: retries_left_def max_def)

text \<open>
  The native client waits twice before each new handshake, once in \<open>_init_session\<close> and once
  more in \<open>_connect_init_session_retry\<close>; the ssh-python client waits once.
\<close>
theorem native_waits_twice_per_handshake_retry:
  "count (\<lambda>ev. ev = Sleep) (snd (native_init_session (params 2) (one_host (\<lambda>h. Connected)) ''h'' 22 1
     (snd (connect (params 2) (one_host (\<lambda>h. Connected)) ''h'' 22 1 idle)))) = 2 \<and>
   count (\<lambda>ev. ev = Sleep) (snd (ssh_init_session (params 2) (one_host (\<lambda>h. Connected)) ''h'' 22 1
     (snd (connect (params 2) (one_host (\<lambda>h. Connected)) ''h'' 22 1 idle)))) = 1"
  by code_simp

end
