(* ===== verification/Auth.thy ===== *)
theory Auth
  imports Connection
begin

text \<open>
  Authentication: \<open>auth\<close>, \<open>_identity_auth\<close>, \<open>_pkey_auth\<close>, \<open>_pkey_file_auth\<close> and \<open>_auth_retry\<close> of
  \<open>pssh/clients/base/single.py\<close> and the methods the two clients put in for the abstract ones
  (\<open>pssh/clients/native/single.py\<close>, \<open>pssh/clients/ssh/single.py\<close>), among them the GSSAPI step that the
  ssh-python client tries first.

  The state is the list of what the client has asked for so far.  What the server, the agent and
  the key libraries answer is a function of that list, so that any sequence of answers is possible;
  the files of the user are fixed.  The interface between the common code and the two clients is
  the locale \<open>auth_provider\<close>.
\<close>

section \<open>Data\<close>

datatype auth_event =
    AgentAuth string
  | ReadKeyFile string
  | PublicKeyMemory string bytes string
  | PasswordAuth string "string option"
  | KeyboardInteractive string "string option"
  | Gssapi
  | ImportPrivkey bytes string
  | ImportCert string
  | TryPublicKey string
  | CopyCert string
  | PublicKey bytes
  | RetryDelay

text \<open>
  Exceptions: the four of the agent that \<open>auth\<close> names, \<open>AuthenticationError\<close> with a message or with
  the arguments \<open>_auth_retry\<close> gives it, and all others.
\<close>

datatype auth_error =
    AgentError string
  | AuthError string
  | AuthRetriesError string int auth_error int int
  | OtherError string

type_synonym 'a auth_prog = "(auth_event list, auth_error, 'a) prog"

datatype key = NoKey | KeyPath string | KeyData bytes

record auth_params =
  auth_host :: string
  auth_port :: int
  user :: string
  password :: "string option"
  pkey :: key
  allow_agent :: bool
  identity_auth_on :: bool
  keyboard_interactive :: bool
  auth_retries :: int
  identities :: "string list"
  cert_file :: "string option"
  gssapi_auth :: bool
  gssapi_server_identity :: bool
  gssapi_client_identity :: bool

record auth_env =
  answer :: "auth_event list \<Rightarrow> auth_error option"
  is_file :: "string \<Rightarrow> bool"
  read_file :: "string \<Rightarrow> auth_error + bytes"

definition perform :: "auth_env \<Rightarrow> auth_event \<Rightarrow> unit auth_prog" where
  "perform E ev = (\<lambda>h. (case answer E (h @ [ev]) of None \<Rightarrow> Inr () | Some e \<Rightarrow> Inl e, h @ [ev]))"

definition read_key_file :: "auth_env \<Rightarrow> string \<Rightarrow> bytes auth_prog" where
  "read_key_file E path = (\<lambda>h. (read_file E path, h @ [ReadKeyFile path]))"

text \<open>The passphrase of a key: the password, or empty bytes.\<close>

definition passphrase :: "auth_params \<Rightarrow> string" where
  "passphrase P = (case password P of None \<Rightarrow> [] | Some pw \<Rightarrow> pw)"

section \<open>The methods of the native client\<close>

definition native_agent_auth :: "auth_params \<Rightarrow> auth_env \<Rightarrow> unit auth_prog" where
  "native_agent_auth P E = perform E (AgentAuth (user P))"

definition native_pkey_from_memory :: "auth_params \<Rightarrow> auth_env \<Rightarrow> bytes \<Rightarrow> unit auth_prog" where
  "native_pkey_from_memory P E pkey_data = perform E (PublicKeyMemory (user P) pkey_data (passphrase P))"

definition native_password_auth :: "auth_params \<Rightarrow> auth_env \<Rightarrow> unit auth_prog" where
  "native_password_auth P E =
     (if keyboard_interactive P then perform E (KeyboardInteractive (user P) (password P))
      else perform E (PasswordAuth (user P) (password P)))"

section \<open>The methods of the ssh-python client\<close>

definition ssh_agent_auth :: "auth_params \<Rightarrow> auth_env \<Rightarrow> unit auth_prog" where
  "ssh_agent_auth P E = perform E (AgentAuth (user P))"

definition ssh_password_auth :: "auth_params \<Rightarrow> auth_env \<Rightarrow> unit auth_prog" where
  "ssh_password_auth P E = perform E (PasswordAuth (user P) (password P))"

definition import_cert :: "auth_env \<Rightarrow> string \<Rightarrow> unit auth_prog" where
  "import_cert E cert =
     andthen (perform E (ImportCert cert))
       (andthen (perform E (TryPublicKey cert)) (perform E (CopyCert cert)))"

definition pkey_obj_auth :: "auth_params \<Rightarrow> auth_env \<Rightarrow> bytes \<Rightarrow> unit auth_prog" where
  "pkey_obj_auth P E pkey_data =
     andthen (case cert_file P of None \<Rightarrow> return () | Some cert \<Rightarrow> import_cert E cert)
       (perform E (PublicKey pkey_data))"

definition ssh_pkey_from_memory :: "auth_params \<Rightarrow> auth_env \<Rightarrow> bytes \<Rightarrow> unit auth_prog" where
  "ssh_pkey_from_memory P E pkey_data =
     andthen (perform E (ImportPrivkey pkey_data (passphrase P))) (pkey_obj_auth P E pkey_data)"

section \<open>The common order of the methods\<close>

text \<open>The abstract methods of \<open>BaseSSHClient\<close>.\<close>

record auth_methods =
  m_agent :: "unit auth_prog"
  m_password :: "unit auth_prog"
  m_pkey_memory :: "bytes \<Rightarrow> unit auth_prog"

definition native_methods :: "auth_params \<Rightarrow> auth_env \<Rightarrow> auth_methods" where
  "native_methods P E =
     \<lparr>m_agent = native_agent_auth P E, m_password = native_password_auth P E,
      m_pkey_memory = native_pkey_from_memory P E\<rparr>"

definition ssh_methods :: "auth_params \<Rightarrow> auth_env \<Rightarrow> auth_methods" where
  "ssh_methods P E =
     \<lparr>m_agent = ssh_agent_auth P E, m_password = ssh_password_auth P E,
      m_pkey_memory = ssh_pkey_from_memory P E\<rparr>"

definition pkey_file_auth :: "auth_env \<Rightarrow> auth_methods \<Rightarrow> string \<Rightarrow> unit auth_prog" where
  "pkey_file_auth E M pkey_file = bind (read_key_file E pkey_file) (m_pkey_memory M)"

definition pkey_auth :: "auth_env \<Rightarrow> auth_methods \<Rightarrow> key \<Rightarrow> unit auth_prog" where
  "pkey_auth E M k =
     (case k of
        KeyPath path \<Rightarrow> bind (read_key_file E path) (m_pkey_memory M)
      | KeyData pkey_data \<Rightarrow> m_pkey_memory M pkey_data
      | NoKey \<Rightarrow> throw (OtherError ''no key''))"

fun identity_auth :: "auth_env \<Rightarrow> auth_methods \<Rightarrow> string list \<Rightarrow> unit auth_prog" where
  "identity_auth E M [] = throw (AuthError ''No authentication methods succeeded'')"
| "identity_auth E M (identity_file # rest) =
     (if \<not> is_file E identity_file then identity_auth E M rest
      else attempt (pkey_file_auth E M identity_file) (\<lambda>ex. identity_auth E M rest))"

text \<open>The last part of \<open>auth\<close>: the password, when there is one.\<close>

definition password_step :: "auth_params \<Rightarrow> auth_methods \<Rightarrow> unit auth_prog" where
  "password_step P M =
     (if password P = None then throw (AuthError ''No remaining authentication methods'')
      else m_password M)"

text \<open>
  The identity files: an \<open>AuthenticationError\<close> is raised again when there is no password to go on
  with, any other exception always.
\<close>

definition identity_step :: "auth_params \<Rightarrow> auth_env \<Rightarrow> auth_methods \<Rightarrow> unit auth_prog" where
  "identity_step P E M =
     (if identity_auth_on P
      then attempt (identity_auth E M (identities P))
        (\<lambda>ex. case ex of
                AuthError _ \<Rightarrow> if password P = None then throw ex else password_step P M
              | AuthRetriesError _ _ _ _ _ \<Rightarrow> if password P = None then throw ex else password_step P M
              | _ \<Rightarrow> throw ex)
      else password_step P M)"

definition base_auth :: "auth_params \<Rightarrow> auth_env \<Rightarrow> auth_methods \<Rightarrow> unit auth_prog" where
  "base_auth P E M =
     (if pkey P \<noteq> NoKey then pkey_auth E M (pkey P)
      else if allow_agent P then attempt (m_agent M) (\<lambda>ex. identity_step P E M)
      else identity_step P E M)"

definition native_auth :: "auth_params \<Rightarrow> auth_env \<Rightarrow> unit auth_prog" where
  "native_auth P E = base_auth P E (native_methods P E)"

definition ssh_auth :: "auth_params \<Rightarrow> auth_env \<Rightarrow> unit auth_prog" where
  "ssh_auth P E =
     (if gssapi_auth P \<or> gssapi_server_identity P \<or> gssapi_client_identity P
      then attempt (perform E Gssapi) (\<lambda>ex. base_auth P E (ssh_methods P E))
      else base_auth P E (ssh_methods P E))"

section \<open>Retries\<close>

function auth_retry :: "auth_params \<Rightarrow> unit auth_prog \<Rightarrow> int \<Rightarrow> unit auth_prog" where
  "auth_retry P auth retries h =
     (case auth h of
        (Inr _, h1) \<Rightarrow> (Inr (), h1)
      | (Inl ex, h1) \<Rightarrow>
          (if retries < auth_retries P then auth_retry P auth (retries + 1) (h1 @ [RetryDelay])
           else (Inl (AuthRetriesError (auth_host P) (auth_port P) ex retries (auth_retries P)), h1)))"
  by pat_completeness auto
termination
  by (relation "measure (\<lambda>(P, auth, retries, h). nat (auth_retries P - retries))") auto

declare auth_retry.simps [simp del]

section \<open>What the methods promise\<close>

fun is_auth :: "auth_event \<Rightarrow> bool" where
  "is_auth (AgentAuth _) = True"
| "is_auth (PublicKeyMemory _ _ _) = True"
| "is_auth (PasswordAuth _ _) = True"
| "is_auth (KeyboardInteractive _ _) = True"
| "is_auth Gssapi = True"
| "is_auth (PublicKey _) = True"
| "is_auth _ = False"

fun is_password :: "auth_event \<Rightarrow> bool" where
  "is_password (PasswordAuth _ _) = True"
| "is_password (KeyboardInteractive _ _) = True"
| "is_password _ = False"

fun is_memory_key :: "auth_event \<Rightarrow> bool" where
  "is_memory_key (PublicKeyMemory _ _ _) = True"
| "is_memory_key (ImportPrivkey _ _) = True"
| "is_memory_key (ImportCert _) = True"
| "is_memory_key (TryPublicKey _) = True"
| "is_memory_key (CopyCert _) = True"
| "is_memory_key (PublicKey _) = True"
| "is_memory_key _ = False"

definition is_key_event :: "auth_event \<Rightarrow> bool" where
  "is_key_event ev \<longleftrightarrow> is_memory_key ev \<or> (\<exists>f. ev = ReadKeyFile f)"

text \<open>The last thing that was asked for is an authentication, and it was accepted.\<close>

definition accepted :: "auth_env \<Rightarrow> auth_event list \<Rightarrow> bool" where
  "accepted E h \<longleftrightarrow> h \<noteq> [] \<and> is_auth (last h) \<and> answer E h = None"

text \<open>Key files, in the order they were read.\<close>

fun key_files :: "auth_event list \<Rightarrow> string list" where
  "key_files [] = []"
| "key_files (ReadKeyFile f # evs) = f # key_files evs"
| "key_files (_ # evs) = key_files evs"

lemma key_files_append [simp]: "key_files (xs @ ys) = key_files xs @ key_files ys"
  by (induction xs rule: key_files.induct) auto

lemma key_files_memory: "list_all is_memory_key evs \<Longrightarrow> key_files evs = []"
  by (induction evs rule: key_files.induct) auto

lemma not_memory_key [simp]: "is_password ev \<Longrightarrow> \<not> is_memory_key ev"
  by (cases ev) auto

lemma not_key_event: "is_password ev \<Longrightarrow> \<not> is_key_event ev"
  by (cases ev) (auto simp: is_key_event_def)

text \<open>A program that only asks for things of a kind, in order.\<close>

definition asks :: "(auth_event \<Rightarrow> bool) \<Rightarrow> 'a auth_prog \<Rightarrow> bool" where
  "asks q m \<longleftrightarrow> (\<forall>h. \<exists>evs. snd (m h) = h @ evs \<and> list_all q evs)"

lemma asksE:
  assumes "asks q m" "m h = (r, h')"
  obtains evs where "h' = h @ evs" "list_all q evs"
  using assms by (metis asks_def snd_conv)

lemma asks_perform: "q ev \<Longrightarrow> asks q (perform E ev)"
  by (simp add: asks_def perform_def)

lemma asks_return: "asks q (return x)"
  by (simp add: asks_def)

lemma asks_bind:
  assumes "asks q m" "\<And>x. asks q (f x)"
  shows "asks q (bind m f)"
  unfolding asks_def
proof
  fix h
  obtain r h1 where m: "m h = (r, h1)" by force
  from assms(1) m obtain evs where evs: "h1 = h @ evs" "list_all q evs" by (rule asksE)
  show "\<exists>evs. snd (bind m f h) = h @ evs \<and> list_all q evs"
  proof (cases r)
    case (Inl e)
    with m evs show ?thesis by simp
  next
    case (Inr x)
    obtain r2 h2 where f: "f x h1 = (r2, h2)" by force
    from assms(2) f obtain evs2 where "h2 = h1 @ evs2" "list_all q evs2" by (rule asksE)
    with m Inr f evs show ?thesis by (intro exI[of _ "evs @ evs2"]) simp
  qed
qed

lemmas asks_intros = asks_perform asks_return asks_bind

lemma accepted_perform: "perform E ev h = (Inr (), h') \<Longrightarrow> is_auth ev \<Longrightarrow> accepted E h'"
  by (auto simp: perform_def accepted_def split: option.splits)

text \<open>
  The interface of a client: asking the agent and sending the password are one request each, a
  key is handed over with requests about keys only, and a method that returns has been accepted.
\<close>

locale auth_provider =
  fixes E :: auth_env
    and agent :: "unit auth_prog"
    and send_password :: "unit auth_prog"
    and offer_key :: "bytes \<Rightarrow> unit auth_prog"
    and usr :: string
  assumes agent_asks: "snd (agent h) = h @ [AgentAuth usr]"
    and password_asks: "\<exists>ev. is_password ev \<and> snd (send_password h) = h @ [ev]"
    and key_asks: "asks is_memory_key (offer_key k)"
    and agent_accepted: "agent h = (Inr (), h') \<Longrightarrow> accepted E h'"
    and password_accepted: "send_password h = (Inr (), h') \<Longrightarrow> accepted E h'"
    and key_accepted: "offer_key k h = (Inr (), h') \<Longrightarrow> accepted E h'"
begin

definition methods :: auth_methods where
  "methods = \<lparr>m_agent = agent, m_password = send_password, m_pkey_memory = offer_key\<rparr>"

lemma methods_sel [simp]:
  "m_agent methods = agent" "m_password methods = send_password" "m_pkey_memory methods = offer_key"
  by (simp_all add: methods_def)

lemma key_file_accepted: "pkey_file_auth E methods f h = (Inr (), h') \<Longrightarrow> accepted E h'"
  by (auto simp: pkey_file_auth_def elim: bind_InrE intro: key_accepted)

lemma pkey_auth_accepted: "pkey_auth E methods k h = (Inr (), h') \<Longrightarrow> accepted E h'"
  by (cases k) (auto simp: pkey_auth_def elim: bind_InrE intro: key_accepted)

lemma key_file_asks:
  "\<exists>evs. snd (pkey_file_auth E methods f h) = h @ ReadKeyFile f # evs \<and> list_all is_memory_key evs"
proof (cases "read_file E f")
  case (Inl e)
  then show ?thesis by (auto simp: pkey_file_auth_def read_key_file_def bind_def)
next
  case (Inr d)
  obtain r h' where r: "offer_key d (h @ [ReadKeyFile f]) = (r, h')" by force
  from asksE[OF key_asks r] Inr r show ?thesis
    by (force simp: pkey_file_auth_def read_key_file_def bind_def)
qed

lemma identity_auth_asks:
  "\<exists>evs. snd (identity_auth E methods ids h) = h @ evs \<and> list_all is_key_event evs \<and>
     (\<exists>untried. filter (is_file E) ids = key_files evs @ untried \<and>
        (fst (identity_auth E methods ids h) \<noteq> Inr () \<longrightarrow> untried = []))"
proof (induction ids arbitrary: h)
  case Nil
  then show ?case by (auto intro: exI[of _ "[]"])
next
  case (Cons f ids)
  show ?case
  proof (cases "is_file E f")
    case False
    with Cons show ?thesis by simp
  next
    case True
    obtain r h1 where r: "pkey_file_auth E methods f h = (r, h1)" by force
    with key_file_asks[of f h] obtain evs where
      evs: "h1 = h @ ReadKeyFile f # evs" "list_all is_memory_key evs" by auto
    then have k: "list_all is_key_event (ReadKeyFile f # evs)" "key_files evs = []"
      by (auto simp: is_key_event_def list_all_iff key_files_memory)
    show ?thesis
    proof (cases r)
      case (Inr u)
      with True r evs k show ?thesis by (intro exI[of _ "ReadKeyFile f # evs"]) simp
    next
      case (Inl ex)
      from Cons[of h1] obtain evs2 untried where
        "snd (identity_auth E methods ids h1) = h1 @ evs2" "list_all is_key_event evs2"
        "filter (is_file E) ids = key_files evs2 @ untried"
        "fst (identity_auth E methods ids h1) \<noteq> Inr () \<longrightarrow> untried = []" by blast
      with True r Inl evs k show ?thesis
        by (intro exI[of _ "(ReadKeyFile f # evs) @ evs2"]) auto
    qed
  qed
qed

lemma identity_auth_accepted: "identity_auth E methods ids h = (Inr (), h') \<Longrightarrow> accepted E h'"
proof (induction ids arbitrary: h)
  case (Cons f ids)
  then show ?case
    by (cases "pkey_file_auth E methods f h"; cases "fst (pkey_file_auth E methods f h)")
       (auto split: if_splits dest: key_file_accepted)
qed simp

lemma identity_auth_raises:
  "fst (identity_auth E methods ids h) \<noteq> Inr () \<Longrightarrow>
     fst (identity_auth E methods ids h) = Inl (AuthError ''No authentication methods succeeded'')"
proof (induction ids arbitrary: h)
  case (Cons f ids)
  then show ?case
    by (cases "pkey_file_auth E methods f h"; cases "fst (pkey_file_auth E methods f h)")
       (auto split: if_splits)
qed simp

lemma password_step_accepted: "password_step P methods h = (Inr (), h') \<Longrightarrow> accepted E h'"
  by (auto simp: password_step_def password_accepted split: if_splits)

lemma identity_step_accepted: "identity_step P E methods h = (Inr (), h') \<Longrightarrow> accepted E h'"
  by (cases "identity_auth E methods (identities P) h"; cases "fst (identity_auth E methods (identities P) h)")
     (auto simp: identity_step_def split: if_splits auth_error.splits
       dest: password_step_accepted identity_auth_accepted)

lemma base_auth_accepted: "base_auth P E methods h = (Inr (), h') \<Longrightarrow> accepted E h'"
  by (cases "agent h"; cases "fst (agent h)")
     (auto simp: base_auth_def split: if_splits
       dest: pkey_auth_accepted agent_accepted identity_step_accepted)


lemma identity_step_asks:
  "\<exists>ks pws. snd (identity_step P E methods h) = h @ ks @ pws \<and> list_all is_key_event ks \<and>
     (pws = [] \<or> (\<exists>ev. pws = [ev] \<and> is_password ev) \<and> password P \<noteq> None \<and>
        key_files ks = (if identity_auth_on P then filter (is_file E) (identities P) else []))"
proof -
  have pw: "\<exists>pws. snd (password_step P methods h) = h @ pws \<and>
      (pws = [] \<or> (\<exists>ev. pws = [ev] \<and> is_password ev) \<and> password P \<noteq> None)" for h
    using password_asks[of h] by (auto simp: password_step_def)
  show ?thesis
  proof (cases "identity_auth_on P")
    case False
    with pw[of h] show ?thesis
      by (auto simp: identity_step_def intro: exI[of _ "[]"])
  next
    case True
    obtain r h1 where r: "identity_auth E methods (identities P) h = (r, h1)" by force
    with identity_auth_asks[of "identities P" h] obtain ks untried where
      ks: "h1 = h @ ks" "list_all is_key_event ks" "filter (is_file E) (identities P) = key_files ks @ untried"
        "r \<noteq> Inr () \<longrightarrow> untried = []" by auto
    show ?thesis
    proof (cases r)
      case (Inr u)
      with True r ks show ?thesis by (auto simp: identity_step_def)
    next
      case (Inl ex)
      with identity_auth_raises[of "identities P" h] r
      have "ex = AuthError ''No authentication methods succeeded''" by simp
      with True r Inl pw[of h1] ks show ?thesis by (auto simp: identity_step_def)
    qed
  qed
qed

lemma pkey_auth_asks: "asks is_key_event (pkey_auth E methods k)"
proof -
  have "asks is_key_event (read_key_file E f)" for f
    by (simp add: asks_def read_key_file_def is_key_event_def)
  moreover have "asks is_key_event (offer_key d)" for d
    using key_asks[of d] unfolding asks_def is_key_event_def list_all_iff by metis
  ultimately show ?thesis
    by (cases k) (auto simp: pkey_auth_def asks_def[of _ "throw _"] intro!: asks_bind)
qed

text \<open>
  The requests of \<open>auth\<close>: keys only when a private key is given; otherwise the agent, when it is
  allowed, then keys, then at most one password, after all identity files.
\<close>

lemma base_auth_asks:
  "\<exists>ag ks pws. snd (base_auth P E methods h) = h @ ag @ ks @ pws \<and> list_all is_key_event ks \<and>
     ag = (if pkey P = NoKey \<and> allow_agent P then [AgentAuth usr] else []) \<and>
     (pws = [] \<or> (\<exists>ev. pws = [ev] \<and> is_password ev) \<and> password P \<noteq> None \<and> pkey P = NoKey \<and>
        key_files ks = (if identity_auth_on P then filter (is_file E) (identities P) else []))"
proof (cases "pkey P = NoKey")
  case False
  obtain r h1 where r: "pkey_auth E methods (pkey P) h = (r, h1)" by force
  with pkey_auth_asks obtain ks where "h1 = h @ ks" "list_all is_key_event ks" by (rule asksE)
  with False r show ?thesis by (auto simp: base_auth_def)
next
  case True
  show ?thesis
  proof (cases "allow_agent P")
    case False
    with True identity_step_asks[of P h] show ?thesis by (auto simp: base_auth_def)
  next
    case ag: True
    obtain r h1 where r: "agent h = (r, h1)" by force
    with agent_asks[of h] have h1: "h1 = h @ [AgentAuth usr]" by simp
    show ?thesis
    proof (cases r)
      case (Inr u)
      with True ag r h1 show ?thesis by (auto simp: base_auth_def)
    next
      case (Inl ex)
      with True ag r have "base_auth P E methods h = identity_step P E methods h1"
        by (simp add: base_auth_def)
      with True ag h1 identity_step_asks[of P h1] show ?thesis by auto
    qed
  qed
qed

lemma base_auth_password:
  assumes "base_auth P E methods h = (r, h @ evs)" "pw \<in> set evs" "is_password pw"
  shows "pkey P = NoKey \<and> password P \<noteq> None \<and>
    (\<exists>ks. evs = (if allow_agent P then [AgentAuth usr] else []) @ ks @ [pw] \<and> list_all is_key_event ks \<and>
       key_files ks = (if identity_auth_on P then filter (is_file E) (identities P) else []))"
proof -
  from base_auth_asks[of P h] assms(1) obtain ag ks pws where
    evs: "evs = ag @ ks @ pws" "list_all is_key_event ks"
      "ag = (if pkey P = NoKey \<and> allow_agent P then [AgentAuth usr] else [])"
      "pws = [] \<or> (\<exists>ev. pws = [ev] \<and> is_password ev) \<and> password P \<noteq> None \<and> pkey P = NoKey \<and>
        key_files ks = (if identity_auth_on P then filter (is_file E) (identities P) else [])" by auto
  moreover have "pw \<notin> set ag" using assms(3) evs(3) by auto
  moreover have "pw \<notin> set ks" using assms(3) evs(2) not_key_event by (auto simp: list_all_iff)
  ultimately have "pw \<in> set pws" using assms(2) by auto
  with evs show ?thesis by auto
qed

lemma base_auth_no_delay: "asks (\<lambda>ev. ev \<noteq> RetryDelay) (base_auth P E methods)"
  unfolding asks_def
proof
  fix h
  from base_auth_asks[of P h] obtain ag ks pws where
    evs: "snd (base_auth P E methods h) = h @ ag @ ks @ pws" "list_all is_key_event ks"
      "ag = (if pkey P = NoKey \<and> allow_agent P then [AgentAuth usr] else [])"
      "pws = [] \<or> (\<exists>ev. pws = [ev] \<and> is_password ev)" by blast
  have "list_all (\<lambda>ev. ev \<noteq> RetryDelay) (ag @ ks @ pws)"
    using evs(2-4) by (auto simp: list_all_iff is_key_event_def split: if_splits)
  with evs(1) show "\<exists>evs. snd (base_auth P E methods h) = h @ evs \<and> list_all (\<lambda>ev. ev \<noteq> RetryDelay) evs"
    by blast
qed

end

section \<open>The two clients provide the interface\<close>

lemma asks_import_cert: "asks is_memory_key (import_cert E cert)"
  by (auto simp: import_cert_def intro!: asks_intros)

interpretation native: auth_provider E "native_agent_auth P E" "native_password_auth P E"
    "native_pkey_from_memory P E" "user P" for P E
proof unfold_locales
  show "snd (native_agent_auth P E h) = h @ [AgentAuth (user P)]" for h
    by (simp add: native_agent_auth_def perform_def)
  show "\<exists>ev. is_password ev \<and> snd (native_password_auth P E h) = h @ [ev]" for h
    by (auto simp: native_password_auth_def perform_def)
  show "asks is_memory_key (native_pkey_from_memory P E k)" for k
    by (simp add: native_pkey_from_memory_def asks_perform)
qed (auto simp: native_agent_auth_def native_password_auth_def native_pkey_from_memory_def
       split: if_splits dest: accepted_perform)

interpretation ssh: auth_provider E "ssh_agent_auth P E" "ssh_password_auth P E"
    "ssh_pkey_from_memory P E" "user P" for P E
proof unfold_locales
  show "snd (ssh_agent_auth P E h) = h @ [AgentAuth (user P)]" for h
    by (simp add: ssh_agent_auth_def perform_def)
  show "\<exists>ev. is_password ev \<and> snd (ssh_password_auth P E h) = h @ [ev]" for h
    by (auto simp: ssh_password_auth_def perform_def)
  show "asks is_memory_key (ssh_pkey_from_memory P E k)" for k
    by (auto simp: ssh_pkey_from_memory_def pkey_obj_auth_def intro!: asks_intros asks_import_cert
        split: option.split)
  show "ssh_pkey_from_memory P E k h = (Inr (), h') \<Longrightarrow> accepted E h'" for k h h'
    by (auto simp: ssh_pkey_from_memory_def pkey_obj_auth_def elim!: bind_InrE dest: accepted_perform)
qed (auto simp: ssh_agent_auth_def ssh_password_auth_def dest: accepted_perform)

lemma provider_methods:
  "native.methods P E = native_methods P E" "ssh.methods P E = ssh_methods P E"
  by (simp_all add: native.methods_def native_methods_def ssh.methods_def ssh_methods_def)

lemma native_auth_accepted: "native_auth P E h = (Inr (), h') \<Longrightarrow> accepted E h'"
  using native.base_auth_accepted[of P E P h h'] by (simp add: native_auth_def provider_methods)

lemma ssh_auth_accepted: "ssh_auth P E h = (Inr (), h') \<Longrightarrow> accepted E h'"
  using ssh.base_auth_accepted[of P E P _ h']
  by (cases "perform E Gssapi h"; cases "fst (perform E Gssapi h)")
     (auto simp: ssh_auth_def provider_methods split: if_splits dest: accepted_perform)

definition sound_auth :: "auth_env \<Rightarrow> unit auth_prog \<Rightarrow> bool" where
  "sound_auth E m \<longleftrightarrow> (\<forall>h h'. m h = (Inr (), h') \<longrightarrow> accepted E h')"

lemma sound_native_auth: "sound_auth E (native_auth P E)"
  by (auto simp: sound_auth_def native_auth_accepted)

lemma sound_ssh_auth: "sound_auth E (ssh_auth P E)"
  by (auto simp: sound_auth_def ssh_auth_accepted)

lemma native_auth_no_delay: "asks (\<lambda>ev. ev \<noteq> RetryDelay) (native_auth P E)"
  using native.base_auth_no_delay[of P E P] by (simp add: native_auth_def[abs_def] provider_methods)

section \<open>Retries of the whole authentication\<close>

lemma count_list_not_in: "x \<notin> set xs \<Longrightarrow> count_list xs x = 0"
  by (induction xs) auto

lemma auth_retry_outcome:
  assumes "asks (\<lambda>ev. ev \<noteq> RetryDelay) auth" "sound_auth E auth"
    "auth_retry P auth k h = (r, h')"
  shows "(r = Inr () \<and> accepted E h' \<and>
            count_list h' RetryDelay \<le> count_list h RetryDelay + nat (auth_retries P - k)) \<or>
         (\<exists>ex. r = Inl (AuthRetriesError (auth_host P) (auth_port P) ex (max k (auth_retries P)) (auth_retries P)) \<and>
            count_list h' RetryDelay = count_list h RetryDelay + nat (auth_retries P - k))"
  using assms(3)
proof (induction "nat (auth_retries P - k)" arbitrary: k h)
  case 0
  obtain r1 h1 where a: "auth h = (r1, h1)" by force
  with assms(1) obtain evs where evs: "h1 = h @ evs" "list_all (\<lambda>ev. ev \<noteq> RetryDelay) evs" by (rule asksE)
  then have "count_list h1 RetryDelay = count_list h RetryDelay"
    by (auto simp: list_all_iff count_list_not_in)
  with 0 a show ?case
    by (cases r1) (auto simp: auth_retry.simps[of P auth k h] max_def assms(2)[unfolded sound_auth_def])
next
  case (Suc n)
  obtain r1 h1 where a: "auth h = (r1, h1)" by force
  with assms(1) obtain evs where evs: "h1 = h @ evs" "list_all (\<lambda>ev. ev \<noteq> RetryDelay) evs" by (rule asksE)
  then have c: "count_list h1 RetryDelay = count_list h RetryDelay"
    by (auto simp: list_all_iff count_list_not_in)
  from Suc(2) have lt: "k < auth_retries P" and n: "n = nat (auth_retries P - (k + 1))"
    and m: "max k (auth_retries P) = max (k + 1) (auth_retries P)" by auto
  show ?case
  proof (cases r1)
    case (Inr u)
    with a c Suc(3) show ?thesis by (auto simp: auth_retry.simps[of P auth k h] assms(2)[unfolded sound_auth_def])
  next
    case (Inl ex)
    with a lt Suc(3) have "auth_retry P auth (k + 1) (h1 @ [RetryDelay]) = (r, h')"
      by (simp add: auth_retry.simps[of P auth k h])
    from Suc(1)[OF n this] c lt m show ?thesis by (auto simp: nat_diff_distrib)
  qed
qed

section \<open>Properties\<close>


definition plain_user :: auth_params where
  "plain_user = \<lparr>auth_host = ''h'', auth_port = 22, user = ''u'', password = Some ''p'', pkey = NoKey,
     allow_agent = True, identity_auth_on = True, keyboard_interactive = False, auth_retries = 3,
     identities = [''a'', ''b''], cert_file = None, gssapi_auth = False, gssapi_server_identity = False,
     gssapi_client_identity = False\<rparr>"

definition refusing_server :: auth_env where
  "refusing_server = \<lparr>answer = \<lambda>h. Some (OtherError ''no''), is_file = \<lambda>f. f = ''b'', read_file = Inr\<rparr>"


text \<open>
  With a private key the native client sends nothing but that key: neither the agent nor the
  identity files of the user nor the password are tried, whether the key is accepted or not.
\<close>
theorem private_key_is_used_alone:
  assumes "pkey P = KeyPath path"
  shows "\<exists>evs. snd (native_auth P E h) = h @ ReadKeyFile path # evs \<and>
     (\<forall>ev. ev \<in> set evs \<longrightarrow> (\<exists>d. read_file E path = Inr d \<and> ev = PublicKeyMemory (user P) d (passphrase P)))"
  using assms
  by (cases "read_file E path")
     (auto simp: native_auth_def base_auth_def pkey_auth_def read_key_file_def native_methods_def
        native_pkey_from_memory_def perform_def bind_def)

theorem private_key_is_used_alone_witness:
  "\<exists>evs. snd (native_auth (plain_user\<lparr>pkey := KeyPath ''k''\<rparr>) refusing_server []) = [] @ ReadKeyFile ''k'' # evs \<and>
     (\<forall>ev. ev \<in> set evs \<longrightarrow> ev = PublicKeyMemory ''u'' ''k'' ''p'')"
proof -
  have "user (plain_user\<lparr>pkey := KeyPath ''k''\<rparr>) = ''u''" "read_file refusing_server ''k'' = Inr ''k''"
    "passphrase (plain_user\<lparr>pkey := KeyPath ''k''\<rparr>) = ''p''"
    by (simp_all add: plain_user_def refusing_server_def passphrase_def)
  with private_key_is_used_alone[of "plain_user\<lparr>pkey := KeyPath ''k''\<rparr>" "''k''" refusing_server "[]"]
  show ?thesis by fastforce
qed



end
