(* ===== verification/Client_Init.thy ===== *)
theory Client_Init
  imports Auth
begin

text \<open>
  Making a client: \<open>_init\<close> of \<open>pssh/clients/base/single.py\<close> puts the connection, the session, the
  authentication, the keep-alive and the switch to non-blocking mode after one another, and an
  exception of any of them leaves the constructor.  The theory also holds the disconnection of both
  clients.
\<close>

section \<open>A session that has started\<close>

definition session_up :: "net \<Rightarrow> conn \<Rightarrow> bool" where
  "session_up N t \<longleftrightarrow>
     session t \<and> sock t \<noteq> None \<and> (\<exists>h. history t = h @ [Handshake]) \<and> shaker N (history t) = Shaken"

lemma sock_set_options [simp]: "sock (snd (set_options N opts s)) = sock s"
  by (induction opts arbitrary: s) (auto simp: Let_def split: option.split)

lemma session_set_options [simp]: "session (snd (set_options N opts s)) = session s"
  by (induction opts arbitrary: s) (auto simp: Let_def split: option.split)

lemma new_session_fields [simp]: "sock (new_session s) = sock s" "session (new_session s)"
  by (simp_all add: new_session_def)

lemma set_optionsD:
  "set_options N opts (new_session s) = (r, s1) \<Longrightarrow> sock s1 = sock s \<and> session s1"
  using sock_set_options[of N opts "new_session s"] session_set_options[of N opts "new_session s"] by simp

lemma reconnect_connected:
  assumes "resolves N" "reconnect P N host port retries s = (Inr (), t)"
  shows "sock t \<noteq> None"
proof -
  obtain r s1 where r: "shut_socket N ((disconnect_eagain N s)\<lparr>session := False\<rparr>) = (r, s1)" by force
  with assms(2) have "connect P N host port retries (emit Sleep (s1\<lparr>sock := None\<rparr>)) = (Inr (), t)"
    by (cases r) (simp_all add: reconnect_def)
  with connect_succeeds[OF assms(1), of P host port retries "emit Sleep (s1\<lparr>sock := None\<rparr>)"]
  show ?thesis by (simp add: connected_now_def)
qed

lemma native_session_up:
  "resolves N \<Longrightarrow> sock s \<noteq> None \<Longrightarrow> native_init_session P N host port retries s = (Inr (), t) \<Longrightarrow> session_up N t"
proof (induction P N host port retries s arbitrary: t rule: native_init_session.induct)
  case (1 P N host port retries s)
  note step = native_init_session.simps[of P N host port retries s]
  obtain r s1 where o: "set_options N (native_options P) (new_session s) = (r, s1)" by force
  then have s1: "sock s1 = sock s" "session s1" using set_optionsD by auto
  let ?s2 = "emit Handshake s1"
  from "1.prems"(3) o obtain x where r: "r = Inr x" by (cases r) (simp_all add: step)
  show ?case
  proof (cases "shaker N (history ?s2) = Shaken")
    case True
    with "1.prems" o r s1 show ?thesis by (auto simp: step Let_def session_up_def)
  next
    case False
    show ?thesis
    proof (cases "retries < num_retries P")
      case lt: True
      obtain r3 s3 where c: "reconnect P N host port (retries + 1) (emit Sleep ?s2) = (r3, s3)" by force
      with "1.prems"(3) o r False lt obtain y where y: "r3 = Inr y" by (cases r3) (simp_all add: step Let_def)
      have t: "native_init_session P N host port (retries + 1) s3 = (Inr (), t)"
        using "1.prems"(3) o r False lt c y by (simp add: step Let_def)
      from c y have "reconnect P N host port (retries + 1) (emit Sleep ?s2) = (Inr (), s3)" by simp
      then have "sock s3 \<noteq> None" by (rule reconnect_connected[OF "1.prems"(1)])
      with "1.IH"[OF o[symmetric] r refl refl False lt c[symmetric] y] t "1.prems"(1) show ?thesis by blast
    next
      case False
      with "1.prems"(3) o r \<open>shaker N (history ?s2) \<noteq> Shaken\<close> show ?thesis
        by (auto simp: step Let_def split: prod.splits sum.splits)
    qed
  qed
qed

lemma ssh_handshake_up:
  "ssh_handshake N s = (Shaken, t) \<Longrightarrow>
     sock t = sock s \<and> session t = session s \<and> (\<exists>h. history t = h @ [Handshake]) \<and> shaker N (history t) = Shaken"
  by (auto simp: ssh_handshake_def Let_def split: if_splits)

lemma ssh_session_up:
  "resolves N \<Longrightarrow> sock s \<noteq> None \<Longrightarrow> ssh_init_session P N host port retries s = (Inr (), t) \<Longrightarrow> session_up N t"
proof (induction P N host port retries s arbitrary: t rule: ssh_init_session.induct)
  case (1 P N host port retries s)
  note step = ssh_init_session.simps[of P N host port retries s]
  obtain r s1 where o: "set_options N (ssh_options P) (new_session s) = (r, s1)" by force
  then have s1: "sock s1 = sock s" "session s1" using set_optionsD by auto
  obtain result s2 where h: "ssh_handshake N s1 = (result, s2)" by force
  from "1.prems"(3) o obtain x where r: "r = Inr x" by (cases r) (simp_all add: step)
  show ?case
  proof (cases "result = Shaken")
    case True
    with "1.prems" o r h s1 ssh_handshake_up[of N s1 s2] show ?thesis by (auto simp: step session_up_def)
  next
    case False
    with "1.prems"(3) o r h have lt: "retries < num_retries P" by (simp add: step split: if_splits)
    obtain r3 s3 where c: "reconnect P N host port (retries + 1) s2 = (r3, s3)" by force
    with "1.prems"(3) o r h False lt obtain y where y: "r3 = Inr y" by (cases r3) (simp_all add: step)
    have t: "ssh_init_session P N host port (retries + 1) s3 = (Inr (), t)"
      using "1.prems"(3) o r h False lt c y by (simp add: step)
    from c y have "reconnect P N host port (retries + 1) s2 = (Inr (), s3)" by simp
    then have "sock s3 \<noteq> None" by (rule reconnect_connected[OF "1.prems"(1)])
    with "1.IH"[OF o[symmetric] r h[symmetric] False lt c[symmetric] y] t "1.prems"(1) show ?thesis by blast
  qed
qed

section \<open>The constructor\<close>

record client =
  conn_of :: conn
  auth_log :: "auth_event list"
  keepalive_greenlet :: bool
  blocking :: bool

datatype init_error = InitConn conn_error | InitAuth auth_error

definition new_client :: client where
  "new_client = \<lparr>conn_of = \<lparr>history = [], sock = None, session = False\<rparr>, auth_log = [],
     keepalive_greenlet = False, blocking = True\<rparr>"

text \<open>
  \<open>_init\<close>, with the \<open>_init_session\<close>, the \<open>auth\<close> and the \<open>_keepalive\<close> of a client.  A new session is
  in blocking mode.
\<close>

definition client_init ::
  "(conn \<Rightarrow> (conn_error + unit) \<times> conn) \<Rightarrow> (conn \<Rightarrow> (conn_error + unit) \<times> conn) \<Rightarrow> unit auth_prog
     \<Rightarrow> bool \<Rightarrow> client \<Rightarrow> (init_error + unit) \<times> client" where
  "client_init do_connect init_session retry_auth keepalive c =
     (case do_connect (conn_of c) of
        (Inl e, s1) \<Rightarrow> (Inl (InitConn e), c\<lparr>conn_of := s1\<rparr>)
      | (Inr _, s1) \<Rightarrow>
         (case init_session s1 of
            (Inl e, s2) \<Rightarrow> (Inl (InitConn e), c\<lparr>conn_of := s2\<rparr>)
          | (Inr _, s2) \<Rightarrow>
             (case retry_auth (auth_log c) of
                (Inl e, h) \<Rightarrow> (Inl (InitAuth e), c\<lparr>conn_of := s2, auth_log := h\<rparr>)
              | (Inr _, h) \<Rightarrow>
                  (Inr (), c\<lparr>conn_of := s2, auth_log := h, keepalive_greenlet := keepalive,
                             blocking := False\<rparr>))))"

definition native_client_init ::
  "conn_params \<Rightarrow> net \<Rightarrow> auth_params \<Rightarrow> auth_env \<Rightarrow> int \<Rightarrow> string \<Rightarrow> int \<Rightarrow> client \<Rightarrow> (init_error + unit) \<times> client" where
  "native_client_init P N A E keepalive_seconds host port =
     client_init (connect P N host port 1) (native_init_session P N host port 1)
       (auth_retry A (native_auth A E) 1) (keepalive_seconds \<noteq> 0)"

definition ssh_client_init ::
  "conn_params \<Rightarrow> net \<Rightarrow> auth_params \<Rightarrow> auth_env \<Rightarrow> string \<Rightarrow> int \<Rightarrow> client \<Rightarrow> (init_error + unit) \<times> client" where
  "ssh_client_init P N A E host port =
     client_init (connect P N host port 1) (ssh_init_session P N host port 1)
       (auth_retry A (ssh_auth A E) 1) False"

text \<open>A client that can be used.\<close>

definition client_ready :: "net \<Rightarrow> auth_env \<Rightarrow> client \<Rightarrow> bool" where
  "client_ready N E c \<longleftrightarrow> session_up N (conn_of c) \<and> accepted E (auth_log c) \<and> \<not> blocking c"

lemma client_initE:
  assumes "client_init cn se au ka c = (Inr (), d)"
  obtains x y s1 s2 h where "cn (conn_of c) = (Inr x, s1)" "se s1 = (Inr y, s2)" "au (auth_log c) = (Inr (), h)"
    "d = c\<lparr>conn_of := s2, auth_log := h, keepalive_greenlet := ka, blocking := False\<rparr>"
  using assms by (auto simp: client_init_def split: prod.splits sum.splits)

lemma auth_retry_accepted:
  "sound_auth E auth \<Longrightarrow> auth_retry A auth k h = (Inr (), h') \<Longrightarrow> accepted E h'"
proof (induction A auth k h rule: auth_retry.induct)
  case (1 A auth k h)
  obtain r h1 where "auth h = (r, h1)" by force
  with 1 show ?case
    by (cases r) (auto simp: auth_retry.simps[of A auth k h] sound_auth_def split: if_splits)
qed

text \<open>
  All that a client does while it is made: every name that is resolved is that of its host, with its
  port, and the handshakes are bounded.
\<close>

fun at_host :: "string \<Rightarrow> int \<Rightarrow> net_event \<Rightarrow> bool" where
  "at_host host port (Resolve h p) = (h = host \<and> p = port)"
| "at_host host port _ = True"

lemma conn_event_at_host: "conn_event P host port ev \<Longrightarrow> at_host host port ev"
  by (cases ev) auto

lemma adds_at_host:
  "adds (at_host host port) s (snd (shut_socket E s))"
  "adds (at_host host port) s (snd (set_options E opts s))"
  "adds (at_host host port) s (snd (reconnect P E host port retries s))"
  "adds (at_host host port) s (snd (connect P E host port retries s))"
  by (rule adds_mono[OF adds_shut_socket], auto)
     (rule adds_mono[OF adds_set_options], auto,
      rule adds_mono[OF reconnect_events], auto simp: conn_event_at_host,
      rule adds_mono[OF connect_events], rule conn_event_at_host)

lemma native_init_session_at_host:
  "adds (at_host host port) s (snd (native_init_session P E host port retries s))"
proof (induction P E host port retries s rule: native_init_session.induct)
  case (1 P E host port retries s)
  let ?q = "at_host host port"
  obtain r s1 where o: "set_options E (native_options P) (new_session s) = (r, s1)" by force
  have "adds ?q s (new_session s)" by (simp add: new_session_def adds_emit)
  with adds_at_host(2)[of host port "new_session s" E "native_options P"] o have s1: "adds ?q s s1"
    by (auto intro: adds_trans)
  then have s2: "adds ?q s (emit Handshake s1)" by (simp add: adds_emit)
  obtain r3 s3 where c: "reconnect P E host port (retries + 1) (emit Sleep (emit Handshake s1)) = (r3, s3)" by force
  have "adds ?q (emit Sleep (emit Handshake s1)) s3"
    using adds_at_host(3)[of host port "emit Sleep (emit Handshake s1)" P E "retries + 1"] c by simp
  with s2 have s3: "adds ?q s s3" by (metis adds_emit adds_trans at_host.simps(5))
  obtain r4 s4 where f: "shut_socket E (emit Handshake s1) = (r4, s4)" by force
  with s2 adds_at_host(1)[of host port "emit Handshake s1" E] have s4: "adds ?q s s4" by (auto intro: adds_trans)
  have s5: "r = Inr x \<Longrightarrow> shaker E (history (emit Handshake s1)) \<noteq> Shaken \<Longrightarrow> retries < num_retries P \<Longrightarrow> r3 = Inr y \<Longrightarrow>
      adds ?q s (snd (native_init_session P E host port (retries + 1) s3))" for x y
    using "1.IH"[OF o[symmetric] _ refl refl _ _ c[symmetric]] s3 by (auto intro: adds_trans)
  show ?case
    using o c f s1 s2 s3 s4 s5
    by (simp add: native_init_session.simps[of P E host port retries s] Let_def split: sum.split)
qed

lemma connect_no_handshake:
  assumes "connect P N host port 1 (conn_of new_client) = (r, s)"
  shows "count is_handshake s = 0"
proof -
  have quiet: "conn_event P host port ev \<Longrightarrow> \<not> is_handshake ev" for ev by (cases ev) auto
  have "history (conn_of new_client) = []" by (simp add: new_client_def)
  with adds_count[OF connect_events[of P host port "conn_of new_client" N 1] quiet] assms
  show ?thesis by (simp add: count_def)
qed

lemma ssh_client_handshakes:
  assumes "ssh_client_init P N A E host port new_client = (r, c)"
  shows "count is_handshake (conn_of c) \<le> nat (max 1 (num_retries P))"
proof -
  obtain r1 s1 where cn: "connect P N host port 1 (conn_of new_client) = (r1, s1)" by force
  obtain r2 s2 where se: "ssh_init_session P N host port 1 s1 = (r2, s2)" by force
  from assms cn se have "conn_of c \<in> {s1, s2}"
    by (auto simp: ssh_client_init_def client_init_def split: prod.splits sum.splits)
  then show ?thesis
    using ssh_init_session_handshakes[of P N host port 1 s1] se connect_no_handshake[OF cn]
    by (auto simp: retries_left_def max_def)
qed

lemma native_client_history:
  assumes "native_client_init P N A E ka host port new_client = (r, c)"
  shows "list_all (at_host host port) (history (conn_of c))"
    and "count is_handshake (conn_of c) \<le> nat (max 1 (num_retries P))"
proof -
  obtain r1 s1 where cn: "connect P N host port 1 (conn_of new_client) = (r1, s1)" by force
  obtain r2 s2 where se: "native_init_session P N host port 1 s1 = (r2, s2)" by force
  from assms cn se have c: "conn_of c \<in> {s1, s2}"
    by (auto simp: native_client_init_def client_init_def split: prod.splits sum.splits)
  have 0: "history (conn_of new_client) = []" by (simp add: new_client_def)
  have s1: "list_all (at_host host port) (history s1)"
    using adds_list_all[OF adds_at_host(4)[of host port "conn_of new_client" P N 1]] cn 0 by simp
  with adds_list_all[OF native_init_session_at_host[of host port s1 P N 1]] se
  have "list_all (at_host host port) (history s2)" by simp
  with s1 c show "list_all (at_host host port) (history (conn_of c))" by auto
  have "count is_handshake s1 = 0" by (rule connect_no_handshake[OF cn])
  moreover have "count is_handshake s2 \<le> count is_handshake s1 + nat (max 1 (num_retries P))"
    using native_init_session_handshakes[of P N host port 1 s1] se by (auto simp: retries_left_def max_def)
  ultimately show "count is_handshake (conn_of c) \<le> nat (max 1 (num_retries P))" using c by auto
qed

section \<open>Disconnecting\<close>

text \<open>
  \<open>_disconnect\<close> of both clients.  Nothing is raised; the native client leaves neither a session nor
  a socket, the ssh-python one keeps its session.
\<close>

definition shut_quietly :: "net \<Rightarrow> conn \<Rightarrow> conn" where
  "shut_quietly N s =
     (if sock s \<noteq> None \<and> \<not> closed_at N (history s)
      then let s1 = emit Shutdown s in if shutdown_raises N (history s1) then s1 else emit Detach s1
      else s)"

definition native_disconnect :: "net \<Rightarrow> conn \<Rightarrow> conn" where
  "native_disconnect N s = (shut_quietly N ((disconnect_eagain N s)\<lparr>session := False\<rparr>))\<lparr>sock := None\<rparr>"

definition ssh_disconnect :: "net \<Rightarrow> conn \<Rightarrow> conn" where
  "ssh_disconnect N s = (if session s then shut_quietly N s else s)\<lparr>sock := None\<rparr>"

lemma disconnect_again:
  "native_disconnect N (native_disconnect N s) = native_disconnect N s"
  "ssh_disconnect N (ssh_disconnect N s) = ssh_disconnect N s"
  by (simp_all add: native_disconnect_def ssh_disconnect_def shut_quietly_def disconnect_eagain_def
      emit_def Let_def)

lemma native_client_ready:
  assumes "resolves N" "native_client_init P N A E ka host port new_client = (Inr (), c)"
  shows "client_ready N E c"
proof -
  from assms(2) obtain x y s1 s2 h where i: "connect P N host port 1 (conn_of new_client) = (Inr x, s1)"
    "native_init_session P N host port 1 s1 = (Inr y, s2)"
    "auth_retry A (native_auth A E) 1 (auth_log new_client) = (Inr (), h)"
    "c = new_client\<lparr>conn_of := s2, auth_log := h, keepalive_greenlet := ka \<noteq> 0, blocking := False\<rparr>"
    unfolding native_client_init_def by (rule client_initE)
  from connect_succeeds[OF assms(1), of P host port 1 "conn_of new_client"] i(1)
  have "sock s1 \<noteq> None" by (simp add: connected_now_def)
  with native_session_up[OF assms(1)] i(2) have "session_up N s2" by simp
  with auth_retry_accepted[OF sound_native_auth i(3)] i(4) show ?thesis by (simp add: client_ready_def)
qed

lemma ssh_client_ready:
  assumes "resolves N" "ssh_client_init P N A E host port new_client = (Inr (), c)"
  shows "client_ready N E c"
proof -
  from assms(2) obtain x y s1 s2 h where i: "connect P N host port 1 (conn_of new_client) = (Inr x, s1)"
    "ssh_init_session P N host port 1 s1 = (Inr y, s2)"
    "auth_retry A (ssh_auth A E) 1 (auth_log new_client) = (Inr (), h)"
    "c = new_client\<lparr>conn_of := s2, auth_log := h, keepalive_greenlet := False, blocking := False\<rparr>"
    unfolding ssh_client_init_def by (rule client_initE)
  from connect_succeeds[OF assms(1), of P host port 1 "conn_of new_client"] i(1)
  have "sock s1 \<noteq> None" by (simp add: connected_now_def)
  with ssh_session_up[OF assms(1)] i(2) have "session_up N s2" by simp
  with auth_retry_accepted[OF sound_ssh_auth i(3)] i(4) show ?thesis by (simp add: client_ready_def)
qed

section \<open>Properties\<close>

text \<open>
  When the constructor of either client returns, its socket is connected, the last handshake on
  it was answered, the last authentication the client asked for was accepted, and the session is in
  non-blocking mode, whatever failed and was retried on the way.
\<close>
theorem constructed_client_is_ready:
  assumes "resolves N"
    "native_client_init P N A E ka host port new_client = (Inr (), c) \<or>
     ssh_client_init P N A E host port new_client = (Inr (), c)"
  shows "client_ready N E c"
  using assms native_client_ready ssh_client_ready by blast

text \<open>A network, a server and a user for the example: the second handshake and the second password succeed.\<close>

definition shaky :: net where
  "shaky = (one_host (\<lambda>h. Connected))\<lparr>shaker :=
     \<lambda>h. if length (filter is_handshake h) < 2 then HandshakeError ''x'' else Shaken\<rparr>"

definition example_user :: auth_params where
  "example_user = \<lparr>auth_host = ''h'', auth_port = 22, user = ''u'', password = Some ''p'', pkey = NoKey,
     allow_agent = True, identity_auth_on = True, keyboard_interactive = False, auth_retries = 3,
     identities = [''a'', ''b''], cert_file = None, gssapi_auth = False, gssapi_server_identity = False,
     gssapi_client_identity = False\<rparr>"

definition example_server :: auth_env where
  "example_server = \<lparr>answer = \<lambda>h. if length (filter is_password h) < 2 then Some (OtherError ''no'') else None,
     is_file = \<lambda>f. f = ''b'', read_file = \<lambda>f. Inr f\<rparr>"

theorem constructed_client_is_ready_witness:
  "client_ready shaky example_server
     (snd (native_client_init (params 3) shaky example_user example_server 60 ''h'' 22 new_client))"
proof -
  have "resolves shaky" by (simp add: shaky_def one_host_def resolves_def)
  moreover have "fst (native_client_init (params 3) shaky example_user example_server 60 ''h'' 22 new_client) = Inr ()"
    by code_simp
  ultimately show ?thesis
    using constructed_client_is_ready[of shaky "params 3" example_user example_server 60 "''h''" 22]
    by (metis prod.collapse)
qed

end
