(* ===== verification/Polling.thy ===== *)
theory Polling
  imports Prelude "HOL-Library.Word"
begin

text \<open>
  Cooperative polling: \<open>PollMixIn\<close> and \<open>Stdin\<close> of \<open>pssh/clients/base/single.py\<close>.  The session
  and channel functions that may answer EAGAIN belong to libssh2 and libssh: a \<open>script\<close> says
  what each of their calls does, as a function of the number of the call.  The loops themselves
  are the code's, over any function.
\<close>

unbundle bit_operations_syntax

section \<open>Polling the socket\<close>

text \<open>
  The events polled for, from the directions the session waits in; \<open>None\<close> is the early return.
  A socket that is \<open>None\<close> is not polled.
\<close>

definition poll_errcodes :: "int \<Rightarrow> int \<Rightarrow> int \<Rightarrow> int \<Rightarrow> int \<Rightarrow> int option" where
  "poll_errcodes POLLIN POLLOUT directions inbound outbound =
     (if directions = 0 then None
      else let events = 0;
               events = (if directions AND inbound \<noteq> 0 then POLLIN else events);
               events = (if directions AND outbound \<noteq> 0 then events OR POLLOUT else events)
           in Some events)"

definition poll_socket :: "'sock option \<Rightarrow> int \<Rightarrow> ('sock \<times> int \<times> nat) list" where
  "poll_socket sock events = (case sock of None \<Rightarrow> [] | Some s \<Rightarrow> [(s, events, 1)])"

definition poll_session ::
  "int \<Rightarrow> int \<Rightarrow> 'sock option \<Rightarrow> int \<Rightarrow> int \<Rightarrow> int \<Rightarrow> ('sock \<times> int \<times> nat) list" where
  "poll_session POLLIN POLLOUT sock directions inbound outbound =
     (case poll_errcodes POLLIN POLLOUT directions inbound outbound of
        None \<Rightarrow> [] | Some events \<Rightarrow> poll_socket sock events)"

lemma poll_no_direction: "poll_session pin pout sock 0 i out = []"
  by (simp add: poll_session_def poll_errcodes_def)

lemma poll_no_sock: "poll_session pin pout None d i out = []"
  by (simp add: poll_session_def poll_socket_def split: option.split)

section \<open>The EAGAIN loop\<close>

partial_function (option) eagain_loop ::
  "('s, 'e, 'r) prog \<Rightarrow> 'r \<Rightarrow> ('s, 'e, unit) prog \<Rightarrow> ('s, 'e, unit) prog \<Rightarrow> 'r \<Rightarrow> 's
     \<Rightarrow> (('e + 'r) \<times> 's) option" where
  "eagain_loop func eagain poll sleep ret s =
     (if ret = eagain
      then (case poll s of
              (Inl e, s1) \<Rightarrow> Some (Inl e, s1)
            | (Inr _, s1) \<Rightarrow>
               (case func s1 of
                  (Inl e, s2) \<Rightarrow> Some (Inl e, s2)
                | (Inr ret', s2) \<Rightarrow>
                   (case sleep s2 of
                      (Inl e, s3) \<Rightarrow> Some (Inl e, s3)
                    | (Inr _, s3) \<Rightarrow> eagain_loop func eagain poll sleep ret' s3)))
      else Some (Inr ret, s))"

definition eagain_errcode ::
  "('s, 'e, 'r) prog \<Rightarrow> 'r \<Rightarrow> ('s, 'e, unit) prog \<Rightarrow> ('s, 'e, unit) prog \<Rightarrow> 's
     \<Rightarrow> (('e + 'r) \<times> 's) option" where
  "eagain_errcode func eagain poll sleep s =
     (case func s of
        (Inl e, s1) \<Rightarrow> Some (Inl e, s1)
      | (Inr ret, s1) \<Rightarrow> eagain_loop func eagain poll sleep ret s1)"

section \<open>The write loop\<close>

partial_function (option) eagain_write_loop ::
  "(bytes \<Rightarrow> ('s, 'e, int \<times> nat) prog) \<Rightarrow> ('s, 'e, unit) prog \<Rightarrow> ('s, 'e, unit) prog \<Rightarrow> int
     \<Rightarrow> bytes \<Rightarrow> nat \<Rightarrow> 's \<Rightarrow> (('e + unit) \<times> 's) option" where
  "eagain_write_loop write_func poll sleep eagain data total_written s =
     (if total_written < length data
      then (case write_func (drop total_written data) s of
              (Inl e, s1) \<Rightarrow> Some (Inl e, s1)
            | (Inr (rc, bytes_written), s1) \<Rightarrow>
               (case (if rc = eagain then poll s1 else (Inr (), s1)) of
                  (Inl e, s2) \<Rightarrow> Some (Inl e, s2)
                | (Inr _, s2) \<Rightarrow>
                   (case sleep s2 of
                      (Inl e, s3) \<Rightarrow> Some (Inl e, s3)
                    | (Inr _, s3) \<Rightarrow>
                        eagain_write_loop write_func poll sleep eagain data
                          (total_written + bytes_written) s3)))
      else Some (Inr (), s))"

definition eagain_write_errcode ::
  "(bytes \<Rightarrow> ('s, 'e, int \<times> nat) prog) \<Rightarrow> ('s, 'e, unit) prog \<Rightarrow> ('s, 'e, unit) prog \<Rightarrow> bytes
     \<Rightarrow> int \<Rightarrow> 's \<Rightarrow> (('e + unit) \<times> 's) option" where
  "eagain_write_errcode write_func poll sleep data eagain s =
     eagain_write_loop write_func poll sleep eagain data 0 s"

section \<open>A peer that follows a script\<close>

text \<open>
  What the calls leave behind: how many were made, how often the socket was polled, how often the
  greenlet slept, and the bytes the other side took, in order.
\<close>

record peer =
  calls :: nat
  polls :: nat
  sleeps :: nat
  taken :: bytes

definition fresh_peer :: peer where
  "fresh_peer = \<lparr>calls = 0, polls = 0, sleeps = 0, taken = []\<rparr>"

definition ask :: "(nat \<Rightarrow> 'e + 'r) \<Rightarrow> (peer, 'e, 'r) prog" where
  "ask script s = (script (calls s), s\<lparr>calls := Suc (calls s)\<rparr>)"

definition count_poll :: "(peer, 'e, unit) prog" where
  "count_poll = update (\<lambda>s. s\<lparr>polls := Suc (polls s)\<rparr>)"

definition count_sleep :: "(peer, 'e, unit) prog" where
  "count_sleep = update (\<lambda>s. s\<lparr>sleeps := Suc (sleeps s)\<rparr>)"

text \<open>
  A write raises, or returns a code and the number of bytes it took off the front, at most all of
  them.
\<close>

definition ask_write :: "(nat \<Rightarrow> 'e + int \<times> nat) \<Rightarrow> bytes \<Rightarrow> (peer, 'e, int \<times> nat) prog" where
  "ask_write script data s =
     (case script (calls s) of
        Inl e \<Rightarrow> (Inl e, s\<lparr>calls := Suc (calls s)\<rparr>)
      | Inr (rc, n) \<Rightarrow>
          (Inr (rc, min n (length data)),
           s\<lparr>calls := Suc (calls s), taken := taken s @ take n data\<rparr>))"

lemma count_poll_apply: "count_poll s = (Inr (), s\<lparr>polls := Suc (polls s)\<rparr>)"
  by (simp add: count_poll_def)

lemma count_sleep_apply: "count_sleep s = (Inr (), s\<lparr>sleeps := Suc (sleeps s)\<rparr>)"
  by (simp add: count_sleep_def)

lemmas peer_steps = ask_def ask_write_def count_poll_apply count_sleep_apply

section \<open>The EAGAIN loop ends with the first other answer\<close>

lemma eagain_loop_no_eagain:
  "eagain_loop func eagain poll sleep ret s = Some (Inr r, s') \<Longrightarrow> r \<noteq> eagain"
proof (rule eagain_loop.raw_induct[where P = "\<lambda>_ eagain _ _ _ _ res. \<forall>r s'. res = (Inr r, s') \<longrightarrow> r \<noteq> eagain",
      THEN spec, THEN spec, THEN mp])
  fix loop :: "('s, 'e, 'r) prog \<Rightarrow> 'r \<Rightarrow> ('s, 'e, unit) prog \<Rightarrow> ('s, 'e, unit) prog \<Rightarrow> 'r \<Rightarrow> 's
     \<Rightarrow> (('e + 'r) \<times> 's) option" and func eagain poll sleep ret s res
  assume "\<And>func eagain poll sleep ret s res. loop func eagain poll sleep ret s = Some res \<Longrightarrow>
      \<forall>r s'. res = (Inr r, s') \<longrightarrow> r \<noteq> eagain"
    and "(if ret = eagain
      then (case poll s of
              (Inl e, s1) \<Rightarrow> Some (Inl e, s1)
            | (Inr _, s1) \<Rightarrow>
               (case func s1 of
                  (Inl e, s2) \<Rightarrow> Some (Inl e, s2)
                | (Inr ret', s2) \<Rightarrow>
                   (case sleep s2 of
                      (Inl e, s3) \<Rightarrow> Some (Inl e, s3)
                    | (Inr _, s3) \<Rightarrow> loop func eagain poll sleep ret' s3)))
      else Some (Inr ret, s)) = Some res"
  then show "\<forall>r s'. res = (Inr r, s') \<longrightarrow> r \<noteq> eagain"
    by (fastforce split: if_splits prod.splits sum.splits)
qed auto

lemma eagain_errcode_no_eagain:
  "eagain_errcode func eagain poll sleep s = Some (Inr r, s') \<Longrightarrow> r \<noteq> eagain"
  by (auto simp: eagain_errcode_def dest: eagain_loop_no_eagain split: prod.splits sum.splits)

text \<open>Against a script: \<open>n\<close> times EAGAIN, then anything else.\<close>

lemma eagain_loop_script:
  assumes "\<And>k. k < n \<Longrightarrow> script (calls s + k) = Inr eagain"
    and "script (calls s + n) \<noteq> Inr eagain"
  shows "eagain_loop (ask script) eagain count_poll count_sleep eagain s =
    Some (script (calls s + n),
      s\<lparr>calls := calls s + n + 1, polls := polls s + n + 1,
        sleeps := sleeps s + (if isl (script (calls s + n)) then n else n + 1)\<rparr>)"
  using assms
proof (induction n arbitrary: s)
  case 0
  then show ?case
    by (subst eagain_loop.simps)
      (auto simp: peer_steps eagain_loop.simps split: sum.split)
next
  case (Suc n)
  let ?s = "s\<lparr>polls := Suc (polls s), calls := Suc (calls s), sleeps := Suc (sleeps s)\<rparr>"
  have "eagain_loop (ask script) eagain count_poll count_sleep eagain s =
    eagain_loop (ask script) eagain count_poll count_sleep eagain ?s"
    using Suc.prems(1)[of 0] by (subst eagain_loop.simps) (simp add: peer_steps)
  moreover have "script (calls ?s + k) = Inr eagain" if "k < n" for k
    using Suc.prems(1)[of "Suc k"] that by simp
  moreover have "script (calls ?s + n) \<noteq> Inr eagain" using Suc.prems(2) by simp
  ultimately show ?case using Suc.IH[of ?s] by (simp only: peer.simps add_Suc_right add_Suc) simp
qed

lemma eagain_errcode_script:
  assumes "\<And>k. k < n \<Longrightarrow> script (calls s + k) = Inr eagain"
    and "script (calls s + n) \<noteq> Inr eagain"
  shows "eagain_errcode (ask script) eagain count_poll count_sleep s =
    Some (script (calls s + n),
      s\<lparr>calls := calls s + n + 1, polls := polls s + n,
        sleeps := sleeps s + (if isl (script (calls s + n)) then n - 1 else n)\<rparr>)"
proof (cases n)
  case 0
  with assms(2) show ?thesis
    by (auto simp: eagain_errcode_def ask_def eagain_loop.simps split: sum.split)
next
  case (Suc m)
  let ?s = "s\<lparr>calls := Suc (calls s)\<rparr>"
  have "script (calls ?s + k) = Inr eagain" if "k < m" for k
    using assms(1)[of "Suc k"] Suc that by simp
  moreover have "script (calls ?s + m) \<noteq> Inr eagain" using assms(2) Suc by simp
  ultimately have "eagain_loop (ask script) eagain count_poll count_sleep eagain ?s =
    Some (script (calls ?s + m),
      ?s\<lparr>calls := calls ?s + m + 1, polls := polls ?s + m + 1,
        sleeps := sleeps ?s + (if isl (script (calls ?s + m)) then m else m + 1)\<rparr>)"
    by (rule eagain_loop_script)
  with assms(1)[of 0] Suc show ?thesis by (simp add: eagain_errcode_def ask_def)
qed

text \<open>A function that always answers EAGAIN is called forever.\<close>

lemma eagain_loop_forever:
  assumes "\<And>k. script k = Inr eagain"
  shows "eagain_loop (ask script) eagain count_poll count_sleep eagain s = None"
proof (rule ccontr)
  assume "eagain_loop (ask script) eagain count_poll count_sleep eagain s \<noteq> None"
  then obtain res where "eagain_loop (ask script) eagain count_poll count_sleep eagain s = Some res"
    by blast
  then have "\<exists>k. script k \<noteq> Inr eagain"
  proof (rule eagain_loop.raw_induct[where P = "\<lambda>func eg poll sleep ret s res.
        func = ask script \<longrightarrow> poll = count_poll \<longrightarrow> sleep = count_sleep \<longrightarrow> eg = eagain \<longrightarrow> ret = eagain \<longrightarrow>
        (\<exists>k. script k \<noteq> Inr eagain)", THEN mp, THEN mp, THEN mp, THEN mp, THEN mp, rotated])
    fix loop :: "(peer, 'a, 'b) prog \<Rightarrow> 'b \<Rightarrow> (peer, 'a, unit) prog \<Rightarrow> (peer, 'a, unit) prog \<Rightarrow> 'b
       \<Rightarrow> peer \<Rightarrow> (('a + 'b) \<times> peer) option" and func eg poll sleep ret s res
    assume IH: "\<And>func eg poll sleep ret s res. loop func eg poll sleep ret s = Some res \<Longrightarrow>
        func = ask script \<longrightarrow> poll = count_poll \<longrightarrow> sleep = count_sleep \<longrightarrow> eg = eagain \<longrightarrow> ret = eagain \<longrightarrow>
        (\<exists>k. script k \<noteq> Inr eagain)"
      and eq: "(if ret = eg
        then (case poll s of
                (Inl e, s1) \<Rightarrow> Some (Inl e, s1)
              | (Inr _, s1) \<Rightarrow>
                 (case func s1 of
                    (Inl e, s2) \<Rightarrow> Some (Inl e, s2)
                  | (Inr ret', s2) \<Rightarrow>
                     (case sleep s2 of
                        (Inl e, s3) \<Rightarrow> Some (Inl e, s3)
                      | (Inr _, s3) \<Rightarrow> loop func eg poll sleep ret' s3)))
        else Some (Inr ret, s)) = Some res"
    show "func = ask script \<longrightarrow> poll = count_poll \<longrightarrow> sleep = count_sleep \<longrightarrow> eg = eagain \<longrightarrow> ret = eagain \<longrightarrow>
        (\<exists>k. script k \<noteq> Inr eagain)"
    proof (intro impI)
      assume *: "func = ask script" "poll = count_poll" "sleep = count_sleep" "eg = eagain" "ret = eagain"
      from eq[unfolded *] have "loop (ask script) eagain count_poll count_sleep eagain
          (s\<lparr>polls := Suc (polls s), calls := Suc (calls s), sleeps := Suc (sleeps s)\<rparr>) = Some res"
        by (simp add: peer_steps assms)
      from IH[OF this] show "\<exists>k. script k \<noteq> Inr eagain" by simp
    qed
  qed simp_all
  with assms show False by blast
qed

section \<open>The write loop hands every byte over once, in order\<close>

text \<open>One turn of the write loop, with the number of bytes that were taken.\<close>

definition write_turn ::
  "(bytes \<Rightarrow> ('s, 'e, int \<times> nat) prog) \<Rightarrow> ('s, 'e, unit) prog \<Rightarrow> ('s, 'e, unit) prog \<Rightarrow> int \<Rightarrow> bytes
     \<Rightarrow> ('s, 'e, nat) prog" where
  "write_turn write_func poll sleep eagain d =
     bind (write_func d) (\<lambda>(rc, n). andthen (if rc = eagain then poll else return ()) (andthen sleep (return n)))"

lemma write_turn_body:
  "(case write_func d s of
      (Inl e, s1) \<Rightarrow> Some (Inl e, s1)
    | (Inr (rc, n), s1) \<Rightarrow>
       (case (if rc = eagain then poll s1 else (Inr (), s1)) of
          (Inl e, s2) \<Rightarrow> Some (Inl e, s2)
        | (Inr _, s2) \<Rightarrow>
           (case sleep s2 of
              (Inl e, s3) \<Rightarrow> Some (Inl e, s3)
            | (Inr _, s3) \<Rightarrow> go_on n s3))) =
   (case write_turn write_func poll sleep eagain d s of
      (Inl e, s1) \<Rightarrow> Some (Inl e, s1) | (Inr n, s1) \<Rightarrow> go_on n s1)"
  by (auto simp: write_turn_def bind_def return_def split: sum.split prod.split)

lemma write_loop_turns:
  "eagain_write_loop write_func poll sleep eagain data done_so_far s =
     (if done_so_far < length data
      then (case write_turn write_func poll sleep eagain (drop done_so_far data) s of
              (Inl e, s1) \<Rightarrow> Some (Inl e, s1)
            | (Inr n, s1) \<Rightarrow> eagain_write_loop write_func poll sleep eagain data (done_so_far + n) s1)
      else Some (Inr (), s))"
  unfolding write_turn_body[symmetric] by (subst eagain_write_loop.simps) (rule refl)

text \<open>Induction on the turns of a loop that returns.\<close>

lemma write_loop_induct [consumes 1, case_names finished raised turn]:
  assumes "eagain_write_loop write_func poll sleep eagain data done_so_far s = Some res"
    and finished: "\<And>i s. \<not> i < length data \<Longrightarrow> Q i s (Inr (), s)"
    and raised: "\<And>i s e s1. i < length data \<Longrightarrow>
      write_turn write_func poll sleep eagain (drop i data) s = (Inl e, s1) \<Longrightarrow> Q i s (Inl e, s1)"
    and turn: "\<And>i s n s1 res. i < length data \<Longrightarrow>
      write_turn write_func poll sleep eagain (drop i data) s = (Inr n, s1) \<Longrightarrow> Q (i + n) s1 res \<Longrightarrow> Q i s res"
  shows "Q done_so_far s res"
proof (rule eagain_write_loop.raw_induct[where P = "\<lambda>w p sl eg d i s res.
      w = write_func \<longrightarrow> p = poll \<longrightarrow> sl = sleep \<longrightarrow> eg = eagain \<longrightarrow> d = data \<longrightarrow> Q i s res",
      OF _ assms(1), rule_format, OF _ refl refl refl refl refl], goal_cases)
  case (1 loop w p sl eg d i s res)
  note IH = "1"(1)[rule_format, OF _ refl refl refl refl refl]
  have "(if i < length data
      then (case write_turn write_func poll sleep eagain (drop i data) s of
              (Inl e, s1) \<Rightarrow> Some (Inl e, s1)
            | (Inr n, s1) \<Rightarrow> loop write_func poll sleep eagain data (i + n) s1)
      else Some (Inr (), s)) = Some res"
    unfolding write_turn_body[symmetric] by (rule "1"(2)[unfolded "1"(3-7)])
  then show ?case
    by (auto split: if_splits prod.splits sum.splits intro: finished raised turn IH)
qed

text \<open>
  A sink of bytes: a write takes a prefix of what it is given, or raises and takes nothing;
  polling and sleeping take nothing.  \<open>InteractiveShell.run\<close>, \<open>sftp_put\<close>, \<open>scp_send\<close> and the
  tunnel hand their data to the write loop over such a sink.
\<close>

locale byte_sink =
  fixes write_func :: "bytes \<Rightarrow> ('s, 'e, int \<times> nat) prog"
    and poll_step :: "('s, 'e, unit) prog"
    and sleep_step :: "('s, 'e, unit) prog"
    and sunk :: "'s \<Rightarrow> bytes"
  assumes write_takes: "write_func d s = (Inr (rc, n), s') \<Longrightarrow> n \<le> length d \<and> sunk s' = sunk s @ take n d"
    and write_raises: "write_func d s = (Inl e, s') \<Longrightarrow> sunk s' = sunk s"
    and poll_takes: "sunk (snd (poll_step s)) = sunk s"
    and sleep_takes: "sunk (snd (sleep_step s)) = sunk s"
begin

text \<open>
  Whatever the loop does, the sink has a prefix of the data; if it returns without raising, all
  of it.
\<close>

definition handed_over :: "'s \<Rightarrow> bytes \<Rightarrow> ('e + unit) \<times> 's \<Rightarrow> bool" where
  "handed_over s d res \<longleftrightarrow>
     (\<exists>k \<le> length d. sunk (snd res) = sunk s @ take k d \<and> (fst res = Inr () \<longrightarrow> k = length d))"

lemma handed_over_step:
  assumes "sunk s1 = sunk s @ take n d" "n \<le> length d" "handed_over s1 (drop n d) res"
  shows "handed_over s d res"
proof -
  from assms(3) obtain k where k: "k \<le> length d - n" "sunk (snd res) = sunk s1 @ take k (drop n d)"
    "fst res = Inr () \<Longrightarrow> k = length d - n"
    by (auto simp: handed_over_def)
  from k assms(1,2) have "sunk (snd res) = sunk s @ take (n + k) d"
    by (simp add: take_add)
  with k assms(2) show ?thesis
    unfolding handed_over_def by (intro exI[of _ "n + k"]) auto
qed

lemma handed_over_raise: "sunk s' = sunk s @ take n d \<Longrightarrow> n \<le> length d \<Longrightarrow> handed_over s d (Inl e, s')"
  by (auto simp: handed_over_def)

lemma turn_takes:
  assumes "write_turn write_func poll_step sleep_step eagain d s = (r, s1)"
  shows "\<exists>k \<le> length d. sunk s1 = sunk s @ take k d \<and> (\<forall>n. r = Inr n \<longrightarrow> k = n)"
proof (cases "write_func d s")
  case (Pair v s0)
  have quiet: "sunk (snd (poll_step s)) = sunk s" "sunk (snd (sleep_step s)) = sunk s" for s
    by (rule poll_takes sleep_takes)+
  show ?thesis
  proof (cases v)
    case (Inl e)
    with assms Pair write_raises[of d s e s0] show ?thesis by (auto simp: write_turn_def intro: exI[of _ 0])
  next
    case (Inr x)
    obtain rc n where x: "x = (rc, n)" by force
    with write_takes[of d s rc n s0] Pair Inr have n: "n \<le> length d" "sunk s0 = sunk s @ take n d" by simp_all
    have "sunk s1 = sunk s0 \<and> (\<forall>m. r = Inr m \<longrightarrow> m = n)"
      using assms Pair Inr x quiet(1)[of s0] quiet(2)[of s0] quiet(2)[of "snd (poll_step s0)"]
      by (auto simp: write_turn_def bind_def return_def split: prod.splits sum.splits if_splits)
    with n show ?thesis by auto
  qed
qed

lemma write_loop_hands_over:
  assumes "eagain_write_loop write_func poll_step sleep_step eagain data done_so_far s = Some res"
    and "done_so_far \<le> length data"
  shows "handed_over s (drop done_so_far data) res"
  using assms
proof (induction rule: write_loop_induct)
  case (finished i s)
  then show ?case by (simp add: handed_over_def)
next
  case (raised i s e s1)
  from turn_takes[OF raised(2)] show ?case by (auto intro: handed_over_raise)
next
  case (turn i s n s1 res)
  from turn_takes[OF turn(2)] have n: "n \<le> length (drop i data)" "sunk s1 = sunk s @ take n (drop i data)" by auto
  with turn have "handed_over s1 (drop n (drop i data)) res" by (simp add: add.commute)
  with n show ?case by (blast intro: handed_over_step)
qed

lemma write_errcode_prefix:
  "eagain_write_errcode write_func poll_step sleep_step data eagain s = Some (r, s') \<Longrightarrow>
    \<exists>k \<le> length data. sunk s' = sunk s @ take k data"
  using write_loop_hands_over[of eagain data 0 s "(r, s')"]
  by (auto simp: eagain_write_errcode_def handed_over_def)

lemma write_errcode_all:
  "eagain_write_errcode write_func poll_step sleep_step data eagain s = Some (Inr (), s') \<Longrightarrow>
    sunk s' = sunk s @ data"
  using write_loop_hands_over[of eagain data 0 s "(Inr (), s')"]
  by (auto simp: eagain_write_errcode_def handed_over_def)

end

interpretation peer_sink: byte_sink "ask_write script" count_poll count_sleep taken
  for script :: "nat \<Rightarrow> 'e + int \<times> nat"
  by unfold_locales (auto simp: peer_steps min_def split: sum.splits prod.splits if_splits)

text \<open>
  The loop returns against every peer that, from any call on, sooner or later takes a byte or
  raises.
\<close>

definition responsive :: "(nat \<Rightarrow> 'e + int \<times> nat) \<Rightarrow> bool" where
  "responsive script \<longleftrightarrow> (\<forall>k. \<exists>j \<ge> k. \<forall>rc. script j \<noteq> Inr (rc, 0))"

lemma peer_turn:
  "write_turn (ask_write script) count_poll count_sleep eagain d s =
     (case script (calls s) of
        Inl e \<Rightarrow> (Inl e, s\<lparr>calls := Suc (calls s)\<rparr>)
      | Inr (rc, n) \<Rightarrow>
          (Inr (min n (length d)),
           s\<lparr>calls := Suc (calls s), taken := taken s @ take n d,
             polls := (if rc = eagain then Suc (polls s) else polls s), sleeps := Suc (sleeps s)\<rparr>))"
  by (simp add: write_turn_def bind_def return_def peer_steps split: sum.split prod.split)

lemma write_loop_returns:
  assumes "responsive script" "done_so_far \<le> length data"
  shows "\<exists>res. eagain_write_loop (ask_write script) count_poll count_sleep eagain data done_so_far s = Some res"
  using assms(2)
proof (induction "length data - done_so_far" arbitrary: done_so_far s rule: less_induct)
  case outer: less
  from assms(1) obtain j where "calls s \<le> j" "\<And>rc. script j \<noteq> Inr (rc, 0)"
    by (auto simp: responsive_def)
  then show ?case
  proof (induction "j - calls s" arbitrary: s rule: less_induct)
    case inner: less
    let ?t = "write_turn (ask_write script) count_poll count_sleep eagain (drop done_so_far data) s"
    show ?case
    proof (cases "done_so_far < length data \<and> \<not> isl (fst ?t)")
      case False
      then show ?thesis by (cases ?t; cases "fst ?t") (auto simp: write_loop_turns[of _ _ _ _ data done_so_far s])
    next
      case True
      then obtain n s3 where t: "?t = (Inr n, s3)" by (cases ?t; cases "fst ?t") auto
      then have turn: "n \<le> length data - done_so_far" "calls s3 = Suc (calls s)"
        "n = 0 \<Longrightarrow> \<exists>rc. script (calls s) = Inr (rc, 0)"
        using True by (auto simp: peer_turn split: sum.splits prod.splits)
      have "\<exists>res. eagain_write_loop (ask_write script) count_poll count_sleep eagain data (done_so_far + n) s3 = Some res"
      proof (cases "n = 0")
        case zero: True
        with inner.prems turn(3) have "calls s < j" by (metis le_neq_implies_less)
        with turn(2) inner.prems(2) show ?thesis using inner.hyps[of s3] by (simp add: zero)
      next
        case False
        with True turn(1) show ?thesis by (intro outer.hyps) auto
      qed
      with t True show ?thesis by (simp add: write_loop_turns[of _ _ _ _ data done_so_far s])
    qed
  qed
qed

section \<open>Stdin\<close>

text \<open>
  \<open>Stdin.write\<close> passes the channel's \<open>write\<close> to the EAGAIN loop.  That function returns a pair,
  as its other callers unpack it, and the loop compares what it returns with an error code.
\<close>

datatype chan_ret = Code int | WrotePair int nat

definition ask_stdin :: "(nat \<Rightarrow> 'e + int \<times> nat) \<Rightarrow> bytes \<Rightarrow> (peer, 'e, chan_ret) prog" where
  "ask_stdin script data = bind (ask_write script data) (\<lambda>(rc, n). return (WrotePair rc n))"

definition stdin_write :: "(nat \<Rightarrow> 'e + int \<times> nat) \<Rightarrow> int \<Rightarrow> bytes \<Rightarrow> peer \<Rightarrow> (('e + chan_ret) \<times> peer) option" where
  "stdin_write script eagain data = eagain_errcode (ask_stdin script data) (Code eagain) count_poll count_sleep"

definition stdin_flush ::
  "(nat \<Rightarrow> 'e + int) option \<Rightarrow> int \<Rightarrow> peer \<Rightarrow> (('e + int option) \<times> peer) option" where
  "stdin_flush flush eagain s =
     (case flush of
        None \<Rightarrow> Some (Inr None, s)
      | Some script \<Rightarrow>
          map_option (\<lambda>(r, s'). (map_sum id Some r, s')) (eagain_errcode (ask script) eagain count_poll count_sleep s))"

lemma stdin_write_once:
  "stdin_write script eagain data s = Some (ask_stdin script data s)"
  by (auto simp: stdin_write_def eagain_errcode_def eagain_loop.simps ask_stdin_def bind_def
      ask_write_def split: sum.splits prod.splits)

section \<open>Properties\<close>

text \<open>
  \<open>_eagain_errcode\<close> calls a non-blocking function until it no longer asks to be called again.
  When the first \<open>n\<close> answers are EAGAIN and the next is not, it makes \<open>n + 1\<close> calls, polls the
  socket before each repeated one and gives that answer, a raised exception included.
\<close>
theorem eagain_errcode_answer:
  assumes "\<And>k. k < n \<Longrightarrow> script k = Inr eagain" "script n \<noteq> Inr eagain"
  shows "\<exists>k. eagain_errcode (ask script) eagain count_poll count_sleep fresh_peer =
     Some (script n, \<lparr>calls = n + 1, polls = n, sleeps = k, taken = []\<rparr>)"
  using eagain_errcode_script[of n script fresh_peer eagain] assms by (simp add: fresh_peer_def)

theorem eagain_errcode_answer_witness:
  "\<exists>k. eagain_errcode (ask (\<lambda>k. if k < 2 then Inr (-37) else (Inr 7 :: unit + int)))
     (-37) count_poll count_sleep fresh_peer =
     Some (Inr 7, \<lparr>calls = 3, polls = 2, sleeps = k, taken = []\<rparr>)"
  using eagain_errcode_answer[of 2 "\<lambda>k. if k < 2 then Inr (-37) else (Inr 7 :: unit + int)" "-37"]
  by simp

text \<open>
  C7: When the remote end takes bytes again and again, \<open>_eagain_write_errcode\<close> returns; what the
  remote end was handed is a prefix of the data, and all of it, once and in order, when the write
  returns without an exception, whatever the sizes of the partial writes.
\<close>
theorem eagain_write_hands_over_all:
  assumes "responsive script"
  shows "\<exists>r s'. eagain_write_errcode (ask_write script) count_poll count_sleep data eagain s = Some (r, s') \<and>
     (\<exists>k \<le> length data. taken s' = taken s @ take k data) \<and>
     (r = Inr () \<longrightarrow> taken s' = taken s @ data)"
proof -
  obtain r s' where
    w: "eagain_write_errcode (ask_write script) count_poll count_sleep data eagain s = Some (r, s')"
    using write_loop_returns[OF assms, of 0 data eagain s] by (auto simp: eagain_write_errcode_def)
  with peer_sink.write_errcode_prefix[OF w] peer_sink.write_errcode_all[of script data eagain s s']
  show ?thesis by blast
qed

theorem eagain_write_hands_over_all_witness:
  "\<exists>r s'. eagain_write_errcode (ask_write (\<lambda>k. Inr (if even k then -37 else 2, if even k then 0 else 2) :: unit + int \<times> nat))
       count_poll count_sleep ''abc'' (-37) fresh_peer = Some (r, s') \<and>
     (\<exists>k \<le> length ''abc''. taken s' = take k ''abc'') \<and> (r = Inr () \<longrightarrow> taken s' = ''abc'')"
proof -
  let ?w = "\<lambda>k. Inr (if even k then -37 else 2, if even k then 0 else 2) :: unit + int \<times> nat"
  have "\<exists>j \<ge> k. \<forall>rc. ?w j \<noteq> Inr (rc, 0)" for k :: nat
    by (rule exI[of _ "2 * k + 1"]) simp
  then have "responsive ?w" unfolding responsive_def by blast
  from eagain_write_hands_over_all[OF this, of "''abc''" "-37" fresh_peer] show ?thesis
    by (simp add: fresh_peer_def)
qed

text \<open>
  \<open>Stdin.write\<close> hands \<open>channel.write\<close> to the loop for functions that return an error code, and
  \<open>channel.write\<close> returns a pair.  It is therefore called exactly once whatever it answers: neither
  an EAGAIN nor the rest of a partial write is tried again.
\<close>
theorem stdin_write_is_never_retried:
  "stdin_write script eagain data s = Some (ask_stdin script data s)"
  by (rule stdin_write_once)

end
