(* ===== verification/Commands.thy ===== *)
theory Commands
  imports Polling Py_Values
begin

text \<open>
  Running a command: \<open>run_command\<close>, \<open>_make_host_output\<close> and \<open>InteractiveShell\<close> of
  \<open>pssh/clients/base/single.py\<close>, \<open>open_session\<close>, \<open>_execute\<close>, \<open>wait_finished\<close>, \<open>close_channel\<close>,
  \<open>get_exit_status\<close> and \<open>finished\<close> of both clients, and \<open>HostOutput\<close> of \<open>pssh/output.py\<close>.

  A call on the session or on a channel goes through \<open>eagain\<close>, whose loop is modelled in
  \<open>Polling\<close>; here it is one event with its final answer, which is a function of all calls so far.
  A timer that fires raises its exception in the call that is waiting, so it is an answer too:
  \<open>GeventTimeout\<close> for a \<open>GTimeout\<close> without an exception of its own, \<open>PsshTimeout\<close> for one with
  \<open>exception=Timeout\<close>.
\<close>

section \<open>The command string\<close>

text \<open>An argument that is \<open>None\<close> or empty counts as not given.\<close>

definition given :: "string option \<Rightarrow> bool" where
  "given arg \<longleftrightarrow> (case arg of None \<Rightarrow> False | Some s \<Rightarrow> s \<noteq> [])"

definition text_of :: "string option \<Rightarrow> string" where
  "text_of arg = (case arg of None \<Rightarrow> [] | Some s \<Rightarrow> s)"

definition command_string :: "string \<Rightarrow> bool \<Rightarrow> string option \<Rightarrow> string option \<Rightarrow> string" where
  "command_string command sudo usr shell =
     (if \<not> sudo \<and> \<not> given usr \<and> \<not> given shell then command
      else let prefix = (if sudo \<and> \<not> given usr then ''sudo -S ''
                         else if given usr then ''sudo -u '' @ text_of usr @ '' -S ''
                         else '''');
               sh = (if given shell then text_of shell else ''$SHELL -c'')
           in prefix @ sh @ '' '' @ [CHR 0x27] @ command @ [CHR 0x27])"

text \<open>
  A POSIX shell reads a word that starts with a single quote up to the next one.  The result is the
  quoted text and what follows it.
\<close>

fun until_quote :: "string \<Rightarrow> (string \<times> string) option" where
  "until_quote [] = None"
| "until_quote (c # cs) =
     (if c = CHR 0x27 then Some ([], cs) else map_option (\<lambda>(w, r). (c # w, r)) (until_quote cs))"

fun single_quoted :: "string \<Rightarrow> (string \<times> string) option" where
  "single_quoted (c # cs) = (if c = CHR 0x27 then until_quote cs else None)"
| "single_quoted [] = None"

lemma until_quote_append:
  "CHR 0x27 \<notin> set s \<Longrightarrow> until_quote (s @ CHR 0x27 # rest) = Some (s, rest)"
  by (induction s) auto

lemma until_quote_first:
  "until_quote (s @ CHR 0x27 # rest) = Some (w, r) \<Longrightarrow> CHR 0x27 \<in> set s \<Longrightarrow> length w < length s"
  by (induction s arbitrary: w) (auto split: if_splits)

section \<open>Calls on the session and the channels\<close>

datatype chan_event =
    NewChannel
  | OpenChannel
  | SetNonBlocking
  | RequestPty
  | Exec bytes
  | RequestShell
  | SpawnReaders
  | SendEof
  | WaitEof
  | JoinReaders
  | Close
  | WaitClosed

datatype chan_error =
    ChanError string
  | SessionErr chan_error
  | GeventTimeout
  | PsshTimeout
  | BadArgument

type_synonym 'a chan_prog = "(chan_event list, chan_error, 'a) prog"

type_synonym chan_env = "chan_event list \<Rightarrow> chan_error option"

definition call :: "chan_env \<Rightarrow> chan_event \<Rightarrow> unit chan_prog" where
  "call R ev = (\<lambda>h. (case R (h @ [ev]) of None \<Rightarrow> Inr () | Some e \<Rightarrow> Inl e, h @ [ev]))"

text \<open>
  The exceptions that \<open>except Exception\<close> catches: the timeout of gevent is a \<open>BaseException\<close>.
\<close>

definition is_exception :: "chan_error \<Rightarrow> bool" where
  "is_exception e \<longleftrightarrow> e \<noteq> GeventTimeout"

definition wrap_session_error :: "unit chan_prog \<Rightarrow> unit chan_prog" where
  "wrap_session_error m = attempt m (\<lambda>ex. throw (if is_exception ex then SessionErr ex else ex))"

definition native_open_session :: "chan_env \<Rightarrow> unit chan_prog" where
  "native_open_session R = wrap_session_error (call R OpenChannel)"

definition ssh_open_session :: "chan_env \<Rightarrow> unit chan_prog" where
  "ssh_open_session R = wrap_session_error
     (andthen (call R NewChannel) (andthen (call R SetNonBlocking) (call R OpenChannel)))"

text \<open>\<open>_execute\<close>; \<open>fresh\<close> says that no channel was handed in.\<close>

definition execute :: "unit chan_prog \<Rightarrow> chan_env \<Rightarrow> bool \<Rightarrow> bytes \<Rightarrow> bool \<Rightarrow> unit chan_prog" where
  "execute open_session R fresh cmd use_pty =
     andthen (if fresh then open_session else return ())
       (andthen (if use_pty then call R RequestPty else return ())
         (call R (Exec cmd)))"

definition native_execute :: "chan_env \<Rightarrow> bool \<Rightarrow> bytes \<Rightarrow> bool \<Rightarrow> unit chan_prog" where
  "native_execute R = execute (native_open_session R) R"

definition ssh_execute :: "chan_env \<Rightarrow> bool \<Rightarrow> bytes \<Rightarrow> bool \<Rightarrow> unit chan_prog" where
  "ssh_execute R = execute (ssh_open_session R) R"

section \<open>Host output\<close>

text \<open>
  The fields of \<open>HostOutput\<close> that the rest of the library reads.  A client that was given is shown
  by its name.
\<close>

record host_output =
  ho_host :: string
  ho_channel :: bool
  ho_client :: bool
  ho_exception :: "chan_error option"
  ho_read_timeout :: "nat option"
  ho_command :: "bytes option"

definition make_host_output :: "chan_env \<Rightarrow> string \<Rightarrow> nat option \<Rightarrow> bytes option \<Rightarrow> host_output chan_prog" where
  "make_host_output R host read_timeout cmd =
     andthen (call R SpawnReaders)
       (return \<lparr>ho_host = host, ho_channel = True, ho_client = True, ho_exception = None,
                ho_read_timeout = read_timeout, ho_command = cmd\<rparr>)"

text \<open>
  \<open>run_command\<close>: \<open>read_timeout if read_timeout else timeout\<close>, where zero counts as not given.
\<close>

definition pick_timeout :: "nat option \<Rightarrow> nat option \<Rightarrow> nat option" where
  "pick_timeout read_timeout timeout =
     (case read_timeout of Some n \<Rightarrow> if n \<noteq> 0 then Some n else timeout | None \<Rightarrow> timeout)"

definition run_command ::
  "(string \<Rightarrow> chan_error + bytes) \<Rightarrow> (bool \<Rightarrow> bytes \<Rightarrow> bool \<Rightarrow> unit chan_prog) \<Rightarrow> chan_env \<Rightarrow> string
     \<Rightarrow> string \<Rightarrow> bool \<Rightarrow> string option \<Rightarrow> bool \<Rightarrow> string option \<Rightarrow> nat option \<Rightarrow> nat option
     \<Rightarrow> host_output chan_prog" where
  "run_command encode exec R host command sudo usr use_pty shell timeout read_timeout =
     (case encode (command_string command sudo usr shell) of
        Inl e \<Rightarrow> throw e
      | Inr cmd \<Rightarrow>
          andthen (exec True cmd use_pty)
            (make_host_output R host (pick_timeout read_timeout timeout) (Some cmd)))"

section \<open>Waiting for a command\<close>

text \<open>
  \<open>close_channel\<close>, and \<open>wait_finished\<close>, whose argument is \<open>None\<close> when it is not a host output.
\<close>

definition close_channel :: "chan_env \<Rightarrow> unit chan_prog" where
  "close_channel R = call R Close"

definition ssh_close_channel :: "chan_env \<Rightarrow> unit chan_prog" where
  "ssh_close_channel R = call R Close"

definition native_wait_finished :: "chan_env \<Rightarrow> host_output option \<Rightarrow> unit chan_prog" where
  "native_wait_finished R out =
     (case out of
        None \<Rightarrow> throw BadArgument
      | Some ho \<Rightarrow>
          (if \<not> ho_channel ho then return ()
           else andthen (call R WaitEof) (andthen (close_channel R) (call R WaitClosed))))"

definition ssh_wait_finished :: "chan_env \<Rightarrow> host_output option \<Rightarrow> unit chan_prog" where
  "ssh_wait_finished R out =
     (case out of
        None \<Rightarrow> throw BadArgument
      | Some ho \<Rightarrow>
          (if \<not> ho_channel ho then return ()
           else andthen (call R SendEof) (andthen (call R JoinReaders) (ssh_close_channel R))))"

text \<open>
  What the channel says: whether the remote end has sent the end of its output, and the exit
  status, either of which may raise.
\<close>

record chan_view =
  cv_eof :: "chan_error + bool"
  cv_status :: "chan_error + int"

definition get_exit_status :: "chan_view \<Rightarrow> chan_error + int option" where
  "get_exit_status v =
     (case cv_eof v of
        Inl e \<Rightarrow> Inl e
      | Inr False \<Rightarrow> Inr None
      | Inr True \<Rightarrow> map_sum id Some (cv_status v))"

definition finished :: "chan_view option \<Rightarrow> chan_error + bool option" where
  "finished ch = (case ch of None \<Rightarrow> Inr None | Some v \<Rightarrow> map_sum id Some (cv_eof v))"

text \<open>The same of the client for ssh-python, whose channels call the end of the output \<open>is_eof\<close>.\<close>

definition ssh_get_exit_status :: "chan_view \<Rightarrow> chan_error + int option" where
  "ssh_get_exit_status v =
     (case cv_eof v of
        Inl e \<Rightarrow> Inl e
      | Inr is_eof \<Rightarrow> if \<not> is_eof then Inr None else map_sum id Some (cv_status v))"

definition ssh_finished :: "chan_view option \<Rightarrow> chan_error + bool option" where
  "ssh_finished ch = (case ch of None \<Rightarrow> Inr None | Some v \<Rightarrow> map_sum id Some (cv_eof v))"

lemma clients_agree_on_exit: "ssh_get_exit_status = get_exit_status" "ssh_finished = finished"
  by (auto simp: ssh_get_exit_status_def get_exit_status_def ssh_finished_def finished_def fun_eq_iff
      split: sum.split bool.split)

text \<open>\<open>HostOutput.exit_code\<close>: an exception is logged and \<open>None\<close> returned.\<close>

definition exit_code :: "host_output \<Rightarrow> chan_view \<Rightarrow> int option" where
  "exit_code ho v =
     (if \<not> ho_client ho then None
      else (case get_exit_status v of Inl e \<Rightarrow> None | Inr status \<Rightarrow> status))"

section \<open>Interactive shells\<close>

text \<open>\<open>InteractiveShell.__init__\<close>, \<open>open_shell\<close> and \<open>close\<close>.\<close>

definition init_interactive_shell :: "chan_env \<Rightarrow> string \<Rightarrow> nat option \<Rightarrow> host_output chan_prog" where
  "init_interactive_shell R host read_timeout =
     andthen (call R RequestShell) (make_host_output R host read_timeout None)"

definition open_interactive_shell :: "unit chan_prog \<Rightarrow> chan_env \<Rightarrow> string \<Rightarrow> nat option \<Rightarrow> host_output chan_prog" where
  "open_interactive_shell open_session R host read_timeout =
     andthen open_session (init_interactive_shell R host read_timeout)"

definition close_interactive_shell ::
  "(host_output option \<Rightarrow> unit chan_prog) \<Rightarrow> chan_env \<Rightarrow> bool \<Rightarrow> host_output \<Rightarrow> unit chan_prog" where
  "close_interactive_shell wait R has_chan out =
     (if \<not> has_chan then return () else andthen (call R SendEof) (wait (Some out)))"

text \<open>\<open>InteractiveShell.run\<close>: the bytes of the command and a line feed go through \<open>eagain_write\<close>.\<close>

definition shell_run ::
  "(string \<Rightarrow> 'e + bytes) \<Rightarrow> (nat \<Rightarrow> 'e + int \<times> nat) \<Rightarrow> int \<Rightarrow> string \<Rightarrow> peer \<Rightarrow> (('e + unit) \<times> peer) option" where
  "shell_run encode script eagain cmd s =
     (case encode cmd of
        Inl e \<Rightarrow> Some (Inl e, s)
      | Inr data \<Rightarrow> eagain_write_errcode (ask_write script) count_poll count_sleep (data @ [CHR 0x0A]) eagain s)"

text \<open>Commands one after another, as \<open>run_shell_commands\<close> sends them to one shell.\<close>

fun shell_run_all ::
  "(string \<Rightarrow> 'e + bytes) \<Rightarrow> (nat \<Rightarrow> 'e + int \<times> nat) \<Rightarrow> int \<Rightarrow> string list \<Rightarrow> peer \<Rightarrow> (('e + unit) \<times> peer) option" where
  "shell_run_all encode script eagain [] s = Some (Inr (), s)"
| "shell_run_all encode script eagain (cmd # cmds) s =
     (case shell_run encode script eagain cmd s of
        None \<Rightarrow> None
      | Some (Inl e, s1) \<Rightarrow> Some (Inl e, s1)
      | Some (Inr _, s1) \<Rightarrow> shell_run_all encode script eagain cmds s1)"

section \<open>Calls in a fixed order\<close>

text \<open>
  A program that makes the calls of a list in their order, and stops at the first that raises.
\<close>

definition follows :: "chan_event list \<Rightarrow> 'a chan_prog \<Rightarrow> bool" where
  "follows evs m \<longleftrightarrow> (\<forall>h. \<exists>k \<le> length evs. snd (m h) = h @ take k evs \<and> (\<not> isl (fst (m h)) \<longrightarrow> k = length evs))"

lemma followsE:
  assumes "follows evs m" "m h = (r, h')"
  obtains k where "k \<le> length evs" "h' = h @ take k evs" "\<not> isl r \<longrightarrow> k = length evs"
  using assms by (metis follows_def fst_conv snd_conv)

lemma follows_call: "follows [ev] (call R ev)"
  by (auto simp: follows_def call_def split: option.split)

lemma follows_return: "follows [] (return x)"
  by (simp add: follows_def)

lemma follows_throw: "follows evs (throw e)"
  by (auto simp: follows_def intro: exI[of _ 0])

lemma follows_bind:
  assumes "follows evs m" "\<And>x. follows evs' (f x)"
  shows "follows (evs @ evs') (bind m f)"
  unfolding follows_def
proof
  fix h
  obtain r h1 where m: "m h = (r, h1)" by force
  with assms(1) obtain k where k: "k \<le> length evs" "h1 = h @ take k evs" "\<not> isl r \<longrightarrow> k = length evs"
    by (rule followsE)
  show "\<exists>k \<le> length (evs @ evs'). snd (bind m f h) = h @ take k (evs @ evs') \<and>
      (\<not> isl (fst (bind m f h)) \<longrightarrow> k = length (evs @ evs'))"
  proof (cases r)
    case (Inl e)
    with m k show ?thesis by (intro exI[of _ k]) simp
  next
    case (Inr x)
    obtain r2 h2 where f: "f x h1 = (r2, h2)" by force
    with assms(2) obtain k2 where "k2 \<le> length evs'" "h2 = h1 @ take k2 evs'" "\<not> isl r2 \<longrightarrow> k2 = length evs'"
      by (rule followsE)
    with m Inr f k show ?thesis by (intro exI[of _ "length evs + k2"]) simp
  qed
qed

lemma follows_wrap: "follows evs m \<Longrightarrow> follows evs (wrap_session_error m)"
proof -
  assume f: "follows evs m"
  have "snd (wrap_session_error m h) = snd (m h) \<and> isl (fst (wrap_session_error m h)) = isl (fst (m h))" for h
    by (cases "m h"; cases "fst (m h)") (simp_all add: wrap_session_error_def)
  with f show ?thesis by (simp add: follows_def)
qed

lemmas follows_intros = follows_call follows_return follows_wrap follows_throw

lemma follows_andthen: "follows evs m \<Longrightarrow> follows evs' k \<Longrightarrow> follows (evs @ evs') (andthen m k)"
  by (rule follows_bind)

definition open_calls :: "bool \<Rightarrow> chan_event list" where
  "open_calls native = (if native then [OpenChannel] else [NewChannel, SetNonBlocking, OpenChannel])"

lemma follows_open:
  "follows (open_calls True) (native_open_session R)" "follows (open_calls False) (ssh_open_session R)"
  using follows_andthen[OF follows_call follows_andthen[OF follows_call follows_call]]
  by (auto simp: open_calls_def native_open_session_def ssh_open_session_def intro!: follows_wrap follows_call)

lemma follows_execute:
  assumes "follows op open_session"
  shows "follows (op @ (if use_pty then [RequestPty] else []) @ [Exec cmd]) (execute open_session R True cmd use_pty)"
proof -
  have "follows (if use_pty then [RequestPty] else []) (if use_pty then call R RequestPty else return ())"
    by (simp add: follows_call follows_return)
  from follows_andthen[OF assms follows_andthen[OF this follows_call]] show ?thesis by (simp add: execute_def)
qed

lemma follows_make_output: "follows [SpawnReaders] (make_host_output R host t cmd)"
  using follows_andthen[OF follows_call follows_return] by (simp add: make_host_output_def)

lemma run_command_follows:
  assumes "\<And>cmd pty. follows (op @ (if pty then [RequestPty] else []) @ [Exec cmd]) (exec True cmd pty)"
    "encode (command_string command sudo usr shell) = Inr cmd"
  shows "follows (op @ (if use_pty then [RequestPty] else []) @ [Exec cmd, SpawnReaders])
    (run_command encode exec R host command sudo usr use_pty shell timeout read_timeout)"
  using follows_andthen[OF assms(1) follows_make_output, of use_pty cmd R host] assms(2)
  by (simp add: run_command_def)

lemma run_command_output:
  assumes "run_command encode exec R host command sudo usr use_pty shell timeout read_timeout h = (Inr ho, h')"
  shows "\<exists>cmd. encode (command_string command sudo usr shell) = Inr cmd \<and>
     ho = \<lparr>ho_host = host, ho_channel = True, ho_client = True, ho_exception = None,
           ho_read_timeout = pick_timeout read_timeout timeout, ho_command = Some cmd\<rparr>"
  using assms
  by (auto simp: run_command_def make_host_output_def split: sum.splits elim!: bind_InrE)

lemma shell_run_all_takes:
  assumes "responsive script" "\<And>c. c \<in> set cmds \<Longrightarrow> encode c = Inr (enc c)"
  shows "\<exists>r s'. shell_run_all encode script eagain cmds s = Some (r, s') \<and>
     (\<not> isl r \<longrightarrow> taken s' = taken s @ concat (map (\<lambda>c. enc c @ [CHR 0x0A]) cmds))"
  using assms(2)
proof (induction cmds arbitrary: s)
  case Nil
  then show ?case by simp
next
  case (Cons c cmds)
  obtain r s1 where w: "eagain_write_errcode (ask_write script) count_poll count_sleep (enc c @ [CHR 0x0A]) eagain s =
      Some (r, s1)"
    using write_loop_returns[OF assms(1), of 0 "enc c @ [CHR 0x0A]" eagain s] by (auto simp: eagain_write_errcode_def)
  show ?case
  proof (cases r)
    case (Inl e)
    with w Cons.prems[of c] show ?thesis by (simp add: shell_run_def)
  next
    case (Inr u)
    with w have "taken s1 = taken s @ enc c @ [CHR 0x0A]" by (auto dest: peer_sink.write_errcode_all)
    moreover obtain r2 s2 where "shell_run_all encode script eagain cmds s1 = Some (r2, s2)"
      "\<not> isl r2 \<longrightarrow> taken s2 = taken s1 @ concat (map (\<lambda>c. enc c @ [CHR 0x0A]) cmds)"
      using Cons.IH[of s1] Cons.prems by auto
    ultimately show ?thesis using w Inr Cons.prems[of c] by (simp add: shell_run_def)
  qed
qed

section \<open>Properties\<close>

text \<open>
  A command that needs neither sudo nor a user nor a shell is sent as it is; otherwise it is put
  between single quotes after the shell, and the word that a POSIX shell reads there is the command
  exactly when the command has no single quote of its own: no quote is escaped.
\<close>
theorem command_is_quoted_unescaped:
  "(if sudo \<or> given usr \<or> given shell then
      \<exists>word. command_string command sudo usr shell =
          (if given usr then ''sudo -u '' @ text_of usr @ '' -S '' else if sudo then ''sudo -S '' else '''') @
          (if given shell then text_of shell else ''$SHELL -c'') @ '' '' @ word \<and>
        (single_quoted word = Some (command, []) \<longleftrightarrow> CHR 0x27 \<notin> set command)
    else command_string command sudo usr shell = command)"
proof -
  let ?word = "[CHR 0x27] @ command @ [CHR 0x27]"
  have q: "single_quoted ?word = Some (command, []) \<longleftrightarrow> CHR 0x27 \<notin> set command"
    using until_quote_append[of command "[]"] until_quote_first[of command "[]" command "[]"] by auto
  have "command_string command sudo usr shell =
      (if given usr then ''sudo -u '' @ text_of usr @ '' -S '' else if sudo then ''sudo -S '' else '''') @
      (if given shell then text_of shell else ''$SHELL -c'') @ '' '' @ ?word" if "sudo \<or> given usr \<or> given shell"
    using that by (simp add: command_string_def Let_def)
  moreover have "command_string command sudo usr shell = command" if "\<not> (sudo \<or> given usr \<or> given shell)"
    using that by (simp add: command_string_def)
  ultimately show ?thesis using q by metis
qed

text \<open>
  \<open>run_command\<close> of the native client opens a channel, requests a PTY if asked to, executes the
  encoded command and starts the readers, in this order and stopping at the first that raises;
  when it returns all were made and the host output holds the bytes that were executed.
\<close>
theorem run_command_order:
  assumes "encode (command_string command sudo usr shell) = Inr cmd"
    "run_command encode (native_execute R) R host command sudo usr use_pty shell timeout read_timeout h = (r, h')"
  shows "\<exists>k. h' = h @ take k ([OpenChannel] @ (if use_pty then [RequestPty] else []) @ [Exec cmd, SpawnReaders]) \<and>
     (\<not> isl r \<longrightarrow> k = (if use_pty then 4 else 3) \<and> ho_command (projr r) = Some cmd)"
proof -
  have "follows (open_calls True @ (if use_pty then [RequestPty] else []) @ [Exec cmd, SpawnReaders])
      (run_command encode (native_execute R) R host command sudo usr use_pty shell timeout read_timeout)"
    by (rule run_command_follows[where exec = "native_execute R"])
       (simp_all only: native_execute_def follows_execute[OF follows_open(1)] assms(1))
  from this assms(2) obtain k where
    k: "h' = h @ take k (open_calls True @ (if use_pty then [RequestPty] else []) @ [Exec cmd, SpawnReaders])"
      "\<not> isl r \<longrightarrow> k = length (open_calls True @ (if use_pty then [RequestPty] else []) @ [Exec cmd, SpawnReaders])"
    by (rule followsE)
  moreover have "ho_command (projr r) = Some cmd" if "\<not> isl r"
    using that run_command_output[of encode "native_execute R" R host command sudo usr use_pty shell timeout
        read_timeout h "projr r" h'] assms by auto
  ultimately show ?thesis by (intro exI[of _ k]) (auto simp: open_calls_def)
qed

theorem run_command_order_witness:
  "fst (run_command Inr (native_execute (\<lambda>h. None)) (\<lambda>h. None) ''h'' ''id'' True None True None None None []) \<noteq> Inl BadArgument \<and>
   snd (run_command Inr (native_execute (\<lambda>h. None)) (\<lambda>h. None) ''h'' ''id'' True None True None None None []) =
     [OpenChannel, RequestPty, Exec (''sudo -S $SHELL -c '' @ [CHR 0x27] @ ''id'' @ [CHR 0x27]), SpawnReaders]"
proof -
  let ?m = "run_command Inr (native_execute (\<lambda>h. None)) (\<lambda>h. None) ''h'' ''id'' True None True None None None []"
  let ?cmd = "''sudo -S $SHELL -c '' @ [CHR 0x27] @ ''id'' @ [CHR 0x27]"
  have e: "Inr (command_string ''id'' True None None) = (Inr ?cmd :: chan_error + bytes)"
    by (simp add: command_string_def given_def)
  have n: "\<not> isl (fst ?m)" by code_simp
  from run_command_order[where encode = Inr and command = "''id''" and sudo = True and usr = None and shell = None
      and cmd = ?cmd and R = "\<lambda>h. None" and host = "''h''" and use_pty = True and timeout = None
      and read_timeout = None and h = "[]" and r = "fst ?m" and h' = "snd ?m"] e n
  show ?thesis by (auto simp: eval_nat_numeral)
qed

text \<open>
  \<open>wait_finished\<close> waits for the end of the output before it closes the channel: the native client
  waits for the end, closes, and waits for the remote close; the ssh-python one sends its own end,
  waits for its readers and closes.  Each stops at the first call that raises.
\<close>
theorem wait_finished_order:
  assumes "ho_channel ho"
  shows "(\<exists>k \<le> 3. snd (native_wait_finished R (Some ho) h) = h @ take k [WaitEof, Close, WaitClosed] \<and>
            (\<not> isl (fst (native_wait_finished R (Some ho) h)) \<longrightarrow> k = 3)) \<and>
         (\<exists>k \<le> 3. snd (ssh_wait_finished R (Some ho) h) = h @ take k [SendEof, JoinReaders, Close] \<and>
            (\<not> isl (fst (ssh_wait_finished R (Some ho) h)) \<longrightarrow> k = 3))"
proof -
  have "follows [WaitEof, Close, WaitClosed] (native_wait_finished R (Some ho))"
    using follows_andthen[OF follows_call follows_andthen[OF follows_call follows_call]] assms
    by (simp add: native_wait_finished_def close_channel_def)
  moreover have "follows [SendEof, JoinReaders, Close] (ssh_wait_finished R (Some ho))"
    using follows_andthen[OF follows_call follows_andthen[OF follows_call follows_call]] assms
    by (simp add: ssh_wait_finished_def ssh_close_channel_def)
  ultimately show ?thesis by (simp add: follows_def eval_nat_numeral)
qed

definition example_output :: host_output where
  "example_output = \<lparr>ho_host = ''h'', ho_channel = True, ho_client = True, ho_exception = None,
     ho_read_timeout = None, ho_command = None\<rparr>"

theorem wait_finished_order_witness:
  "\<exists>k \<le> 3. snd (native_wait_finished (\<lambda>h. if h = [WaitEof] then Some PsshTimeout else None) (Some example_output) []) =
     [] @ take k [WaitEof, Close, WaitClosed]"
  using wait_finished_order[of example_output "\<lambda>h. if h = [WaitEof] then Some PsshTimeout else None" "[]"]
  by (auto simp: example_output_def)

text \<open>
  \<open>HostOutput.exit_code\<close> is the exit status of the channel when the remote end has sent the end
  of its output and the status can be read, and \<open>None\<close> in every other case; it never raises.
\<close>
theorem exit_code_after_eof:
  "exit_code ho v = Some status \<longleftrightarrow> ho_client ho \<and> cv_eof v = Inr True \<and> cv_status v = Inr status"
  by (cases "cv_eof v"; cases "cv_status v")
     (auto simp: exit_code_def get_exit_status_def split: bool.split if_splits)

text \<open>
  The commands run on an interactive shell reach the remote end in order, each whole and
  followed by one line feed, for any sizes of partial writes and any number of EAGAIN answers, as
  long as no write raises.
\<close>
theorem shell_commands_reach_the_shell:
  assumes "responsive script" "\<And>c. c \<in> set cmds \<Longrightarrow> encode c = Inr (enc c)"
  shows "\<exists>r s'. shell_run_all encode script eagain cmds s = Some (r, s') \<and>
     (\<not> isl r \<longrightarrow> taken s' = taken s @ concat (map (\<lambda>c. enc c @ [CHR 0x0A]) cmds))"
  using shell_run_all_takes[OF assms] .

theorem shell_commands_reach_the_shell_witness:
  "\<exists>r s'. shell_run_all Inr (\<lambda>k. Inr (1, 1) :: unit + int \<times> nat) (-37) [''ls'', ''id''] fresh_peer = Some (r, s') \<and>
     (\<not> isl r \<longrightarrow> taken s' = ''ls'' @ [CHR 0x0A] @ ''id'' @ [CHR 0x0A])"
proof -
  have "responsive (\<lambda>k. Inr (1, 1) :: unit + int \<times> nat)" by (auto simp: responsive_def)
  from shell_commands_reach_the_shell[OF this, of "[''ls'', ''id'']" Inr id "-37" fresh_peer]
  show ?thesis by (simp add: fresh_peer_def)
qed

end
