(* ===== verification/Parallel_Client.thy ===== *)
theory Parallel_Client
  imports Commands Host_Config Validation
begin

text \<open>
  The parallel clients: \<open>pssh/clients/base/parallel.py\<close> with the \<open>_make_ssh_client\<close> of
  \<open>pssh/clients/native/parallel.py\<close> and \<open>pssh/clients/ssh/parallel.py\<close>.

  A greenlet is a task with the result it will have; the results, and the order in which greenlets
  finish, are parameters.  The attributes of a parallel client that a \<open>HostConfig\<close> can override
  are kept in a \<open>host_config\<close> record of their own.
\<close>

section \<open>Data\<close>

datatype hosts_arg =
    HNone
  | HString string
  | HIterator "string list"
  | HList "string list"

datatype par_error =
    PValueError "pyval list"
  | PTypeError
  | PIndexError
  | PKeyError
  | PHostArgumentError string
  | PHostConfigError
  | PInvalidAPIUse
  | PKeyFileErr "pyval list"
  | PTimeout
  | PGeventTimeout
  | PShellError par_error
  | POther string

record 'c pclient =
  phosts :: "string list"
  phost_config :: "host_config list option"
  pself :: host_config
  host_clients :: "nat \<times> string \<Rightarrow> 'c option"

section \<open>Hosts\<close>

definition validate_hosts :: "hosts_arg \<Rightarrow> par_error + string list" where
  "validate_hosts hs =
     (case hs of
        HNone \<Rightarrow> Inl (PValueError [])
      | HString _ \<Rightarrow> Inl PTypeError
      | HIterator xs \<Rightarrow> Inr xs
      | HList xs \<Rightarrow> Inr xs)"

text \<open>
  The setter of \<open>hosts\<close>: the clients of hosts whose index or name changes are dropped.
\<close>

definition host_keys :: "string list \<Rightarrow> (nat \<times> string) set" where
  "host_keys hs = set (py_enumerate hs)"

definition set_hosts :: "hosts_arg \<Rightarrow> 'c pclient \<Rightarrow> (par_error + unit) \<times> 'c pclient" where
  "set_hosts new c =
     (case validate_hosts new of
        Inl e \<Rightarrow> (Inl e, c)
      | Inr hs \<Rightarrow>
          let to_remove = filter (\<lambda>k. k \<notin> set (py_enumerate hs)) (py_enumerate (phosts c)) in
          (Inr (), c\<lparr>host_clients := fold (\<lambda>k m. m(k := None)) to_remove (host_clients c), phosts := hs\<rparr>))"

definition check_host_config :: "string list \<Rightarrow> host_config list option \<Rightarrow> bool \<Rightarrow> par_error + unit" where
  "check_host_config hs hcfg is_a_list =
     (case hcfg of
        None \<Rightarrow> Inr ()
      | Some cs \<Rightarrow>
          if \<not> is_a_list then Inl PHostConfigError
          else if length hs \<noteq> length cs then
            Inl (PValueError [PStr ''Host config entries must match number of hosts if provided'',
                              PInt (int (length cs)), PInt (int (length hs))])
          else Inr ())"

section \<open>Per-host configuration and clients\<close>

text \<open>
  Without a list of configurations one is made from the attributes of the client; the fields that
  the code does not pass keep the defaults of \<open>HostConfig\<close>.
\<close>

definition own_config :: "host_config \<Rightarrow> host_config" where
  "own_config self = self
     \<lparr>hc_alias := PNone, hc_auth_thread_pool := PBool True, hc_compress := PBool False,
      hc_keyboard_interactive := PBool False\<rparr>"

definition get_host_config :: "'c pclient \<Rightarrow> nat \<Rightarrow> par_error + host_config" where
  "get_host_config c host_i =
     (case phost_config c of
        None \<Rightarrow> (case make_host_config (own_config (pself c)) of
                   Inl (ConfigValueError args) \<Rightarrow> Inl (PValueError args)
                 | Inl (ConfigInvalidAPIUse _) \<Rightarrow> Inl PInvalidAPIUse
                 | Inr cfg \<Rightarrow> Inr cfg)
      | Some cfgs \<Rightarrow> if host_i < length cfgs then Inr (cfgs ! host_i) else Inl PIndexError)"

text \<open>
  The arguments that each \<open>_make_ssh_client\<close> passes to its \<open>SSHClient\<close>; the parameters that the
  constructor does not have or that are not passed are left at their defaults.
\<close>

definition native_client_args :: "host_config \<Rightarrow> host_config \<Rightarrow> pyval \<Rightarrow> host_config" where
  "native_client_args self cfg pkey_data = default_config
     \<lparr>hc_user := py_or (hc_user cfg) (hc_user self),
      hc_password := py_or (hc_password cfg) (hc_password self),
      hc_port := py_or (hc_port cfg) (hc_port self),
      hc_private_key := pkey_data,
      hc_num_retries := py_or (hc_num_retries cfg) (hc_num_retries self),
      hc_alias := hc_alias cfg,
      hc_timeout := py_or (hc_timeout cfg) (hc_timeout self),
      hc_allow_agent := py_or (hc_allow_agent cfg) (hc_allow_agent self),
      hc_retry_delay := py_or (hc_retry_delay cfg) (hc_retry_delay self),
      hc_proxy_host := py_or (hc_proxy_host cfg) (hc_proxy_host self),
      hc_proxy_port := py_or (hc_proxy_port cfg) (hc_proxy_port self),
      hc_proxy_user := py_or (hc_proxy_user cfg) (hc_proxy_user self),
      hc_proxy_password := py_or (hc_proxy_password cfg) (hc_proxy_password self),
      hc_proxy_pkey := py_or (hc_proxy_pkey cfg) (hc_proxy_pkey self),
      hc_auth_thread_pool := py_or (hc_auth_thread_pool cfg) (hc_auth_thread_pool self),
      hc_forward_ssh_agent := py_or (hc_forward_ssh_agent cfg) (hc_forward_ssh_agent self),
      hc_keepalive_seconds := py_or (hc_keepalive_seconds cfg) (hc_keepalive_seconds self),
      hc_identity_auth := py_or (hc_identity_auth cfg) (hc_identity_auth self),
      hc_ipv6_only := py_or (hc_ipv6_only cfg) (hc_ipv6_only self),
      hc_compress := py_or (hc_compress cfg) (hc_compress self)\<rparr>"

definition ssh_client_args :: "host_config \<Rightarrow> host_config \<Rightarrow> pyval \<Rightarrow> host_config" where
  "ssh_client_args self cfg pkey_data = default_config
     \<lparr>hc_user := py_or (hc_user cfg) (hc_user self),
      hc_password := py_or (hc_password cfg) (hc_password self),
      hc_port := py_or (hc_port cfg) (hc_port self),
      hc_private_key := pkey_data,
      hc_num_retries := py_or (hc_num_retries cfg) (hc_num_retries self),
      hc_alias := hc_alias cfg,
      hc_timeout := py_or (hc_timeout cfg) (hc_timeout self),
      hc_allow_agent := py_or (hc_allow_agent cfg) (hc_allow_agent self),
      hc_retry_delay := py_or (hc_retry_delay cfg) (hc_retry_delay self),
      hc_auth_thread_pool := py_or (hc_auth_thread_pool cfg) (hc_auth_thread_pool self),
      hc_identity_auth := py_or (hc_identity_auth cfg) (hc_identity_auth self),
      hc_ipv6_only := py_or (hc_ipv6_only cfg) (hc_ipv6_only self),
      hc_gssapi_auth := hc_gssapi_auth self,
      hc_gssapi_server_identity := hc_gssapi_server_identity self,
      hc_gssapi_client_identity := hc_gssapi_client_identity self,
      hc_gssapi_delegate_credentials := hc_gssapi_delegate_credentials self,
      hc_cert_file := hc_cert_file cfg,
      hc_compress := py_or (hc_compress cfg) (hc_compress self)\<rparr>"

text \<open>\<open>_load_pkey_data\<close>: the data of a key that is a path, any other key as it is.\<close>

record pkey_files =
  expand :: "string \<Rightarrow> string"
  exists :: "string \<Rightarrow> bool"
  contents :: "string \<Rightarrow> par_error + bytes"

definition load_pkey_data :: "pkey_files \<Rightarrow> pyval \<Rightarrow> par_error + pyval" where
  "load_pkey_data F pkey =
     (case pkey of
        PStr p \<Rightarrow>
          (case validate_pkey_path (expand F) (exists F) (Some p) of
             Inl (_, args) \<Rightarrow> Inl (PKeyFileErr args)
           | Inr None \<Rightarrow> Inl PTypeError
           | Inr (Some q) \<Rightarrow> map_sum id PBytes (contents F q))
      | _ \<Rightarrow> Inr pkey)"

text \<open>
  \<open>_get_ssh_client\<close>: a client made before for this index and host, or a new one, which is kept only
  when its constructor returns.
\<close>

definition get_ssh_client ::
  "pkey_files \<Rightarrow> (host_config \<Rightarrow> host_config \<Rightarrow> pyval \<Rightarrow> host_config)
     \<Rightarrow> (string \<Rightarrow> host_config \<Rightarrow> par_error + 'c) \<Rightarrow> nat \<Rightarrow> string \<Rightarrow> 'c pclient \<Rightarrow> (par_error + 'c) \<times> 'c pclient" where
  "get_ssh_client F client_args construct host_i host c =
     (case host_clients c (host_i, host) of
        Some client \<Rightarrow> (Inr client, c)
      | None \<Rightarrow>
         (case get_host_config c host_i of
            Inl e \<Rightarrow> (Inl e, c)
          | Inr cfg \<Rightarrow>
             (case load_pkey_data F
                (if hc_private_key cfg = PNone then hc_private_key (pself c) else hc_private_key cfg) of
                Inl e \<Rightarrow> (Inl e, c)
              | Inr pkey_data \<Rightarrow>
                 (case construct host (client_args (pself c) cfg pkey_data) of
                    Inl e \<Rightarrow> (Inl e, c)
                  | Inr client \<Rightarrow>
                      (Inr client, c\<lparr>host_clients := (host_clients c)((host_i, host) \<mapsto> client)\<rparr>)))))"

section \<open>Spawning one task per host\<close>

type_synonym 't task = "nat \<times> string \<times> 't"

text \<open>
  A list comprehension that spawns a greenlet per host.  The arguments of a greenlet are evaluated
  just before it is spawned, so that the greenlets before an exception have been spawned.
\<close>

fun spawn_each :: "(nat \<Rightarrow> string \<Rightarrow> par_error + 't) \<Rightarrow> (nat \<times> string) list \<Rightarrow> 't task list \<times> par_error option" where
  "spawn_each args [] = ([], None)"
| "spawn_each args ((host_i, host) # rest) =
     (case args host_i host of
        Inl e \<Rightarrow> ([], Some e)
      | Inr a \<Rightarrow> (case spawn_each args rest of (tasks, err) \<Rightarrow> ((host_i, host, a) # tasks, err)))"

definition format_error :: "fmt_error \<Rightarrow> par_error" where
  "format_error e =
     (case e of FmtTypeError \<Rightarrow> PTypeError | FmtValueError \<Rightarrow> PValueError [] | FmtKeyError _ \<Rightarrow> PKeyError
      | FmtNotModelled \<Rightarrow> POther ''format'')"

text \<open>\<open>template % args[host_i]\<close>.\<close>

definition format_with :: "string \<Rightarrow> pyval list \<Rightarrow> nat \<Rightarrow> par_error + string" where
  "format_with fmt args host_i =
     (if host_i < length args then
        (case py_format fmt (args ! host_i) of Inl e \<Rightarrow> Inl (format_error e) | Inr s \<Rightarrow> Inr s)
      else Inl PIndexError)"

text \<open>\<open>except IndexError: raise HostArgumentError\<close>.\<close>

definition index_error_as :: "string \<Rightarrow> par_error option \<Rightarrow> par_error option" where
  "index_error_as msg err = (if err = Some PIndexError then Some (PHostArgumentError msg) else err)"

definition host_args_msg :: string where
  "host_args_msg = ''Number of host arguments provided does not match number of hosts ''"

definition copy_args_msg :: string where
  "copy_args_msg = ''Number of per-host copy arguments provided does not match number of hosts''"

definition run_command_tasks :: "string list \<Rightarrow> string \<Rightarrow> pyval list \<Rightarrow> string task list \<times> par_error option" where
  "run_command_tasks hs command host_args =
     (if host_args \<noteq> [] then
        (case spawn_each (\<lambda>i host. format_with command host_args i) (py_enumerate hs) of
           (tasks, err) \<Rightarrow> (tasks, index_error_as host_args_msg err))
      else spawn_each (\<lambda>i host. Inr command) (py_enumerate hs))"

section \<open>Gathering output\<close>

text \<open>
  The host output of a command, or one that is made for a host whose command raised: it has no
  client and no channel, only the exception and the alias.
\<close>

datatype par_output = Output host_output | FailedOutput string pyval par_error

text \<open>
  \<open>_get_output_from_greenlet\<close>: the output of a command, or its exception, raised or put into a host
  output of its own.  The host and the alias are looked up first.
\<close>

definition as_timeout :: "par_error \<Rightarrow> par_error" where
  "as_timeout ex = (if ex = PGeventTimeout then PTimeout else ex)"

definition get_output_from_greenlet ::
  "'c pclient \<Rightarrow> bool \<Rightarrow> nat \<Rightarrow> par_error + host_output \<Rightarrow> par_error + par_output" where
  "get_output_from_greenlet c raise_error cmd_i result =
     (if cmd_i \<ge> length (phosts c) then Inl PIndexError
      else (case get_host_config c cmd_i of
              Inl e \<Rightarrow> Inl e
            | Inr cfg \<Rightarrow>
               (case result of
                  Inr out \<Rightarrow> Inr (Output out)
                | Inl ex \<Rightarrow>
                    if raise_error then Inl (as_timeout ex)
                    else Inr (FailedOutput (phosts c ! cmd_i) (hc_alias cfg) (as_timeout ex)))))"

text \<open>
  \<open>joinall(..., raise_error=True)\<close> goes through the greenlets in the order they finish and raises the
  first exception; the values are read in that order.
\<close>

fun join_all :: "(nat \<Rightarrow> par_error + 'a) \<Rightarrow> nat list \<Rightarrow> par_error + 'a list" where
  "join_all value [] = Inr []"
| "join_all value (i # is) =
     (case value i of
        Inl e \<Rightarrow> Inl e
      | Inr x \<Rightarrow> map_sum id (\<lambda>xs. x # xs) (join_all value is))"

definition get_output_from_cmds ::
  "'c pclient \<Rightarrow> bool \<Rightarrow> (nat \<Rightarrow> par_error + host_output) \<Rightarrow> nat list \<Rightarrow> par_error + par_output list" where
  "get_output_from_cmds c raise_error result order =
     join_all (\<lambda>i. get_output_from_greenlet c raise_error i (result i)) order"

text \<open>
  \<open>run_command\<close> of the parallel client: the tasks it spawned and what it returns.  \<open>run\<close> is the
  result that the greenlet of a task will have, \<open>order\<close> the order in which they finish.
\<close>

definition par_run_command ::
  "'c pclient \<Rightarrow> string \<Rightarrow> pyval list \<Rightarrow> bool \<Rightarrow> (string task \<Rightarrow> par_error + host_output) \<Rightarrow> nat list
     \<Rightarrow> string task list \<times> (par_error + par_output list)" where
  "par_run_command c command host_args stop_on_errors run order =
     (case run_command_tasks (phosts c) command host_args of
        (tasks, Some e) \<Rightarrow> (tasks, Inl e)
      | (tasks, None) \<Rightarrow>
          (tasks, get_output_from_cmds c stop_on_errors (\<lambda>i. run (tasks ! i)) order))"

text \<open>
  \<open>run_command\<close> of the client for ssh-python hands its arguments to the same method of the base
  class as the native one.
\<close>

definition ssh_par_run_command ::
  "'c pclient \<Rightarrow> string \<Rightarrow> pyval list \<Rightarrow> bool \<Rightarrow> (string task \<Rightarrow> par_error + host_output) \<Rightarrow> nat list
     \<Rightarrow> string task list \<times> (par_error + par_output list)" where
  "ssh_par_run_command c command host_args stop_on_errors run order =
     par_run_command c command host_args stop_on_errors run order"

text \<open>\<open>get_last_output\<close>; \<open>cmds\<close> are the results of the last tasks, if there were any.\<close>

definition get_last_output ::
  "'c pclient \<Rightarrow> (nat \<Rightarrow> par_error + host_output) option \<Rightarrow> nat list \<Rightarrow> par_error + par_output list option" where
  "get_last_output c cmds order =
     (case cmds of
        None \<Rightarrow> Inr None
      | Some results \<Rightarrow> map_sum id Some (get_output_from_cmds c False results order))"

section \<open>Joining\<close>

text \<open>\<open>_join\<close>, with the \<open>wait_finished\<close> of the client and what reading the output to its end does.\<close>

definition join_one ::
  "(host_output option \<Rightarrow> unit chan_prog) \<Rightarrow> unit chan_prog \<Rightarrow> bool \<Rightarrow> par_output \<Rightarrow> par_output option chan_prog" where
  "join_one wait consume consume_output out =
     (case out of
        FailedOutput _ _ _ \<Rightarrow> return None
      | Output ho \<Rightarrow>
         (if \<not> ho_client ho then return None
          else andthen (wait (Some ho))
            (andthen (if consume_output then consume else return ()) (return (Some out)))))"

text \<open>
  \<open>join\<close> of \<open>n\<close> outputs.  \<open>fins\<close> are the greenlets that finish before the timeout, in order; without
  a timeout these are all.  The exceptions of the greenlets are raised again.
\<close>

definition par_join :: "(nat \<Rightarrow> par_error + par_output option) \<Rightarrow> nat \<Rightarrow> nat list \<Rightarrow> bool \<Rightarrow> par_error + unit" where
  "par_join result n fins timeout_given =
     (case join_all result fins of
        Inl e \<Rightarrow> Inl e
      | Inr _ \<Rightarrow>
         (if \<not> timeout_given then Inr ()
          else if list_all (\<lambda>i. i \<in> set fins) [0..<n] then Inr ()
          else Inl PTimeout))"

text \<open>\<open>finished\<close>: whether the command of every output that has a client is done.\<close>

fun all_finished :: "(host_output \<Rightarrow> par_error + bool) \<Rightarrow> par_output list \<Rightarrow> par_error + bool" where
  "all_finished client_finished [] = Inr True"
| "all_finished client_finished (FailedOutput _ _ _ # outs) = all_finished client_finished outs"
| "all_finished client_finished (Output ho # outs) =
     (if \<not> ho_client ho then all_finished client_finished outs
      else (case client_finished ho of
              Inl e \<Rightarrow> Inl e
            | Inr fin \<Rightarrow> if fin then all_finished client_finished outs else Inr False))"

section \<open>Copying\<close>

text \<open>
  The tasks of \<open>copy_file\<close>: both paths and the argument that \<open>_copy_file\<close> receives as its \<open>recurse\<close>,
  which is the dictionary \<open>{'recurse': recurse}\<close>.
\<close>

definition copy_file_tasks ::
  "string list \<Rightarrow> string \<Rightarrow> string \<Rightarrow> pyval \<Rightarrow> pyval list \<Rightarrow> (string \<times> string \<times> pyval) task list \<times> par_error option" where
  "copy_file_tasks hs local_file remote_file recurse copy_args =
     (let arg = PDict [(''recurse'', recurse)] in
      if copy_args \<noteq> [] then
        (case spawn_each (\<lambda>i host.
            (case format_with local_file copy_args i of
               Inl e \<Rightarrow> Inl e
             | Inr l \<Rightarrow> map_sum id (\<lambda>r. (l, r, arg)) (format_with remote_file copy_args i))) (py_enumerate hs) of
           (tasks, err) \<Rightarrow> (tasks, index_error_as copy_args_msg err))
      else spawn_each (\<lambda>i host. Inr (local_file, remote_file, arg)) (py_enumerate hs))"

definition copy_remote_file_tasks ::
  "string list \<Rightarrow> string \<Rightarrow> string \<Rightarrow> pyval \<Rightarrow> string \<Rightarrow> pyval list
     \<Rightarrow> (string \<times> string \<times> pyval) task list \<times> par_error option" where
  "copy_remote_file_tasks hs remote_file local_file recurse suffix_separator copy_args =
     (if copy_args \<noteq> [] then
        (case spawn_each (\<lambda>i host.
            (case format_with remote_file copy_args i of
               Inl e \<Rightarrow> Inl e
             | Inr r \<Rightarrow> map_sum id (\<lambda>l. (r, l, recurse)) (format_with local_file copy_args i))) (py_enumerate hs) of
           (tasks, err) \<Rightarrow> (tasks, index_error_as copy_args_msg err))
      else spawn_each (\<lambda>i host. Inr (remote_file, local_file @ suffix_separator @ host, recurse)) (py_enumerate hs))"

text \<open>The methods of the native client that users call, with their defaults filled in by the caller.\<close>

definition native_par_copy_file ::
  "string list \<Rightarrow> string \<Rightarrow> string \<Rightarrow> pyval \<Rightarrow> pyval list \<Rightarrow> (string \<times> string \<times> pyval) task list \<times> par_error option" where
  "native_par_copy_file hs local_file remote_file recurse copy_args =
     copy_file_tasks hs local_file remote_file recurse copy_args"

definition native_par_copy_remote_file ::
  "string list \<Rightarrow> string \<Rightarrow> string \<Rightarrow> pyval \<Rightarrow> string \<Rightarrow> pyval list
     \<Rightarrow> (string \<times> string \<times> pyval) task list \<times> par_error option" where
  "native_par_copy_remote_file hs remote_file local_file recurse suffix_separator copy_args =
     copy_remote_file_tasks hs remote_file local_file recurse suffix_separator copy_args"

text \<open>
  \<open>scp_send\<close> and \<open>scp_recv\<close> of the native parallel client: without \<open>copy_args\<close> a dictionary per host
  is made, and both paths are formatted from the dictionaries in any case.
\<close>

definition scp_dict :: "string \<Rightarrow> string \<Rightarrow> pyval" where
  "scp_dict local_file remote_file =
     PDict [(''local_file'', PStr local_file), (''remote_file'', PStr remote_file)]"

definition scp_send_tasks ::
  "string list \<Rightarrow> string \<Rightarrow> string \<Rightarrow> pyval \<Rightarrow> pyval list option
     \<Rightarrow> (string \<times> string \<times> pyval) task list \<times> par_error option" where
  "scp_send_tasks hs local_file remote_file recurse copy_args =
     (let args = (case copy_args of
                    None \<Rightarrow> map (\<lambda>_. scp_dict local_file remote_file) hs | Some a \<Rightarrow> a) in
      (case spawn_each (\<lambda>i host.
          (case format_with ''%(local_file)s'' args i of
             Inl e \<Rightarrow> Inl e
           | Inr l \<Rightarrow> map_sum id (\<lambda>r. (l, r, recurse)) (format_with ''%(remote_file)s'' args i))) (py_enumerate hs) of
         (tasks, err) \<Rightarrow> (tasks, index_error_as copy_args_msg err)))"

definition scp_recv_tasks ::
  "string list \<Rightarrow> string \<Rightarrow> string \<Rightarrow> pyval \<Rightarrow> pyval list option \<Rightarrow> string
     \<Rightarrow> (string \<times> string \<times> pyval) task list \<times> par_error option" where
  "scp_recv_tasks hs remote_file local_file recurse copy_args suffix_separator =
     (let args = (case copy_args of
                    None \<Rightarrow> map (\<lambda>host. scp_dict (local_file @ suffix_separator @ host) remote_file) hs
                  | Some a \<Rightarrow> a) in
      (case spawn_each (\<lambda>i host.
          (case format_with ''%(remote_file)s'' args i of
             Inl e \<Rightarrow> Inl e
           | Inr r \<Rightarrow> map_sum id (\<lambda>l. (r, l, recurse)) (format_with ''%(local_file)s'' args i))) (py_enumerate hs) of
         (tasks, err) \<Rightarrow> (tasks, index_error_as copy_args_msg err)))"

section \<open>Spawned tasks\<close>

lemma spawn_each_ok:
  assumes "\<And>i h. (i, h) \<in> set xs \<Longrightarrow> args i h = Inr (f i h)"
  shows "spawn_each args xs = (map (\<lambda>(i, h). (i, h, f i h)) xs, None)"
  using assms
proof (induction xs)
  case (Cons x xs)
  obtain i h where "x = (i, h)" by force
  with Cons.prems[of i h] Cons show ?case by simp
qed simp

lemma spawn_each_stops:
  assumes "\<And>i h. (i, h) \<in> set xs \<Longrightarrow> args i h = Inr (f i h)" "args j g = Inl e"
  shows "spawn_each args (xs @ (j, g) # ys) = (map (\<lambda>(i, h). (i, h, f i h)) xs, Some e)"
  using assms(1)
proof (induction xs)
  case Nil
  then show ?case using assms(2) by simp
next
  case (Cons x xs)
  obtain i h where "x = (i, h)" by force
  with Cons.prems[of i h] Cons show ?case by simp
qed

lemma spawn_each_args:
  "(i, h, a) \<in> set (fst (spawn_each args xs)) \<Longrightarrow> (i, h) \<in> set xs \<and> args i h = Inr a"
  by (induction args xs rule: spawn_each.induct) (auto split: sum.splits prod.splits)

lemma map_enumerate: "map f (py_enumerate xs) = map (\<lambda>i. f (i, xs ! i)) [0..<length xs]"
  by (rule nth_equalityI) (simp_all add: nth_enumerate_eq)

lemma take_enumerate: "take k (py_enumerate xs) = py_enumerate (take k xs)"
  by (rule nth_equalityI) (simp_all add: nth_enumerate_eq)

lemma enumerate_split:
  assumes "k < length xs"
  shows "py_enumerate xs = py_enumerate (take k xs) @ (k, xs ! k) # drop (Suc k) (py_enumerate xs)"
proof -
  have "py_enumerate xs = take k (py_enumerate xs) @ py_enumerate xs ! k # drop (Suc k) (py_enumerate xs)"
    by (rule id_take_nth_drop) (simp add: assms)
  with assms show ?thesis by (simp add: take_enumerate nth_enumerate_eq)
qed

section \<open>Joined results\<close>

lemma join_all_ok: "(\<And>i. i \<in> set is \<Longrightarrow> value i = Inr (f i)) \<Longrightarrow> join_all value is = Inr (map f is)"
  by (induction "is") auto

lemma join_all_Inr: "join_all value is = Inr xs \<Longrightarrow> i \<in> set is \<Longrightarrow> \<exists>x. value i = Inr x"
  by (induction "is" arbitrary: xs) (auto split: sum.splits simp: map_sum_def)

text \<open>
  Every host has a configuration: one is given for each, or the attributes of the client make one.
\<close>

definition configured :: "'c pclient \<Rightarrow> bool" where
  "configured c \<longleftrightarrow> (\<forall>i < length (phosts c). \<exists>cfg. get_host_config c i = Inr cfg)"

text \<open>What \<open>run_command\<close> returns for one host.\<close>

definition alias_of :: "'c pclient \<Rightarrow> nat \<Rightarrow> pyval" where
  "alias_of c i = hc_alias (projr (get_host_config c i))"

definition output_of :: "'c pclient \<Rightarrow> nat \<Rightarrow> par_error + host_output \<Rightarrow> par_output" where
  "output_of c i result =
     (case result of Inr out \<Rightarrow> Output out
                   | Inl ex \<Rightarrow> FailedOutput (phosts c ! i) (alias_of c i) (as_timeout ex))"

lemma get_output_from_greenlet_configured:
  assumes "configured c" "i < length (phosts c)"
  shows "get_output_from_greenlet c raise_error i result =
    (if raise_error \<and> isl result then Inl (as_timeout (projl result)) else Inr (output_of c i result))"
proof -
  obtain cfg where "get_host_config c i = Inr cfg" using assms by (auto simp: configured_def)
  with assms(2) show ?thesis
    by (cases result) (auto simp: get_output_from_greenlet_def output_of_def alias_of_def)
qed

lemma run_command_tasks_plain:
  "run_command_tasks hs command [] = (map (\<lambda>i. (i, hs ! i, command)) [0..<length hs], None)"
proof -
  have "spawn_each (\<lambda>i host. Inr command) (py_enumerate hs) =
      (map (\<lambda>(i, h). (i, h, command)) (py_enumerate hs), None)"
    by (rule spawn_each_ok) simp
  then show ?thesis by (simp add: run_command_tasks_def map_enumerate)
qed

section \<open>The cache of clients\<close>

definition clients_ok :: "'c pclient \<Rightarrow> bool" where
  "clients_ok c \<longleftrightarrow> (\<forall>k. host_clients c k \<noteq> None \<longrightarrow> k \<in> host_keys (phosts c))"

lemma fold_remove: "fold (\<lambda>k m. m(k := None)) ks m k = (if k \<in> set ks then None else m k)"
  by (induction ks arbitrary: m) auto

lemma get_ssh_client_Inr:
  "get_ssh_client F client_args construct i host c = (Inr client, c') \<Longrightarrow>
     host_clients c' (i, host) = Some client \<and> phosts c' = phosts c \<and> phost_config c' = phost_config c \<and>
     (\<forall>k. k \<noteq> (i, host) \<longrightarrow> host_clients c' k = host_clients c k)"
  by (auto simp: get_ssh_client_def split: option.splits sum.splits)

lemma get_ssh_client_Inl:
  "get_ssh_client F client_args construct i host c = (Inl e, c') \<Longrightarrow> c' = c"
  by (auto simp: get_ssh_client_def split: option.splits sum.splits)

section \<open>Properties\<close>

text \<open>
  With \<open>stop_on_errors=False\<close> no exception of a host leaves \<open>run_command\<close>: it returns one output
  per host, the host's own output or one that carries its exception, in the order in which the
  greenlets that gather them end, a gevent timeout turned into the \<open>Timeout\<close> of the library.
\<close>
theorem run_command_returns_all_outputs:
  assumes "configured c" "set order \<subseteq> {..<length (phosts c)}"
  shows "par_run_command c command [] False run order =
     (map (\<lambda>i. (i, phosts c ! i, command)) [0..<length (phosts c)],
      Inr (map (\<lambda>i. output_of c i (run (i, phosts c ! i, command))) order))"
proof -
  let ?tasks = "map (\<lambda>i. (i, phosts c ! i, command)) [0..<length (phosts c)]"
  have "get_output_from_cmds c False (\<lambda>i. run (?tasks ! i)) order =
      Inr (map (\<lambda>i. output_of c i (run (i, phosts c ! i, command))) order)"
    unfolding get_output_from_cmds_def
    by (rule join_all_ok) (use assms in \<open>auto simp: get_output_from_greenlet_configured\<close>)
  then show ?thesis by (simp add: par_run_command_def run_command_tasks_plain)
qed

definition two_hosts :: "nat pclient" where
  "two_hosts = \<lparr>phosts = [''a'', ''b''], phost_config = Some [default_config, default_config],
     pself = default_config, host_clients = Map.empty\<rparr>"

lemma two_hosts_configured: "configured two_hosts"
  by (auto simp: configured_def two_hosts_def get_host_config_def)

definition no_files :: pkey_files where
  "no_files = \<lparr>expand = id, exists = (\<lambda>p. False), contents = (\<lambda>p. Inl (POther p))\<rparr>"

definition out_of :: "string task \<Rightarrow> par_error + host_output" where
  "out_of t = (case t of (i, host, cmd) \<Rightarrow>
     if i = 0 then Inl PGeventTimeout
     else Inr \<lparr>ho_host = host, ho_channel = True, ho_client = True, ho_exception = None,
               ho_read_timeout = None, ho_command = Some cmd\<rparr>)"

theorem run_command_returns_all_outputs_witness:
  "snd (par_run_command two_hosts ''id'' [] False out_of [1, 0]) =
     Inr [Output \<lparr>ho_host = ''b'', ho_channel = True, ho_client = True, ho_exception = None,
                  ho_read_timeout = None, ho_command = Some ''id''\<rparr>, FailedOutput ''a'' PNone PTimeout]"
  using run_command_returns_all_outputs[OF two_hosts_configured, of "[1, 0]" "''id''" out_of]
  by (simp add: two_hosts_def output_of_def out_of_def as_timeout_def alias_of_def get_host_config_def
      default_config_def)



text \<open>
  With \<open>host_args\<close> that all format, the command of the \<open>i\<close>-th host is the template filled in with
  the \<open>i\<close>-th arguments.  Too few arguments raise \<open>HostArgumentError\<close>, but only after the commands of
  all hosts that do have arguments have been started; too many are accepted.
\<close>
theorem host_args_are_matched_by_index:
  assumes "host_args \<noteq> []" "\<And>a. a \<in> set host_args \<Longrightarrow> py_format command a = Inr (fmt a)"
  shows "run_command_tasks hs command host_args =
     (map (\<lambda>i. (i, hs ! i, fmt (host_args ! i))) [0..<min (length hs) (length host_args)],
      if length host_args < length hs then Some (PHostArgumentError host_args_msg) else None)"
proof -
  let ?f = "\<lambda>i (h :: string). format_with command host_args i"
  let ?k = "min (length hs) (length host_args)"
  have ok: "?f i h = Inr (fmt (host_args ! i))" if "(i, h) \<in> set (py_enumerate (take ?k hs))" for i h
  proof -
    from that have "i < length host_args" by simp
    with assms(2)[of "host_args ! i"] show ?thesis by (simp add: format_with_def)
  qed
  have m: "map (\<lambda>(i, h). (i, h, fmt (host_args ! i))) (py_enumerate (take ?k hs)) =
      map (\<lambda>i. (i, hs ! i, fmt (host_args ! i))) [0..<?k]"
    by (simp add: map_enumerate min.commute)
  show ?thesis
  proof (cases "length host_args < length hs")
    case True
    let ?pre = "py_enumerate (take ?k hs)" and ?post = "drop (Suc ?k) (py_enumerate hs)"
    from True have split: "py_enumerate hs = ?pre @ (?k, hs ! ?k) # ?post"
      by (intro enumerate_split) simp
    have stop: "?f ?k (hs ! ?k) = Inl PIndexError" using True by (simp add: format_with_def)
    have "spawn_each ?f (?pre @ (?k, hs ! ?k) # ?post) =
        (map (\<lambda>(i, h). (i, h, fmt (host_args ! i))) ?pre, Some PIndexError)"
      by (rule spawn_each_stops[of ?pre ?f "\<lambda>i h. fmt (host_args ! i)", OF ok stop])
    then have "spawn_each ?f (py_enumerate hs) =
        (map (\<lambda>(i, h). (i, h, fmt (host_args ! i))) ?pre, Some PIndexError)"
      by (simp only: split[symmetric])
    with m True assms(1) show ?thesis by (simp add: run_command_tasks_def index_error_as_def)
  next
    case False
    then have t: "take ?k hs = hs" by simp
    have "spawn_each ?f (py_enumerate (take ?k hs)) =
        (map (\<lambda>(i, h). (i, h, fmt (host_args ! i))) (py_enumerate (take ?k hs)), None)"
      by (rule spawn_each_ok[OF ok])
    then have "spawn_each ?f (py_enumerate hs) =
        (map (\<lambda>(i, h). (i, h, fmt (host_args ! i))) (py_enumerate (take ?k hs)), None)"
      by (simp only: t)
    with m False assms(1) show ?thesis by (simp add: run_command_tasks_def index_error_as_def)
  qed
qed

theorem host_args_are_matched_by_index_witness:
  "run_command_tasks [''a'', ''b''] ''id %s'' [PStr ''x''] =
     ([(0, ''a'', ''id x'')], Some (PHostArgumentError host_args_msg))"
proof -
  have "py_format ''id %s'' (PStr ''x'') = Inr ''id x''" by code_simp
  then have "py_format ''id %s'' a = Inr (''id '' @ py_str a)" if "a \<in> set [PStr ''x'']" for a
    using that by simp
  with host_args_are_matched_by_index[where host_args = "[PStr ''x'']" and command = "''id %s''"
      and fmt = "\<lambda>a. ''id '' @ py_str a" and hs = "[''a'', ''b'']"]
  show ?thesis by simp
qed

text \<open>
  Setting \<open>hosts\<close> keeps the clients of the hosts that stay where they were and drops all others,
  so that the cache only ever holds clients of the current hosts.
\<close>
theorem set_hosts_keeps_unmoved_clients:
  assumes "clients_ok c" "set_hosts new c = (Inr (), c')"
  shows "clients_ok c' \<and> (\<forall>k. host_clients c' k = (if k \<in> host_keys (phosts c') then host_clients c k else None))"
proof -
  obtain hs where hs: "validate_hosts new = Inr hs" "phosts c' = hs"
    "host_clients c' = fold (\<lambda>k m. m(k := None))
       (filter (\<lambda>k. k \<notin> set (py_enumerate hs)) (py_enumerate (phosts c))) (host_clients c)"
    using assms(2) by (auto simp: set_hosts_def Let_def split: sum.splits)
  have "host_clients c' k = (if k \<in> host_keys hs then host_clients c k else None)" for k
    using assms(1) unfolding hs(3) fold_remove
    by (cases k; cases "host_clients c k") (auto simp: clients_ok_def host_keys_def)
  with hs(2) show ?thesis by (auto simp: clients_ok_def)
qed

theorem set_hosts_keeps_unmoved_clients_witness:
  "let c = two_hosts\<lparr>host_clients := [(0, ''a'') \<mapsto> 7, (1, ''b'') \<mapsto> 8]\<rparr>;
       c' = snd (set_hosts (HList [''a'', ''c'', ''b'']) c)
   in host_clients c' (0, ''a'') = Some 7 \<and> host_clients c' (1, ''b'') = None"
proof -
  let ?c = "two_hosts\<lparr>host_clients := [(0, ''a'') \<mapsto> 7, (1, ''b'') \<mapsto> 8]\<rparr>"
  let ?s = "set_hosts (HList [''a'', ''c'', ''b'']) ?c"
  have ok: "clients_ok ?c" by (auto simp: clients_ok_def host_keys_def two_hosts_def)
  have s: "?s = (Inr (), snd ?s)" and h: "phosts (snd ?s) = [''a'', ''c'', ''b'']"
    by (simp_all add: set_hosts_def validate_hosts_def Let_def)
  from set_hosts_keeps_unmoved_clients[OF ok s] h show ?thesis
    by (simp add: Let_def host_keys_def less_Suc_eq eval_nat_numeral)
qed

text \<open>
  A client that \<open>_get_ssh_client\<close> returned is kept: asking again for the same index and host
  returns it without making another, whatever the constructor or the key files would do then; a
  constructor that raises leaves the cache as it was.
\<close>
theorem clients_are_reused:
  "(case get_ssh_client F client_args construct i host c of
      (Inl e, c') \<Rightarrow> c' = c
    | (Inr client, c') \<Rightarrow> get_ssh_client F' client_args' construct' i host c' = (Inr client, c'))"
proof (cases "get_ssh_client F client_args construct i host c")
  case (Pair r c')
  then show ?thesis
  proof (cases r)
    case (Inl e)
    with Pair show ?thesis by (auto dest: get_ssh_client_Inl)
  next
    case (Inr client)
    with get_ssh_client_Inr[of F client_args construct i host c client c'] Pair
    have "host_clients c' (i, host) = Some client" by simp
    with Pair Inr show ?thesis by (simp add: get_ssh_client_def)
  qed
qed

text \<open>
  A per-host value that is false cannot override a value of the client that is true: both
  clients merge with \<open>cfg.x or self.x\<close>.  A host configured not to use the agent, not to use the
  identity files or to send no keep-alives does what the client says.
\<close>
theorem false_overrides_are_ignored:
  "hc_allow_agent (native_client_args self (cfg\<lparr>hc_allow_agent := PBool False\<rparr>) k) = hc_allow_agent self \<and>
   hc_identity_auth (native_client_args self (cfg\<lparr>hc_identity_auth := PBool False\<rparr>) k) = hc_identity_auth self \<and>
   hc_keepalive_seconds (native_client_args self (cfg\<lparr>hc_keepalive_seconds := PInt 0\<rparr>) k) = hc_keepalive_seconds self \<and>
   hc_allow_agent (ssh_client_args self (cfg\<lparr>hc_allow_agent := PBool False\<rparr>) k) = hc_allow_agent self"
  by (simp add: native_client_args_def ssh_client_args_def)

text \<open>
  The number of host configurations is checked when a client is made but not when its hosts are
  set: after that \<open>run_command\<close> raises \<open>IndexError\<close> even with \<open>stop_on_errors=False\<close>.
\<close>
theorem set_hosts_can_outgrow_host_config:
  "check_host_config (phosts two_hosts) (phost_config two_hosts) True = Inr () \<and>
   fst (set_hosts (HList [''a'', ''b'', ''c'']) two_hosts) = Inr () \<and>
   snd (par_run_command (snd (set_hosts (HList [''a'', ''b'', ''c'']) two_hosts)) ''id'' [] False out_of [0, 1, 2]) =
     Inl PIndexError"
  by (simp add: check_host_config_def two_hosts_def set_hosts_def validate_hosts_def Let_def par_run_command_def
      run_command_tasks_plain get_output_from_cmds_def get_output_from_greenlet_def get_host_config_def out_of_def
      eval_nat_numeral)

text \<open>
  \<open>copy_file\<close> of the parallel client hands the dictionary \<open>{'recurse': ...}\<close> to \<open>_copy_file\<close> as its
  positional \<open>recurse\<close>, which is true whatever was asked for: directories are always copied
  recursively.
\<close>
theorem copy_file_always_recurses:
  assumes "(i, host, l, r, recurse_arg) \<in> set (fst (copy_file_tasks hs local_file remote_file recurse copy_args))"
  shows "truthy recurse_arg"
proof -
  have "recurse_arg = PDict [(''recurse'', recurse)]"
    using assms
    by (cases "copy_args = []")
       (auto simp: copy_file_tasks_def Let_def dest!: spawn_each_args split: prod.splits sum.splits
         simp: map_sum_def prod_eq_iff dest: arg_cong[where f = fst])
  then show ?thesis by simp
qed

theorem copy_file_always_recurses_witness:
  "(0, ''a'', ''dir'', ''dest'', PDict [(''recurse'', PBool False)]) \<in>
     set (fst (copy_file_tasks [''a''] ''dir'' ''dest'' (PBool False) [])) \<and>
   truthy (PDict [(''recurse'', PBool False)])"
proof -
  have m: "(0, ''a'', ''dir'', ''dest'', PDict [(''recurse'', PBool False)]) \<in>
      set (fst (copy_file_tasks [''a''] ''dir'' ''dest'' (PBool False) []))"
    by (simp add: copy_file_tasks_def)
  with copy_file_always_recurses[OF m] show ?thesis by simp
qed

text \<open>
  Without \<open>copy_args\<close> the files that \<open>copy_remote_file\<close> makes for different hosts have different
  names: the local name followed by the separator and the host.
\<close>
theorem remote_copies_have_distinct_names:
  assumes "distinct hs"
  shows "snd (copy_remote_file_tasks hs remote_file local_file recurse sep []) = None \<and>
    map (\<lambda>(i, host, r, l, rec). (host, l)) (fst (copy_remote_file_tasks hs remote_file local_file recurse sep [])) =
      map (\<lambda>host. (host, local_file @ sep @ host)) hs \<and>
    distinct (map (\<lambda>(i, host, r, l, rec). l) (fst (copy_remote_file_tasks hs remote_file local_file recurse sep [])))"
proof -
  have t: "copy_remote_file_tasks hs remote_file local_file recurse sep [] =
      (map (\<lambda>(i, h). (i, h, remote_file, local_file @ sep @ h, recurse)) (py_enumerate hs), None)"
    using spawn_each_ok[of "py_enumerate hs" "\<lambda>i h. Inr (remote_file, local_file @ sep @ h, recurse)"
        "\<lambda>i h. (remote_file, local_file @ sep @ h, recurse)"]
    by (simp add: copy_remote_file_tasks_def)
  have l: "map (\<lambda>(i, h). f h) (py_enumerate hs) = map f hs" for f :: "string \<Rightarrow> 'z"
    by (rule nth_equalityI) (simp_all add: nth_enumerate_eq)
  have "distinct (map (\<lambda>h. local_file @ sep @ h) hs)"
    using assms by (simp add: distinct_map inj_on_def)
  with t l[of "\<lambda>h. local_file @ sep @ h"] l[of "\<lambda>h. (h, local_file @ sep @ h)"] show ?thesis
    by (simp add: comp_def case_prod_unfold)
qed

theorem remote_copies_have_distinct_names_witness:
  "map (\<lambda>(i, host, r, l, rec). (host, l)) (fst (copy_remote_file_tasks [''a'', ''b''] ''/f'' ''f'' (PBool False) ''_'' [])) =
     [(''a'', ''f_a''), (''b'', ''f_b'')]"
  using remote_copies_have_distinct_names[of "[''a'', ''b'']" "''/f''" "''f''" "PBool False" "''_''"] by simp

text \<open>
  When \<open>join\<close> returns, no joined command raised; with a timeout every one of them has finished,
  and otherwise \<open>Timeout\<close> is raised.
\<close>
theorem join_returns_when_all_finished:
  assumes "par_join result n fins timeout_given = Inr ()"
  shows "(\<forall>i. i \<in> set fins \<longrightarrow> \<not> isl (result i)) \<and> (timeout_given \<longrightarrow> {..<n} \<subseteq> set fins)"
  using assms
  by (auto simp: par_join_def list_all_iff subset_iff split: sum.splits if_splits dest!: join_all_Inr)

theorem join_returns_when_all_finished_witness:
  "par_join (\<lambda>i. Inr None) 2 [1, 0] True = Inr () \<and> {..<2} \<subseteq> set [1, 0 :: nat]"
proof -
  have j: "par_join (\<lambda>i. Inr None) 2 [1, 0] True = Inr ()" by (simp add: par_join_def eval_nat_numeral)
  from join_returns_when_all_finished[OF this] j show ?thesis by blast
qed

text \<open>
  \<open>finished\<close> is true exactly when the command of every output that has a client is finished;
  outputs of hosts that failed to connect count as finished.
\<close>
theorem finished_when_all_clients_finished:
  "all_finished client_finished outs = Inr True \<longleftrightarrow>
     (\<forall>ho. Output ho \<in> set outs \<and> ho_client ho \<longrightarrow> client_finished ho = Inr True)"
proof (induction outs)
  case (Cons out outs)
  show ?case
  proof (cases out)
    case (Output ho)
    with Cons show ?thesis by (cases "client_finished ho") auto
  qed (use Cons in auto)
qed simp

theorem finished_when_all_clients_finished_witness:
  "all_finished (\<lambda>ho. Inr True) [FailedOutput ''a'' PNone PTimeout, Output example_output] = Inr True"
  using finished_when_all_clients_finished[of "\<lambda>ho. Inr True"
      "[FailedOutput ''a'' PNone PTimeout, Output example_output]"] by simp

end
