(* ===== verification/Sftp_Upload.thy ===== *)
theory Sftp_Upload
  imports Py_Strings
begin

text \<open>
  Copying to a host over SFTP: \<open>_make_sftp\<close>, \<open>_mkdir\<close>, \<open>mkdir\<close>, \<open>copy_file\<close>, \<open>_sftp_put\<close> and
  \<open>sftp_put\<close> of \<open>pssh/clients/native/single.py\<close>, and \<open>_copy_dir\<close> and \<open>_remote_paths_split\<close> of
  \<open>pssh/clients/base/single.py\<close>.

  The state is the list of requests made so far, and what the server answers to the last of them is
  a function of that list.  A request goes through \<open>eagain\<close> or \<open>eagain_write\<close> (\<open>Polling\<close>) and is one
  event here.  The local files are a tree; a directory lists its entries in the order of
  \<open>os.listdir\<close>.
\<close>

section \<open>Data\<close>

datatype xfer_event =
    SftpInit
  | Stat string
  | Mkdir string
  | OpenWrite string
  | WriteData bytes
  | CloseFile
  | OpenDir string
  | OpenRead string
  | ReadData
  | MakeLocalDirs string
  | OpenLocal string
  | WriteLocal bytes
  | CloseLocal
  | ScpSend string nat
  | ScpFlush
  | ScpSendEof
  | ScpWaitEof
  | ScpWaitClosed
  | ScpRecv string
  | ScpClose

datatype xfer_error =
    SFTPHandleError
  | SFTPProtocolError
  | SFTPErr xfer_error
  | SFTPIOErr string
  | SCPErr string
  | RecurseValueError
  | DecodeError
  | LocalOSError
  | OtherXferError string

type_synonym 'a xfer_prog = "(xfer_event list, xfer_error, 'a) prog"

type_synonym server = "xfer_event list \<Rightarrow> xfer_error option"

datatype node = FileN "xfer_error + bytes" | DirN "(string \<times> node) list"

definition request :: "server \<Rightarrow> xfer_event \<Rightarrow> unit xfer_prog" where
  "request S ev = (\<lambda>h. (case S (h @ [ev]) of None \<Rightarrow> Inr () | Some e \<Rightarrow> Inl e, h @ [ev]))"

text \<open>\<open>except (SFTPHandleError, SFTPProtocolError)\<close>.\<close>

definition missing :: "xfer_error \<Rightarrow> bool" where
  "missing e \<longleftrightarrow> e = SFTPHandleError \<or> e = SFTPProtocolError"

section \<open>Directories\<close>

definition make_sftp :: "server \<Rightarrow> unit xfer_prog" where
  "make_sftp S = attempt (request S SftpInit) (\<lambda>ex. throw (SFTPErr ex))"

definition sftp_mkdir1 :: "server \<Rightarrow> string \<Rightarrow> unit xfer_prog" where
  "sftp_mkdir1 S directory =
     attempt (request S (Mkdir directory))
       (\<lambda>e. throw (if e = SFTPProtocolError then SFTPIOErr directory else e))"

definition ensure_dir :: "server \<Rightarrow> string \<Rightarrow> unit xfer_prog \<Rightarrow> unit xfer_prog" where
  "ensure_dir S p make = attempt (request S (Stat p)) (\<lambda>e. if missing e then make else throw e)"

fun mkdir_from :: "server \<Rightarrow> string \<Rightarrow> string list \<Rightarrow> unit xfer_prog" where
  "mkdir_from S cwd [] = return ()"
| "mkdir_from S cwd (cur_dir # paths) =
     (let cwd' = cwd @ SLASH # cur_dir in
      andthen (ensure_dir S cwd' (sftp_mkdir1 S cwd')) (mkdir_from S cwd' paths))"

definition mkdir_start :: "string \<Rightarrow> string" where
  "mkdir_start directory = (if starts_with SLASH directory then [] else ''.'')"

definition sftp_mkdir :: "server \<Rightarrow> string \<Rightarrow> unit xfer_prog" where
  "sftp_mkdir S directory = mkdir_from S (mkdir_start directory) (nonempty_components directory)"

section \<open>Files\<close>

text \<open>\<open>read(n)\<close> until it returns nothing.\<close>

function read_chunks :: "nat \<Rightarrow> bytes \<Rightarrow> bytes list" where
  "read_chunks n d = (if d = [] \<or> n = 0 then [] else take n d # read_chunks n (drop n d))"
  by pat_completeness auto
termination by (relation "measure (length \<circ> snd)") auto

declare read_chunks.simps [simp del]

definition BUF_SIZE :: nat where "BUF_SIZE = 2048 * 1024"

fun write_chunks :: "server \<Rightarrow> bytes list \<Rightarrow> unit xfer_prog" where
  "write_chunks S [] = return ()"
| "write_chunks S (d # ds) = andthen (request S (WriteData d)) (write_chunks S ds)"

definition sftp_put_data :: "server \<Rightarrow> xfer_error + bytes \<Rightarrow> unit xfer_prog" where
  "sftp_put_data S local_file =
     (case local_file of Inl e \<Rightarrow> throw e | Inr d \<Rightarrow> write_chunks S (read_chunks BUF_SIZE d))"

definition sftp_openfh :: "server \<Rightarrow> xfer_event \<Rightarrow> unit xfer_prog" where
  "sftp_openfh S ev = attempt (request S ev) (\<lambda>ex. throw (SFTPErr ex))"

definition close_file :: "unit xfer_prog" where
  "close_file = update (\<lambda>h. h @ [CloseFile])"

definition sftp_put :: "server \<Rightarrow> xfer_error + bytes \<Rightarrow> string \<Rightarrow> unit xfer_prog" where
  "sftp_put S local_file remote_file =
     andthen (sftp_openfh S (OpenWrite remote_file))
       (ensuring
         (attempt (sftp_put_data S local_file)
           (\<lambda>ex. throw (if ex = SFTPProtocolError then SFTPIOErr remote_file else ex)))
         close_file)"

definition remote_paths_split :: "string \<Rightarrow> string option" where
  "remote_paths_split file_path =
     (let sep = rfind SLASH file_path in
      if sep > 0 then Some (take (nat sep) file_path) else None)"

text \<open>\<open>copy_file\<close> and \<open>_copy_dir\<close> on a local tree; the SFTP channel has been made.\<close>

fun copy_file :: "server \<Rightarrow> node \<Rightarrow> string \<Rightarrow> bool \<Rightarrow> unit xfer_prog"
  and copy_entries :: "server \<Rightarrow> (string \<times> node) list \<Rightarrow> string \<Rightarrow> unit xfer_prog" where
  "copy_file S (DirN entries) remote_file recurse =
     (if recurse then andthen (sftp_mkdir S remote_file) (copy_entries S entries remote_file)
      else throw RecurseValueError)"
| "copy_file S (FileN local_file) remote_file recurse =
     andthen
       (case remote_paths_split remote_file of
          None \<Rightarrow> return ()
        | Some destination \<Rightarrow> ensure_dir S destination (sftp_mkdir S destination))
       (sftp_put S local_file remote_file)"
| "copy_entries S [] remote_dir = return ()"
| "copy_entries S ((file_name, n) # entries) remote_dir =
     andthen (copy_file S n (remote_dir @ SLASH # file_name) True) (copy_entries S entries remote_dir)"

text \<open>The method as it is called, with a channel of its own.\<close>

definition copy_file_to_host :: "server \<Rightarrow> node \<Rightarrow> string \<Rightarrow> bool \<Rightarrow> unit xfer_prog" where
  "copy_file_to_host S local_file remote_file recurse =
     andthen (make_sftp S) (copy_file S local_file remote_file recurse)"

section \<open>What a directory creation leaves behind\<close>

text \<open>The directories on the way, outermost first, and the paths of the requests of a history.\<close>

fun mkdir_paths :: "string \<Rightarrow> string list \<Rightarrow> string list" where
  "mkdir_paths cwd [] = []"
| "mkdir_paths cwd (d # ds) = (cwd @ SLASH # d) # mkdir_paths (cwd @ SLASH # d) ds"

definition parents :: "string \<Rightarrow> string list" where
  "parents directory = mkdir_paths (mkdir_start directory) (nonempty_components directory)"

fun stats :: "xfer_event list \<Rightarrow> string list" where
  "stats [] = []" | "stats (Stat p # evs) = p # stats evs" | "stats (_ # evs) = stats evs"

fun made :: "xfer_event list \<Rightarrow> string list" where
  "made [] = []" | "made (Mkdir p # evs) = p # made evs" | "made (_ # evs) = made evs"

lemma stats_append [simp]: "stats (xs @ ys) = stats xs @ stats ys"
  by (induction xs rule: stats.induct) auto

lemma made_append [simp]: "made (xs @ ys) = made xs @ made ys"
  by (induction xs rule: made.induct) auto

text \<open>
  A server whose directories are \<open>ex\<close>: a path can be looked up exactly when it exists, a directory
  that was made exists, and neither of these requests removes one.
\<close>

definition keeps_dirs :: "server \<Rightarrow> (xfer_event list \<Rightarrow> string \<Rightarrow> bool) \<Rightarrow> bool" where
  "keeps_dirs S ex \<longleftrightarrow>
     (\<forall>h p. (S (h @ [Stat p]) = None) = ex h p) \<and>
     (\<forall>h p q. ex h q \<longrightarrow> ex (h @ [Stat p]) q \<and> ex (h @ [Mkdir p]) q) \<and>
     (\<forall>h p. S (h @ [Mkdir p]) = None \<longrightarrow> ex (h @ [Mkdir p]) p)"

lemma request_apply: "request S ev h = (case S (h @ [ev]) of None \<Rightarrow> Inr () | Some e \<Rightarrow> Inl e, h @ [ev])"
  by (simp add: request_def)

lemma attempt_throw_Inr: "attempt m (\<lambda>e. throw (f e)) h = (Inr x, h') \<longleftrightarrow> m h = (Inr x, h')"
  by (cases "m h"; cases "fst (m h)") auto

lemma mkdir_from_result:
  assumes "keeps_dirs S ex" "mkdir_from S cwd ds h = (Inr (), h')"
  shows "\<exists>evs. h' = h @ evs \<and> stats evs = mkdir_paths cwd ds \<and>
    (\<forall>p. p \<in> set (mkdir_paths cwd ds) \<longrightarrow> ex h' p) \<and> (\<forall>p. ex h p \<longrightarrow> ex h' p) \<and>
    (\<forall>p. p \<in> set (made evs) \<longrightarrow> \<not> ex h p)"
  using assms(2)
proof (induction ds arbitrary: cwd h)
  case Nil
  then show ?case by (intro exI[of _ "[]"]) simp
next
  case (Cons d ds)
  let ?p = "cwd @ SLASH # d"
  from Cons.prems obtain h1 where 1: "ensure_dir S ?p (sftp_mkdir1 S ?p) h = (Inr (), h1)"
    "mkdir_from S ?p ds h1 = (Inr (), h')" by (auto simp: Let_def elim!: bind_InrE)
  have e: "\<exists>ms. h1 = h @ Stat ?p # ms \<and> stats ms = [] \<and> ex h1 ?p \<and> (\<forall>q. ex h q \<longrightarrow> ex h1 q) \<and>
      (\<forall>q. q \<in> set (made ms) \<longrightarrow> \<not> ex h q)"
  proof (cases "S (h @ [Stat ?p])")
    case None
    with 1(1) have h1: "h1 = h @ [Stat ?p]" by (simp add: ensure_dir_def request_apply)
    with None assms(1) have "ex h ?p" by (auto simp: keeps_dirs_def)
    with h1 assms(1) show ?thesis by (intro exI[of _ "[]"]) (auto simp: keeps_dirs_def)
  next
    case (Some err)
    with 1(1) have m: "sftp_mkdir1 S ?p (h @ [Stat ?p]) = (Inr (), h1)"
      by (auto simp: ensure_dir_def request_apply split: if_splits)
    then have h1: "h1 = h @ [Stat ?p, Mkdir ?p]" "S (h @ [Stat ?p] @ [Mkdir ?p]) = None"
      by (auto simp: sftp_mkdir1_def attempt_throw_Inr request_apply split: option.splits)
    have "(S (h @ [Stat ?p]) = None) = ex h ?p" using assms(1) unfolding keeps_dirs_def by blast
    with Some have "\<not> ex h ?p" by simp
    moreover have "ex h1 ?p" "\<And>q. ex h q \<Longrightarrow> ex h1 q"
      using h1 assms(1) unfolding keeps_dirs_def by (metis append.assoc append_Cons append_Nil)+
    ultimately show ?thesis using h1 by (intro exI[of _ "[Mkdir ?p]"]) simp
  qed
  then obtain ms where ms: "h1 = h @ Stat ?p # ms" "stats ms = []" "ex h1 ?p" "\<And>q. ex h q \<Longrightarrow> ex h1 q"
    "\<And>q. q \<in> set (made ms) \<Longrightarrow> \<not> ex h q" by blast
  from Cons.IH[OF 1(2)] obtain evs where evs: "h' = h1 @ evs" "stats evs = mkdir_paths ?p ds"
    "\<And>q. q \<in> set (mkdir_paths ?p ds) \<Longrightarrow> ex h' q" "\<And>q. ex h1 q \<Longrightarrow> ex h' q"
    "\<And>q. q \<in> set (made evs) \<Longrightarrow> \<not> ex h1 q" by blast
  have "\<And>q. ex h q \<Longrightarrow> ex h' q" "ex h' ?p" using ms(3,4) evs(4) by blast+
  moreover have "\<And>q. q \<in> set (made (ms @ evs)) \<Longrightarrow> \<not> ex h q" using ms(4,5) evs(5) by auto
  ultimately show ?case
    using ms(1,2) evs(1-3) by (intro exI[of _ "Stat ?p # ms @ evs"]) auto
qed

section \<open>What a copy leaves behind\<close>

lemma concat_read_chunks: "0 < n \<Longrightarrow> concat (read_chunks n d) = d"
  by (induction n d rule: read_chunks.induct) (subst read_chunks.simps, auto)

lemma read_chunks_short: "d \<noteq> [] \<Longrightarrow> length d \<le> n \<Longrightarrow> read_chunks n d = [d]"
  using read_chunks.simps[of n d] read_chunks.simps[of n "[]"] by (cases n) auto

fun is_write :: "xfer_event \<Rightarrow> bool" where
  "is_write (WriteData _) = True" | "is_write _ = False"

fun data_of :: "xfer_event \<Rightarrow> bytes" where
  "data_of (WriteData d) = d" | "data_of _ = []"

text \<open>The files that the requests of a history write, with their data.\<close>

fun uploaded :: "xfer_event list \<Rightarrow> (string \<times> bytes) list" where
  "uploaded [] = []"
| "uploaded (OpenWrite p # evs) = (p, concat (map data_of (takeWhile is_write evs))) # uploaded evs"
| "uploaded (ScpSend p n # evs) = (p, concat (map data_of (takeWhile is_write evs))) # uploaded evs"
| "uploaded (_ # evs) = uploaded evs"

text \<open>The files of a tree, with the paths they are copied to.\<close>

fun files_of :: "node \<Rightarrow> string \<Rightarrow> (string \<times> bytes) list"
  and entries_of :: "(string \<times> node) list \<Rightarrow> string \<Rightarrow> (string \<times> bytes) list" where
  "files_of (FileN (Inr d)) path = [(path, d)]"
| "files_of (FileN (Inl e)) path = []"
| "files_of (DirN entries) path = entries_of entries path"
| "entries_of [] dir = []"
| "entries_of ((file_name, n) # entries) dir =
     files_of n (dir @ SLASH # file_name) @ entries_of entries dir"

definition starts_clean :: "xfer_event list \<Rightarrow> bool" where
  "starts_clean evs \<longleftrightarrow> evs = [] \<or> \<not> is_write (hd evs)"

lemma takeWhile_clean: "starts_clean ys \<Longrightarrow> takeWhile is_write (evs @ ys) = takeWhile is_write evs"
  by (induction evs) (cases ys, auto simp: starts_clean_def)

lemma uploaded_append: "starts_clean ys \<Longrightarrow> uploaded (xs @ ys) = uploaded xs @ uploaded ys"
proof (induction xs rule: uploaded.induct)
  case (2 p evs)
  with takeWhile_clean show ?case by simp
next
  case (3 p n evs)
  with takeWhile_clean show ?case by simp
qed auto

text \<open>A program that, when it returns, has written a list of files.\<close>

definition copies :: "(string \<times> bytes) list \<Rightarrow> unit xfer_prog \<Rightarrow> bool" where
  "copies files m \<longleftrightarrow> (\<forall>h h'. m h = (Inr (), h') \<longrightarrow>
     (\<exists>evs. h' = h @ evs \<and> starts_clean evs \<and> uploaded evs = files))"

lemma copiesE:
  assumes "copies files m" "m h = (Inr (), h')"
  obtains evs where "h' = h @ evs" "starts_clean evs" "uploaded evs = files"
  using assms by (auto simp: copies_def)

lemma copies_return: "copies [] (return ())" "copies [] (Pair (Inr ()))"
  by (simp_all add: copies_def starts_clean_def)

lemma copies_throw: "copies files (throw e)"
  by (simp add: copies_def)

lemma copies_andthen:
  assumes "copies f1 m" "copies f2 k"
  shows "copies (f1 @ f2) (andthen m k)"
  unfolding copies_def
proof (intro allI impI)
  fix h h' assume "andthen m k h = (Inr (), h')"
  then obtain h1 where "m h = (Inr (), h1)" "k h1 = (Inr (), h')" by (auto elim: bind_InrE)
  with assms obtain e1 e2 where "h1 = h @ e1" "starts_clean e1" "uploaded e1 = f1"
    "h' = h1 @ e2" "starts_clean e2" "uploaded e2 = f2" by (metis copies_def)
  with uploaded_append[of e2 e1] show "\<exists>evs. h' = h @ evs \<and> starts_clean evs \<and> uploaded evs = f1 @ f2"
    by (intro exI[of _ "e1 @ e2"]) (cases e1, auto simp: starts_clean_def)
qed

lemma copies_stat_mkdir:
  "copies [] (request S (Stat p))" "copies [] (request S (Mkdir p))" "copies [] (request S SftpInit)"
  by (auto simp: copies_def request_apply starts_clean_def)

lemma copies_ensure_dir: "copies [] make \<Longrightarrow> copies [] (ensure_dir S p make)"
  unfolding copies_def
proof (intro allI impI)
  fix h h' assume make: "\<forall>h h'. make h = (Inr (), h') \<longrightarrow> (\<exists>evs. h' = h @ evs \<and> starts_clean evs \<and> uploaded evs = [])"
    and e: "ensure_dir S p make h = (Inr (), h')"
  show "\<exists>evs. h' = h @ evs \<and> starts_clean evs \<and> uploaded evs = []"
  proof (cases "S (h @ [Stat p])")
    case None
    with e show ?thesis by (intro exI[of _ "[Stat p]"]) (simp add: ensure_dir_def request_apply starts_clean_def)
  next
    case (Some err)
    with e have "make (h @ [Stat p]) = (Inr (), h')"
      by (auto simp: ensure_dir_def request_apply split: if_splits)
    with make obtain evs where "h' = (h @ [Stat p]) @ evs" "uploaded evs = []" by blast
    then show ?thesis by (intro exI[of _ "Stat p # evs"]) (simp add: starts_clean_def)
  qed
qed

lemma copies_mkdir: "copies [] (sftp_mkdir S directory)"
proof -
  have "copies [] (sftp_mkdir1 S p)" for p
    using copies_stat_mkdir(2)[of S p] by (simp add: sftp_mkdir1_def copies_def attempt_throw_Inr)
  then have "copies [] (mkdir_from S cwd ds)" for cwd ds
  proof (induction ds arbitrary: cwd)
    case (Cons d ds)
    then show ?case
      using copies_andthen[of "[]" _ "[]"] by (simp add: Let_def copies_ensure_dir)
  qed (simp add: copies_return)
  then show ?thesis by (simp add: sftp_mkdir_def)
qed

lemma write_chunks_result:
  "write_chunks S ds h = (r, h') \<Longrightarrow>
     \<exists>k \<le> length ds. h' = h @ map WriteData (take k ds) \<and> (r = Inr () \<longrightarrow> k = length ds)"
proof (induction ds arbitrary: h)
  case (Cons d ds)
  show ?case
  proof (cases "S (h @ [WriteData d])")
    case None
    with Cons.prems have "write_chunks S ds (h @ [WriteData d]) = (r, h')"
      by (simp add: request_apply bind_def)
    from Cons.IH[OF this] obtain k where "k \<le> length ds"
      "h' = (h @ [WriteData d]) @ map WriteData (take k ds)" "r = Inr () \<longrightarrow> k = length ds" by blast
    then show ?thesis by (intro exI[of _ "Suc k"]) simp
  next
    case (Some e)
    with Cons.prems show ?thesis by (intro exI[of _ 1]) (auto simp: request_apply bind_def)
  qed
qed auto

lemma uploaded_file:
  "uploaded (OpenWrite p # map WriteData ds @ [CloseFile]) = [(p, concat ds)]"
proof -
  have "takeWhile is_write (map WriteData ds @ [CloseFile]) = map WriteData ds"
    by (induction ds) auto
  moreover have "map data_of (map WriteData ds) = ds" by (induction ds) auto
  moreover have "uploaded (map WriteData ds @ [CloseFile]) = []" by (induction ds) auto
  ultimately show ?thesis by simp
qed

lemma copies_put: "copies (files_of (FileN local_file) p) (sftp_put S local_file p)"
  unfolding copies_def
proof (intro allI impI)
  fix h h' assume put: "sftp_put S local_file p h = (Inr (), h')"
  let ?body = "attempt (sftp_put_data S local_file)
      (\<lambda>ex. throw (if ex = SFTPProtocolError then SFTPIOErr p else ex))"
  from put have o: "ensuring ?body close_file (h @ [OpenWrite p]) = (Inr (), h')"
    by (auto simp: sftp_put_def sftp_openfh_def attempt_throw_Inr request_apply elim!: bind_InrE split: option.splits)
  obtain r h1 where b: "?body (h @ [OpenWrite p]) = (r, h1)" by force
  with o have r: "r = Inr ()" "h' = h1 @ [CloseFile]" by (auto simp: ensuring_def close_file_def)
  with b have d: "sftp_put_data S local_file (h @ [OpenWrite p]) = (Inr (), h1)"
    by (simp add: attempt_throw_Inr)
  show "\<exists>evs. h' = h @ evs \<and> starts_clean evs \<and> uploaded evs = files_of (FileN local_file) p"
  proof (cases local_file)
    case (Inl e)
    with d show ?thesis by (simp add: sftp_put_data_def)
  next
    case (Inr data)
    with d have "write_chunks S (read_chunks BUF_SIZE data) (h @ [OpenWrite p]) = (Inr (), h1)"
      by (simp add: sftp_put_data_def)
    from write_chunks_result[OF this]
    have "h1 = (h @ [OpenWrite p]) @ map WriteData (read_chunks BUF_SIZE data)" by auto
    then have "h' = h @ OpenWrite p # map WriteData (read_chunks BUF_SIZE data) @ [CloseFile]"
      by (simp add: r(2))
    moreover have "concat (read_chunks BUF_SIZE data) = data"
      by (rule concat_read_chunks) (simp add: BUF_SIZE_def)
    moreover have "uploaded (OpenWrite p # map WriteData (read_chunks BUF_SIZE data) @ [CloseFile]) =
        [(p, concat (read_chunks BUF_SIZE data))]" by (rule uploaded_file)
    ultimately show ?thesis using Inr
      by (intro exI[of _ "OpenWrite p # map WriteData (read_chunks BUF_SIZE data) @ [CloseFile]"])
         (simp add: starts_clean_def del: uploaded.simps)
  qed
qed

lemma copies_copy_file:
  "copies (files_of n p) (copy_file S n p recurse)"
  "copies (entries_of es p) (copy_entries S es p)"
proof (induction S n p recurse and S es p rule: copy_file_copy_entries.induct)
  case (1 S entries remote_file recurse)
  then show ?case
    using copies_andthen[OF copies_mkdir, of _ "copy_entries S entries remote_file"] by (simp add: copies_throw)
next
  case (2 S local_file remote_file recurse)
  have "copies [] (case remote_paths_split remote_file of None \<Rightarrow> return ()
      | Some destination \<Rightarrow> ensure_dir S destination (sftp_mkdir S destination))"
    by (simp add: copies_return copies_ensure_dir copies_mkdir split: option.split)
  from copies_andthen[OF this copies_put] show ?case by simp
next
  case (3 S remote_dir)
  then show ?case by (simp add: copies_return)
next
  case (4 S file_name n entries remote_dir)
  then show ?case by (simp add: copies_andthen)
qed

lemma copy_file_to_host_result:
  assumes "copy_file_to_host S n remote_file recurse h = (Inr (), h')"
  shows "\<exists>evs. h' = h @ evs \<and> uploaded evs = files_of n remote_file"
proof -
  have "copies [] (make_sftp S)"
    using copies_stat_mkdir(3)[of S] by (simp add: make_sftp_def copies_def attempt_throw_Inr)
  from copies_andthen[OF this copies_copy_file(1)]
  have "copies (files_of n remote_file) (copy_file_to_host S n remote_file recurse)"
    by (simp add: copy_file_to_host_def)
  with assms show ?thesis by (auto elim: copiesE)
qed

section \<open>Properties\<close>

text \<open>
  C13: When \<open>copy_file\<close> returns, the server has been sent every file of the local tree, once and in
  the order of the listings, to its path below the remote name, and the data written to each is the
  data of the local file, whatever its size.
\<close>
theorem copy_file_uploads_the_tree:
  assumes "copy_file_to_host S n remote_file recurse h = (Inr (), h')"
  shows "\<exists>evs. h' = h @ evs \<and> uploaded evs = files_of n remote_file"
  by (rule copy_file_to_host_result[OF assms])

definition small_tree :: node where
  "small_tree = DirN [(''a'', FileN (Inr [])), (''s'', DirN [(''b'', FileN (Inr []))])]"

theorem copy_file_uploads_the_tree_witness:
  "\<exists>evs. snd (copy_file_to_host (\<lambda>h. None) small_tree ''/d'' True []) = evs \<and>
     uploaded evs = [(''/d/a'', []), (''/d/s/b'', [])]"
proof -
  have "read_chunks BUF_SIZE [] = []" by (simp add: read_chunks.simps)
  then have "fst (copy_file_to_host (\<lambda>h. None) small_tree ''/d'' True []) = Inr ()"
    by (simp add: copy_file_to_host_def make_sftp_def small_tree_def request_def bind_def attempt_def
        sftp_mkdir_def mkdir_start_def nonempty_components_def starts_with_def Let_def ensure_dir_def
        sftp_put_def sftp_openfh_def sftp_put_data_def ensuring_def close_file_def update_def return_def
        split: option.split)
  then have "copy_file_to_host (\<lambda>h. None) small_tree ''/d'' True [] =
      (Inr (), snd (copy_file_to_host (\<lambda>h. None) small_tree ''/d'' True []))" by (simp add: prod_eq_iff)
  from copy_file_uploads_the_tree[OF this] show ?thesis by (simp add: small_tree_def)
qed

text \<open>
  On a server whose directories can be looked up and stay, \<open>mkdir\<close> returns only when every
  directory on the way exists; it looks each of them up, outermost first, and asks to make only
  those that were not there.
\<close>
theorem mkdir_makes_all_parents:
  assumes "keeps_dirs S ex" "sftp_mkdir S directory h = (Inr (), h')"
  shows "\<exists>evs. h' = h @ evs \<and> stats evs = parents directory \<and>
    (\<forall>p. p \<in> set (parents directory) \<longrightarrow> ex h' p) \<and> (\<forall>p. p \<in> set (made evs) \<longrightarrow> \<not> ex h p)"
  using mkdir_from_result[OF assms(1)] assms(2) by (fastforce simp: sftp_mkdir_def parents_def)

definition empty_server :: server where
  "empty_server h = (case last h of Stat p \<Rightarrow> (if p \<in> set (made h) then None else Some SFTPHandleError) | _ \<Rightarrow> None)"

theorem mkdir_makes_all_parents_witness:
  "\<exists>evs. snd (sftp_mkdir empty_server ''a/b'' []) = evs \<and> stats evs = [''./a'', ''./a/b''] \<and>
     (\<forall>p. p \<in> {''./a'', ''./a/b''} \<longrightarrow> p \<in> set (made evs))"
proof -
  have k: "keeps_dirs empty_server (\<lambda>h p. p \<in> set (made h))"
    by (auto simp: keeps_dirs_def empty_server_def)
  have "fst (sftp_mkdir empty_server ''a/b'' []) = Inr ()" by code_simp
  then have s: "sftp_mkdir empty_server ''a/b'' [] = (Inr (), snd (sftp_mkdir empty_server ''a/b'' []))"
    by (simp add: prod_eq_iff)
  have "parents ''a/b'' = [''./a'', ''./a/b'']" by code_simp
  with mkdir_makes_all_parents[OF k s] show ?thesis by auto
qed

end
