(* ===== verification/Scp_Send.thy ===== *)
theory Scp_Send
  imports Sftp_Upload
begin

text \<open>
  Copying to a host over SCP: \<open>scp_send\<close> and \<open>_scp_send\<close> of \<open>pssh/clients/native/single.py\<close> and
  \<open>_scp_send_dir\<close> of \<open>pssh/clients/base/single.py\<close>, on the requests of \<open>Sftp_Upload\<close>.  SCP cannot
  make directories, so a recursive copy makes them over an SFTP channel, which is opened when it is
  first needed.
\<close>

section \<open>One file\<close>

definition scp_finish :: "server \<Rightarrow> unit xfer_prog" where
  "scp_finish S =
     andthen (request S ScpFlush)
       (andthen (request S ScpSendEof) (andthen (request S ScpWaitEof) (request S ScpWaitClosed)))"

text \<open>
  \<open>_scp_send\<close>: a local file that cannot be read fails before the channel is opened, in \<open>os.stat\<close>.
\<close>

definition scp_send1 :: "server \<Rightarrow> xfer_error + bytes \<Rightarrow> string \<Rightarrow> unit xfer_prog" where
  "scp_send1 S local_file remote_file =
     (case local_file of
        Inl e \<Rightarrow> throw e
      | Inr d \<Rightarrow>
          andthen
            (attempt (request S (ScpSend remote_file (length d))) (\<lambda>ex. throw (SCPErr remote_file)))
            (ensuring
              (attempt (write_chunks S (read_chunks BUF_SIZE d)) (\<lambda>ex. throw (SCPErr remote_file)))
              (scp_finish S)))"

section \<open>Trees\<close>

text \<open>
  \<open>scp_send\<close> and \<open>_scp_send_dir\<close>; \<open>has_sftp\<close> says that an SFTP channel was handed in.
\<close>

definition sftp_or_new :: "server \<Rightarrow> bool \<Rightarrow> unit xfer_prog" where
  "sftp_or_new S has_sftp = (if has_sftp then return () else make_sftp S)"

fun scp_send :: "server \<Rightarrow> string \<Rightarrow> node \<Rightarrow> string \<Rightarrow> bool \<Rightarrow> bool \<Rightarrow> unit xfer_prog"
  and scp_send_dir :: "server \<Rightarrow> string \<Rightarrow> (string \<times> node) list \<Rightarrow> string \<Rightarrow> unit xfer_prog" where
  "scp_send S local_file (DirN entries) remote_file recurse has_sftp =
     (if recurse then andthen (sftp_or_new S has_sftp) (scp_send_dir S local_file entries remote_file)
      else throw RecurseValueError)"
| "scp_send S local_file (FileN content) remote_file recurse has_sftp =
     (if recurse then
        andthen
          (case remote_paths_split remote_file of
             None \<Rightarrow> return ()
           | Some destination \<Rightarrow>
               andthen (sftp_or_new S has_sftp) (ensure_dir S destination (sftp_mkdir S destination)))
          (scp_send1 S content remote_file)
      else scp_send1 S content
        (if ends_with SLASH remote_file then remote_file @ last_component local_file else remote_file))"
| "scp_send_dir S local_dir [] remote_dir = return ()"
| "scp_send_dir S local_dir ((file_name, n) # entries) remote_dir =
     andthen (scp_send S (path_join local_dir file_name) n (remote_dir @ SLASH # file_name) True True)
       (scp_send_dir S local_dir entries remote_dir)"

section \<open>What is sent\<close>

text \<open>The name under which a tree is sent.\<close>

definition scp_target :: "string \<Rightarrow> node \<Rightarrow> string \<Rightarrow> bool \<Rightarrow> string" where
  "scp_target local_file n remote_file recurse =
     (case n of
        FileN _ \<Rightarrow> if \<not> recurse \<and> ends_with SLASH remote_file then remote_file @ last_component local_file
                   else remote_file
      | DirN _ \<Rightarrow> remote_file)"

lemma scp_finish_events:
  "scp_finish S h = (Inr (), h') \<Longrightarrow> h' = h @ [ScpFlush, ScpSendEof, ScpWaitEof, ScpWaitClosed]"
  by (auto simp: scp_finish_def request_apply elim!: bind_InrE split: option.splits)

lemma uploaded_scp:
  "uploaded (ScpSend p n # map WriteData ds @ [ScpFlush, ScpSendEof, ScpWaitEof, ScpWaitClosed]) = [(p, concat ds)]"
proof -
  have "takeWhile is_write (map WriteData ds @ [ScpFlush, ScpSendEof, ScpWaitEof, ScpWaitClosed]) = map WriteData ds"
    by (induction ds) auto
  moreover have "map data_of (map WriteData ds) = ds" by (induction ds) auto
  moreover have "uploaded (map WriteData ds @ [ScpFlush, ScpSendEof, ScpWaitEof, ScpWaitClosed]) = []"
    by (induction ds) auto
  ultimately show ?thesis by simp
qed

lemma ensuring_Inr: "ensuring m f h = (Inr x, h') \<Longrightarrow> \<exists>h1. m h = (Inr x, h1) \<and> f h1 = (Inr (), h')"
  by (auto simp: ensuring_def split: prod.splits sum.splits)

lemma copies_scp_send1: "copies (files_of (FileN content) p) (scp_send1 S content p)"
  unfolding copies_def
proof (intro allI impI)
  fix h h' assume s: "scp_send1 S content p h = (Inr (), h')"
  then obtain d where d: "content = Inr d" by (cases content) (simp_all add: scp_send1_def)
  let ?cs = "read_chunks BUF_SIZE d"
  from s d have "ensuring (attempt (write_chunks S ?cs) (\<lambda>ex. throw (SCPErr p))) (scp_finish S)
      (h @ [ScpSend p (length d)]) = (Inr (), h')"
    by (auto simp: scp_send1_def attempt_throw_Inr request_apply elim!: bind_InrE split: option.splits)
  then obtain h1 where h1: "write_chunks S ?cs (h @ [ScpSend p (length d)]) = (Inr (), h1)"
    "scp_finish S h1 = (Inr (), h')" by (auto simp: attempt_throw_Inr dest: ensuring_Inr)
  from write_chunks_result[OF h1(1)] have "h1 = (h @ [ScpSend p (length d)]) @ map WriteData ?cs" by auto
  with scp_finish_events[OF h1(2)]
  have "h' = h @ ScpSend p (length d) # map WriteData ?cs @ [ScpFlush, ScpSendEof, ScpWaitEof, ScpWaitClosed]"
    by simp
  moreover have "concat ?cs = d" by (rule concat_read_chunks) (simp add: BUF_SIZE_def)
  ultimately show "\<exists>evs. h' = h @ evs \<and> starts_clean evs \<and> uploaded evs = files_of (FileN content) p"
    using d uploaded_scp[of p "length d" ?cs]
    by (intro exI[of _ "ScpSend p (length d) # map WriteData ?cs @ [ScpFlush, ScpSendEof, ScpWaitEof, ScpWaitClosed]"])
       (simp add: starts_clean_def del: uploaded.simps)
qed

lemma copies_make_sftp: "copies [] (make_sftp S)"
  using copies_stat_mkdir(3)[of S] by (simp add: make_sftp_def copies_def attempt_throw_Inr)

lemma copies_sftp_or_new: "copies [] (sftp_or_new S b)"
  by (simp add: sftp_or_new_def copies_return copies_make_sftp)

lemma copies_scp_send:
  "copies (files_of n (scp_target l n p recurse)) (scp_send S l n p recurse b)"
  "copies (entries_of es p) (scp_send_dir S l es p)"
proof (induction S l n p recurse b and S l es p rule: scp_send_scp_send_dir.induct)
  case (1 S local_file entries remote_file recurse has_sftp)
  then show ?case
    using copies_andthen[OF copies_sftp_or_new, of _ "scp_send_dir S local_file entries remote_file"]
    by (simp add: copies_throw scp_target_def)
next
  case (2 S local_file content remote_file recurse has_sftp)
  have "copies [] (case remote_paths_split remote_file of None \<Rightarrow> return ()
      | Some destination \<Rightarrow> andthen (sftp_or_new S has_sftp) (ensure_dir S destination (sftp_mkdir S destination)))"
    using copies_andthen[OF copies_sftp_or_new copies_ensure_dir[OF copies_mkdir]]
    by (simp add: copies_return split: option.split)
  from copies_andthen[OF this copies_scp_send1[of content remote_file S]]
    copies_scp_send1[of content "remote_file @ last_component local_file" S]
    copies_scp_send1[of content remote_file S]
  show ?case by (simp add: scp_target_def)
next
  case (3 S local_dir remote_dir)
  then show ?case by (simp add: copies_return)
next
  case (4 S local_dir file_name n entries remote_dir)
  have "scp_target l n q True = q" for l q by (cases n) (simp_all add: scp_target_def)
  with 4 show ?case by (simp add: copies_andthen)
qed

section \<open>Properties\<close>



end
