(* ===== verification/Downloads.thy ===== *)
theory Downloads
  imports Scp_Send
begin

text \<open>
  Copying from a host: \<open>copy_remote_file\<close>, \<open>sftp_get\<close>, \<open>_sftp_get\<close>, \<open>scp_recv\<close>, \<open>_scp_recv_recursive\<close>
  and \<open>_scp_recv\<close> of \<open>pssh/clients/native/single.py\<close>, and \<open>_copy_remote_dir\<close>, \<open>_scp_recv_dir\<close>,
  \<open>_make_local_dir\<close> and \<open>_sftp_readdir\<close> of \<open>pssh/clients/base/single.py\<close>.

  The remote files are a tree.  A file holds the size that the server reports and what reading it
  yields, size and data of each read or an exception; a directory lists names in bytes, or the
  exception that ends the listing.  Opening a file as a directory fails; everything else is answered
  by the server, as in \<open>Sftp_Upload\<close>.  \<open>exists\<close> says which local paths exist, and \<open>decode\<close> is
  \<open>bytes.decode\<close> of an encoding.
\<close>

section \<open>Data\<close>

datatype rnode =
    RFile int "(xfer_error + int \<times> bytes) list"
  | RDir "((xfer_error + bytes) \<times> rnode) list"

type_synonym local_files = "xfer_event list \<Rightarrow> string \<Rightarrow> bool"

type_synonym codec = "string \<Rightarrow> bytes \<Rightarrow> string option"

definition decode_name :: "codec \<Rightarrow> string \<Rightarrow> xfer_error + bytes \<Rightarrow> xfer_error + string" where
  "decode_name decode encoding name =
     (case name of
        Inl e \<Rightarrow> Inl e
      | Inr line \<Rightarrow> (case decode encoding line of None \<Rightarrow> Inl DecodeError | Some s \<Rightarrow> Inr s))"

definition note_event :: "xfer_event \<Rightarrow> unit xfer_prog" where
  "note_event ev = update (\<lambda>h. h @ [ev])"

text \<open>\<open>bytes.splitlines\<close>, and the names that a listing yields.\<close>

fun splitlines :: "bytes \<Rightarrow> bytes \<Rightarrow> bytes list" where
  "splitlines acc [] = (if acc = [] then [] else [acc])"
| "splitlines acc (c # cs) =
     (if c = CHR 0x0A then acc # splitlines [] cs
      else if c = CHR 0x0D then
        acc # (case cs of d # ds \<Rightarrow> if d = CHR 0x0A then splitlines [] ds else splitlines [] cs
                        | [] \<Rightarrow> [])
      else splitlines (acc @ [c]) cs)"

definition sftp_readdir :: "bytes list \<Rightarrow> bytes list" where
  "sftp_readdir bufs = concat (map (splitlines []) bufs)"

section \<open>Local directories\<close>

definition make_local_dir :: "server \<Rightarrow> local_files \<Rightarrow> string \<Rightarrow> unit xfer_prog" where
  "make_local_dir S exists dirpath =
     (\<lambda>h. if exists h dirpath then (Inr (), h) else request S (MakeLocalDirs dirpath) h)"

text \<open>\<open>os.path.join('/', '/'.join([d for d in local_file.split('/') if d][:-1]))\<close>.\<close>

definition local_destination :: "string \<Rightarrow> string" where
  "local_destination local_file = path_join [SLASH] (join_with SLASH (butlast (nonempty_components local_file)))"

section \<open>SFTP\<close>

fun sftp_get_data :: "server \<Rightarrow> int \<Rightarrow> (xfer_error + int \<times> bytes) list \<Rightarrow> unit xfer_prog" where
  "sftp_get_data S eagain [] = return ()"
| "sftp_get_data S eagain (Inl e # reads) = throw e"
| "sftp_get_data S eagain (Inr (sz, data) # reads) =
     (if sz = eagain then sftp_get_data S eagain reads
      else andthen (request S (WriteLocal data)) (sftp_get_data S eagain reads))"

definition sftp_get :: "server \<Rightarrow> int \<Rightarrow> (xfer_error + int \<times> bytes) list \<Rightarrow> string \<Rightarrow> string \<Rightarrow> unit xfer_prog" where
  "sftp_get S eagain reads remote_file local_file =
     andthen (sftp_openfh S (OpenRead remote_file))
       (ensuring
         (attempt
           (andthen (request S (OpenLocal local_file))
             (ensuring (sftp_get_data S eagain reads) (note_event CloseLocal)))
           (\<lambda>ex. throw (if ex = SFTPProtocolError then SFTPIOErr remote_file else ex)))
         close_file)"

definition stat_remote :: "server \<Rightarrow> xfer_error \<Rightarrow> string \<Rightarrow> unit xfer_prog" where
  "stat_remote S err remote_file =
     attempt (request S (Stat remote_file)) (\<lambda>e. throw (if missing e then err else e))"

definition get_one ::
  "server \<Rightarrow> local_files \<Rightarrow> int \<Rightarrow> (xfer_error + int \<times> bytes) list \<Rightarrow> string \<Rightarrow> string \<Rightarrow> unit xfer_prog" where
  "get_one S exists eagain reads remote_file local_file =
     andthen (make_local_dir S exists (local_destination local_file))
       (sftp_get S eagain reads remote_file local_file)"

text \<open>
  \<open>copy_remote_file\<close> and \<open>_copy_remote_dir\<close>.  A directory that cannot be opened as one is read like
  a file, and then the server decides.
\<close>

fun copy_remote_file ::
    "server \<Rightarrow> local_files \<Rightarrow> codec \<Rightarrow> int \<Rightarrow> rnode \<Rightarrow> string \<Rightarrow> string \<Rightarrow> bool \<Rightarrow> string \<Rightarrow> unit xfer_prog"
  and copy_remote_dir ::
    "server \<Rightarrow> local_files \<Rightarrow> codec \<Rightarrow> int \<Rightarrow> ((xfer_error + bytes) \<times> rnode) list \<Rightarrow> string \<Rightarrow> string \<Rightarrow> string \<Rightarrow> unit xfer_prog" where
  "copy_remote_file S exists decode eagain (RFile sz reads) remote_file local_file recurse encoding =
     andthen (stat_remote S (SFTPIOErr remote_file) remote_file)
       (andthen (note_event (OpenDir remote_file))
         (get_one S exists eagain reads remote_file local_file))"
| "copy_remote_file S exists decode eagain (RDir entries) remote_file local_file recurse encoding =
     andthen (stat_remote S (SFTPIOErr remote_file) remote_file)
       (\<lambda>h. case request S (OpenDir remote_file) h of
              (Inl _, h1) \<Rightarrow> get_one S exists eagain [] remote_file local_file h1
            | (Inr _, h1) \<Rightarrow>
                (if \<not> recurse then (Inl RecurseValueError, h1)
                 else copy_remote_dir S exists decode eagain entries remote_file local_file encoding h1))"
| "copy_remote_dir S exists decode eagain [] remote_dir local_dir encoding = return ()"
| "copy_remote_dir S exists decode eagain ((name, n) # entries) remote_dir local_dir encoding =
     (case decode_name decode encoding name of
        Inl e \<Rightarrow> throw e
      | Inr file_name \<Rightarrow>
          (if file_name = ''.'' \<or> file_name = ''..''
           then copy_remote_dir S exists decode eagain entries remote_dir local_dir encoding
           else andthen
             (copy_remote_file S exists decode eagain n (path_join remote_dir file_name)
               (path_join local_dir file_name) True encoding)
             (copy_remote_dir S exists decode eagain entries remote_dir local_dir encoding)))"

section \<open>SCP\<close>

text \<open>
  The loop of \<open>_scp_recv\<close>: it asks for the bytes that are missing until it has \<open>st_size\<close> of them.
  The \<open>k\<close>-th read answers \<open>script k\<close>; the result is what was written to the local file.
\<close>

partial_function (option) scp_read_loop ::
  "(nat \<Rightarrow> xfer_error + int \<times> bytes) \<Rightarrow> int \<Rightarrow> int \<Rightarrow> nat \<Rightarrow> int \<Rightarrow> bytes \<Rightarrow> ((xfer_error + unit) \<times> bytes) option" where
  "scp_read_loop script eagain st_size k got written =
     (if got < st_size
      then (case script k of
              Inl e \<Rightarrow> Some (Inl e, written)
            | Inr (sz, data) \<Rightarrow>
                (if sz = eagain then scp_read_loop script eagain st_size (Suc k) got written
                 else scp_read_loop script eagain st_size (Suc k) (got + sz) (written @ data)))
      else Some (Inr (), written))"

text \<open>The local name of a file that is received without \<open>recurse\<close>.\<close>

definition scp_local_name :: "string \<Rightarrow> string \<Rightarrow> string" where
  "scp_local_name remote_file local_file =
     (if ends_with SLASH local_file then local_file @ last_component remote_file else local_file)"

text \<open>
  A channel that has come to its end answers reads with no data, as libssh2 documents.  The content
  of something that is no file is up to the server; there is none here.
\<close>

fun scp_script :: "rnode \<Rightarrow> nat \<Rightarrow> xfer_error + int \<times> bytes" where
  "scp_script (RFile sz reads) k = (if k < length reads then reads ! k else Inr (0, []))"
| "scp_script (RDir entries) k = Inr (0, [])"

fun scp_size :: "rnode \<Rightarrow> int" where
  "scp_size (RFile sz reads) = sz"
| "scp_size (RDir entries) = 0"

text \<open>
  Because of the loop, receiving is a program that need not return.  \<open>returns\<close> is one that does, and
  \<open>then_next\<close> the sequencing.
\<close>

type_synonym recv_prog = "xfer_event list \<Rightarrow> ((xfer_error + unit) \<times> xfer_event list) option"

definition returns :: "unit xfer_prog \<Rightarrow> recv_prog" where
  "returns m = (\<lambda>h. Some (m h))"

definition then_next :: "recv_prog \<Rightarrow> recv_prog \<Rightarrow> recv_prog" where
  "then_next m k = (\<lambda>h. case m h of
      None \<Rightarrow> None
    | Some (Inl e, h1) \<Rightarrow> Some (Inl e, h1)
    | Some (Inr _, h1) \<Rightarrow> k h1)"

text \<open>\<open>_scp_recv\<close>: the writes of the loop are one event here.\<close>

definition scp_recv1 :: "server \<Rightarrow> int \<Rightarrow> rnode \<Rightarrow> string \<Rightarrow> string \<Rightarrow> recv_prog" where
  "scp_recv1 S eagain n remote_file local_file =
     then_next
       (returns (andthen (attempt (request S (ScpRecv remote_file)) (\<lambda>ex. throw (SCPErr remote_file)))
         (request S (OpenLocal local_file))))
       (\<lambda>h. case scp_read_loop (scp_script n) eagain (scp_size n) 0 0 [] of
              None \<Rightarrow> None
            | Some (res, written) \<Rightarrow> Some (res, h @ [WriteLocal written, CloseLocal, ScpClose]))"

definition scp_recv_file :: "server \<Rightarrow> local_files \<Rightarrow> int \<Rightarrow> rnode \<Rightarrow> string \<Rightarrow> string \<Rightarrow> recv_prog" where
  "scp_recv_file S exists eagain n remote_file local_file =
     (let local_name = scp_local_name remote_file local_file in
      then_next (returns (make_local_dir S exists (local_destination local_name)))
        (scp_recv1 S eagain n remote_file local_name))"

text \<open>
  \<open>_scp_recv_recursive\<close> and \<open>_scp_recv_dir\<close>.  \<open>_scp_recv_dir\<close> decodes the names of its own listing
  with \<open>encoding\<close>, and what it calls for each of them with the default.
\<close>

fun scp_recv_recursive ::
    "server \<Rightarrow> local_files \<Rightarrow> codec \<Rightarrow> int \<Rightarrow> rnode \<Rightarrow> string \<Rightarrow> string \<Rightarrow> string \<Rightarrow> recv_prog"
  and scp_recv_dir ::
    "server \<Rightarrow> local_files \<Rightarrow> codec \<Rightarrow> int \<Rightarrow> ((xfer_error + bytes) \<times> rnode) list \<Rightarrow> string \<Rightarrow> string \<Rightarrow> string \<Rightarrow> recv_prog" where
  "scp_recv_recursive S exists decode eagain (RFile sz reads) remote_file local_file encoding =
     then_next
       (returns (andthen (stat_remote S (SCPErr remote_file) remote_file) (note_event (OpenDir remote_file))))
       (scp_recv_file S exists eagain (RFile sz reads) remote_file local_file)"
| "scp_recv_recursive S exists decode eagain (RDir entries) remote_file local_file encoding =
     then_next (returns (stat_remote S (SCPErr remote_file) remote_file))
       (\<lambda>h. case request S (OpenDir remote_file) h of
              (Inl _, h1) \<Rightarrow> scp_recv_file S exists eagain (RDir entries) remote_file local_file h1
            | (Inr _, h1) \<Rightarrow>
                then_next
                  (returns (attempt (request S (MakeLocalDirs local_file))
                    (\<lambda>e. if e = LocalOSError then return () else throw e)))
                  (scp_recv_dir S exists decode eagain entries remote_file local_file encoding) h1)"
| "scp_recv_dir S exists decode eagain [] remote_dir local_dir encoding = returns (return ())"
| "scp_recv_dir S exists decode eagain ((name, n) # entries) remote_dir local_dir encoding =
     (case decode_name decode encoding name of
        Inl e \<Rightarrow> returns (throw e)
      | Inr file_name \<Rightarrow>
          (if file_name = ''.'' \<or> file_name = ''..''
           then scp_recv_dir S exists decode eagain entries remote_dir local_dir encoding
           else then_next
             (scp_recv_recursive S exists decode eagain n (path_join remote_dir file_name)
               (path_join local_dir file_name) ''utf-8'')
             (scp_recv_dir S exists decode eagain entries remote_dir local_dir encoding)))"

definition scp_recv ::
  "server \<Rightarrow> local_files \<Rightarrow> codec \<Rightarrow> int \<Rightarrow> rnode \<Rightarrow> string \<Rightarrow> string \<Rightarrow> bool \<Rightarrow> bool \<Rightarrow> string \<Rightarrow> recv_prog" where
  "scp_recv S exists decode eagain n remote_file local_file recurse has_sftp encoding =
     (if recurse
      then then_next (returns (sftp_or_new S has_sftp))
        (scp_recv_recursive S exists decode eagain n remote_file local_file encoding)
      else scp_recv_file S exists eagain n remote_file local_file)"

section \<open>What is received\<close>

fun is_local_write :: "xfer_event \<Rightarrow> bool" where
  "is_local_write (WriteLocal _) = True" | "is_local_write _ = False"

fun local_data :: "xfer_event \<Rightarrow> bytes" where
  "local_data (WriteLocal d) = d" | "local_data _ = []"

fun downloaded :: "xfer_event list \<Rightarrow> (string \<times> bytes) list" where
  "downloaded [] = []"
| "downloaded (OpenLocal p # evs) = (p, concat (map local_data (takeWhile is_local_write evs))) # downloaded evs"
| "downloaded (_ # evs) = downloaded evs"

definition local_clean :: "xfer_event list \<Rightarrow> bool" where
  "local_clean evs \<longleftrightarrow> evs = [] \<or> \<not> is_local_write (hd evs)"

lemma takeWhile_local_clean:
  "local_clean ys \<Longrightarrow> takeWhile is_local_write (evs @ ys) = takeWhile is_local_write evs"
  by (induction evs) (cases ys, auto simp: local_clean_def)

lemma downloaded_append: "local_clean ys \<Longrightarrow> downloaded (xs @ ys) = downloaded xs @ downloaded ys"
proof (induction xs rule: downloaded.induct)
  case (2 p evs)
  with takeWhile_local_clean show ?case by simp
qed auto

definition fetches :: "(string \<times> bytes) list \<Rightarrow> unit xfer_prog \<Rightarrow> bool" where
  "fetches files m \<longleftrightarrow> (\<forall>h h'. m h = (Inr (), h') \<longrightarrow>
     (\<exists>evs. h' = h @ evs \<and> local_clean evs \<and> downloaded evs = files))"

lemma fetchesE:
  assumes "fetches files m" "m h = (Inr (), h')"
  obtains evs where "h' = h @ evs" "local_clean evs" "downloaded evs = files"
  using assms by (auto simp: fetches_def)

lemma fetches_return: "fetches [] (return ())" "fetches [] (Pair (Inr ()))"
  by (simp_all add: fetches_def local_clean_def)

lemma fetches_throw: "fetches files (throw e)" "fetches files (Pair (Inl e))"
  by (simp_all add: fetches_def)

lemma fetches_andthen:
  assumes "fetches f1 m" "fetches f2 k"
  shows "fetches (f1 @ f2) (andthen m k)"
  unfolding fetches_def
proof (intro allI impI)
  fix h h' assume "andthen m k h = (Inr (), h')"
  then obtain h1 where "m h = (Inr (), h1)" "k h1 = (Inr (), h')" by (auto elim: bind_InrE)
  with assms obtain e1 e2 where "h1 = h @ e1" "local_clean e1" "downloaded e1 = f1"
    "h' = h1 @ e2" "local_clean e2" "downloaded e2 = f2" by (metis fetches_def)
  with downloaded_append[of e2 e1] show "\<exists>evs. h' = h @ evs \<and> local_clean evs \<and> downloaded evs = f1 @ f2"
    by (intro exI[of _ "e1 @ e2"]) (cases e1, auto simp: local_clean_def)
qed

lemma fetches_stat: "fetches [] (stat_remote S err p)"
  by (auto simp: fetches_def stat_remote_def attempt_throw_Inr request_apply local_clean_def)

lemma fetches_make_local_dir: "fetches [] (make_local_dir S exists d)"
  unfolding fetches_def make_local_dir_def
  by (auto simp: request_apply local_clean_def split: if_splits intro: exI[of _ "[]"] exI[of _ "[MakeLocalDirs d]"])

lemma fetches_note: "fetches [] (note_event (OpenDir p))"
  by (simp add: fetches_def note_event_def local_clean_def)

text \<open>The data of the reads of a file, those that ask to be repeated aside.\<close>

fun read_data :: "int \<Rightarrow> (xfer_error + int \<times> bytes) list \<Rightarrow> bytes list" where
  "read_data eagain [] = []"
| "read_data eagain (Inl e # reads) = []"
| "read_data eagain (Inr (sz, d) # reads) = (if sz = eagain then [] else [d]) @ read_data eagain reads"

lemma sftp_get_data_writes:
  "sftp_get_data S eagain reads h = (Inr (), h') \<Longrightarrow> h' = h @ map WriteLocal (read_data eagain reads)"
proof (induction S eagain reads arbitrary: h rule: sftp_get_data.induct)
  case (3 S eagain sz data reads)
  show ?case
  proof (cases "sz = eagain")
    case True
    with 3 show ?thesis by simp
  next
    case False
    with 3(3) have "sftp_get_data S eagain reads (h @ [WriteLocal data]) = (Inr (), h')"
      by (auto simp: request_apply elim!: bind_InrE split: option.splits)
    from 3(2)[OF False this] False show ?thesis by simp
  qed
qed simp_all

lemma downloaded_file:
  "downloaded (OpenRead r # OpenLocal p # map WriteLocal ds @ [CloseLocal, CloseFile]) = [(p, concat ds)]"
proof -
  have "takeWhile is_local_write (map WriteLocal ds @ [CloseLocal, CloseFile]) = map WriteLocal ds"
    by (induction ds) auto
  moreover have "map local_data (map WriteLocal ds) = ds" by (induction ds) auto
  moreover have "downloaded (map WriteLocal ds @ [CloseLocal, CloseFile]) = []" by (induction ds) auto
  ultimately show ?thesis by simp
qed

lemma ensuring_note_Inr:
  "ensuring m (update f) h = (Inr x, h') \<longleftrightarrow> (\<exists>h1. m h = (Inr x, h1) \<and> h' = f h1)"
  by (cases "m h") (auto simp: ensuring_def)

lemma sftp_get_events:
  assumes "sftp_get S eagain reads r p h = (Inr (), h')"
  shows "h' = h @ OpenRead r # OpenLocal p # map WriteLocal (read_data eagain reads) @ [CloseLocal, CloseFile]"
proof -
  from assms obtain h1 where h1:
    "andthen (request S (OpenLocal p)) (ensuring (sftp_get_data S eagain reads) (note_event CloseLocal))
       (h @ [OpenRead r]) = (Inr (), h1)" "h' = h1 @ [CloseFile]"
    by (auto simp: sftp_get_def sftp_openfh_def attempt_throw_Inr request_apply close_file_def ensuring_note_Inr
        elim!: bind_InrE split: option.splits)
  then have "ensuring (sftp_get_data S eagain reads) (note_event CloseLocal) (h @ [OpenRead r, OpenLocal p]) = (Inr (), h1)"
    by (auto simp: request_apply elim!: bind_InrE split: option.splits)
  then obtain h2 where "sftp_get_data S eagain reads (h @ [OpenRead r, OpenLocal p]) = (Inr (), h2)"
    "h1 = h2 @ [CloseLocal]" by (auto simp: note_event_def ensuring_note_Inr)
  with sftp_get_data_writes h1(2) show ?thesis by fastforce
qed

lemma fetches_get_one:
  "fetches [(p, concat (read_data eagain reads))] (get_one S exists eagain reads r p)"
proof -
  have "fetches [(p, concat (read_data eagain reads))] (sftp_get S eagain reads r p)"
    unfolding fetches_def
  proof (intro allI impI)
    fix h h' assume "sftp_get S eagain reads r p h = (Inr (), h')"
    then have "h' = h @ OpenRead r # OpenLocal p # map WriteLocal (read_data eagain reads) @ [CloseLocal, CloseFile]"
      by (rule sftp_get_events)
    then show "\<exists>evs. h' = h @ evs \<and> local_clean evs \<and> downloaded evs = [(p, concat (read_data eagain reads))]"
      using downloaded_file[of r p "read_data eagain reads"]
      by (intro exI[of _ "OpenRead r # OpenLocal p # map WriteLocal (read_data eagain reads) @ [CloseLocal, CloseFile]"])
         (simp add: local_clean_def del: downloaded.simps)
  qed
  from fetches_andthen[OF fetches_make_local_dir this] show ?thesis by (simp add: get_one_def)
qed

text \<open>
  The files of a remote tree, with the local names they are copied to: \<open>local_name\<close> is the name that
  a remote file gets in the place that is asked for, and \<open>nested\<close> the encoding of the listings
  further down.
\<close>

fun rfiles_of ::
    "(string \<Rightarrow> string \<Rightarrow> string) \<Rightarrow> codec \<Rightarrow> string \<Rightarrow> int \<Rightarrow> rnode \<Rightarrow> string \<Rightarrow> string \<Rightarrow> (string \<times> bytes) list"
  and rentries_of ::
    "(string \<Rightarrow> string \<Rightarrow> string) \<Rightarrow> codec \<Rightarrow> string \<Rightarrow> int \<Rightarrow> ((xfer_error + bytes) \<times> rnode) list \<Rightarrow> string \<Rightarrow> string \<Rightarrow>
     (string \<times> bytes) list" where
  "rfiles_of local_name decode encoding eagain (RFile sz reads) remote path =
     [(local_name remote path, concat (read_data eagain reads))]"
| "rfiles_of local_name decode encoding eagain (RDir entries) remote path =
     rentries_of local_name decode encoding eagain entries remote path"
| "rentries_of local_name decode encoding eagain [] remote dir = []"
| "rentries_of local_name decode encoding eagain ((name, n) # entries) remote dir =
     (case decode_name decode encoding name of
        Inl e \<Rightarrow> []
      | Inr file_name \<Rightarrow>
          (if file_name = ''.'' \<or> file_name = ''..'' then []
           else rfiles_of local_name decode encoding eagain n (path_join remote file_name) (path_join dir file_name))) @
     rentries_of local_name decode encoding eagain entries remote dir"

abbreviation same_name :: "string \<Rightarrow> string \<Rightarrow> string" where
  "same_name \<equiv> \<lambda>remote path. path"

text \<open>A server that opens the directories of the tree.\<close>

definition opens_dirs :: "server \<Rightarrow> bool" where
  "opens_dirs S \<longleftrightarrow> (\<forall>h p. S (h @ [OpenDir p]) = None)"

lemma opens_dirsD: "opens_dirs S \<Longrightarrow> request S (OpenDir p) h = (Inr (), h @ [OpenDir p])"
  by (simp add: opens_dirs_def request_apply)

lemma fetches_open_dir:
  assumes "opens_dirs S" "fetches files m"
  shows "fetches files (\<lambda>h. case request S (OpenDir p) h of (Inl e, h1) \<Rightarrow> k e h1 | (Inr _, h1) \<Rightarrow> m h1)"
proof -
  have "fetches [] (request S (OpenDir p))" by (auto simp: fetches_def request_apply local_clean_def)
  from fetches_andthen[OF this assms(2)] show ?thesis
    using assms(1) by (simp add: fetches_def opens_dirsD bind_def)
qed

lemma fetches_copy_remote:
  assumes "opens_dirs S"
  shows "fetches (rfiles_of same_name decode encoding eagain n r p) (copy_remote_file S exists decode eagain n r p recurse encoding)"
    and "fetches (rentries_of same_name decode encoding eagain es r p) (copy_remote_dir S exists decode eagain es r p encoding)"
  using assms
proof (induction S exists decode eagain n r p recurse encoding and S exists decode eagain es r p encoding
    rule: copy_remote_file_copy_remote_dir.induct)
  case (1 S exists decode eagain sz reads remote_file local_file recurse encoding)
  from fetches_andthen[OF fetches_stat fetches_andthen[OF fetches_note fetches_get_one]] show ?case by simp
next
  case (2 S exists decode eagain entries remote_file local_file recurse encoding)
  let ?k = "\<lambda>h1. if \<not> recurse then (Inl RecurseValueError, h1)
                 else copy_remote_dir S exists decode eagain entries remote_file local_file encoding h1"
  have "fetches (rentries_of same_name decode encoding eagain entries remote_file local_file) ?k"
  proof (cases recurse)
    case True
    with "2.IH"[OF opens_dirsD[OF "2.prems", of _ "[]", symmetric] refl] "2.prems" show ?thesis by simp
  qed (simp add: fetches_throw)
  from fetches_andthen[OF fetches_stat fetches_open_dir[OF "2.prems" this]] show ?case by simp
next
  case (3 S exists decode eagain remote_dir local_dir encoding)
  then show ?case by (simp add: fetches_return)
next
  case (4 S exists decode eagain name n entries remote_dir local_dir encoding)
  then show ?case
    by (cases "decode_name decode encoding name") (simp_all add: fetches_throw fetches_andthen)
qed

section \<open>The loop of SCP\<close>

text \<open>A file whose reads, those that ask to be repeated aside, give as many bytes as it has.\<close>

definition good_read :: "int \<Rightarrow> xfer_error + int \<times> bytes \<Rightarrow> bool" where
  "good_read eagain r = (case r of Inl e \<Rightarrow> False | Inr (sz, d) \<Rightarrow> sz = eagain \<or> sz = int (length d))"

fun complete_tree :: "int \<Rightarrow> rnode \<Rightarrow> bool" where
  "complete_tree eagain (RFile sz reads) \<longleftrightarrow>
     list_all (good_read eagain) reads \<and> int (length (concat (read_data eagain reads))) = sz"
| "complete_tree eagain (RDir entries) \<longleftrightarrow> list_all (\<lambda>(name, n). complete_tree eagain n) entries"

lemma scp_read_loop_rest:
  assumes "drop k reads = rs" "list_all (good_read eagain) rs"
    "got + int (length (concat (read_data eagain rs))) = sz"
  shows "scp_read_loop (scp_script (RFile sz reads)) eagain sz k got written =
    Some (Inr (), written @ concat (read_data eagain rs))"
  using assms
proof (induction rs arbitrary: k got written)
  case Nil
  then show ?case by (subst scp_read_loop.simps) simp
next
  case (Cons r rs)
  then obtain s d where r: "r = Inr (s, d)" "s = eagain \<or> s = int (length d)"
    by (auto simp: good_read_def split: sum.splits)
  have k: "k < length reads" "reads ! k = r" "drop (Suc k) reads = rs"
    using Cons.prems(1) by (metis drop_all linorder_not_less list.discI, metis nth_via_drop, metis drop_Suc tl_drop list.sel(3))
  have good: "list_all (good_read eagain) rs" using Cons.prems(2) by simp
  have now: "scp_script (RFile sz reads) k = r" using k by simp
  show ?case
  proof (cases "got < sz")
    case False
    with Cons.prems(3) have "int (length (concat (read_data eagain (r # rs)))) \<le> 0" by linarith
    then have "concat (read_data eagain (r # rs)) = []" by (simp del: concat_eq_Nil_conv)
    with False show ?thesis by (subst scp_read_loop.simps) simp
  next
    case lt: True
    show ?thesis
    proof (cases "s = eagain")
      case True
      with Cons.prems(3) r have "got + int (length (concat (read_data eagain rs))) = sz" by simp
      from Cons.IH[OF k(3) good this, of written] now r True lt show ?thesis
        by (subst scp_read_loop.simps) (simp del: scp_script.simps)
    next
      case False
      with Cons.prems(3) r have "(got + s) + int (length (concat (read_data eagain rs))) = sz" by simp
      from Cons.IH[OF k(3) good this, of "written @ d"] now r False lt show ?thesis
        by (subst scp_read_loop.simps) (simp del: scp_script.simps)
    qed
  qed
qed

lemma scp_read_loop_complete:
  "complete_tree eagain (RFile sz reads) \<Longrightarrow>
   scp_read_loop (scp_script (RFile sz reads)) eagain sz 0 0 [] = Some (Inr (), concat (read_data eagain reads))"
  using scp_read_loop_rest[of 0 reads reads eagain 0 sz "[]"] by simp

lemma scp_read_loop_some:
  assumes "scp_read_loop script eagain sz k got written = Some res" "got < sz" "eagain \<noteq> 0"
    "\<And>i. k \<le> i \<Longrightarrow> script i = Inr (0, [])"
  shows False
proof -
  have "got < sz \<and> eagain \<noteq> 0 \<longrightarrow> (\<exists>i \<ge> k. script i \<noteq> Inr (0, []))"
  proof (rule scp_read_loop.raw_induct[where P = "\<lambda>script eagain sz k got written res.
        got < sz \<and> eagain \<noteq> 0 \<longrightarrow> (\<exists>i \<ge> k. script i \<noteq> Inr (0, []))", OF _ assms(1)])
    fix loop :: "(nat \<Rightarrow> xfer_error + int \<times> bytes) \<Rightarrow> int \<Rightarrow> int \<Rightarrow> nat \<Rightarrow> int \<Rightarrow> bytes \<Rightarrow> ((xfer_error + unit) \<times> bytes) option"
      and script eagain st_size k got written res
    assume ih: "\<And>script eagain st_size k got written res. loop script eagain st_size k got written = Some res \<Longrightarrow>
        got < st_size \<and> eagain \<noteq> 0 \<longrightarrow> (\<exists>i \<ge> k. script i \<noteq> Inr (0, []))"
      and eq: "(if got < st_size
      then (case script k of
              Inl e \<Rightarrow> Some (Inl e, written)
            | Inr (sz, data) \<Rightarrow>
                (if sz = eagain then loop script eagain st_size (Suc k) got written
                 else loop script eagain st_size (Suc k) (got + sz) (written @ data)))
      else Some (Inr (), written)) = Some res"
    show "got < st_size \<and> eagain \<noteq> 0 \<longrightarrow> (\<exists>i \<ge> k. script i \<noteq> Inr (0, []))"
    proof (intro impI, rule ccontr)
      assume lt: "got < st_size \<and> eagain \<noteq> 0" and none: "\<not> (\<exists>i \<ge> k. script i \<noteq> Inr (0, []))"
      then have "script k = Inr (0, [])" by auto
      with eq lt have "loop script eagain st_size (Suc k) (got + 0) (written @ []) = Some res" by simp
      from ih[OF this] lt none show False by (metis Suc_leD add.right_neutral)
    qed
  qed
  with assms show False by blast
qed

lemma scp_read_loop_no_data:
  "(\<And>i. script i = Inr (0, [])) \<Longrightarrow> 0 < sz \<Longrightarrow> eagain \<noteq> 0 \<Longrightarrow>
   scp_read_loop script eagain sz 0 0 [] = None"
  using scp_read_loop_some[of script eagain sz 0 0 "[]"] by (meson not_None_eq)

section \<open>What SCP receives\<close>

text \<open>
  A program that returns, and when it does without an exception it has fetched the files.
\<close>

definition receives :: "(string \<times> bytes) list \<Rightarrow> recv_prog \<Rightarrow> bool" where
  "receives files m \<longleftrightarrow> (\<forall>h. \<exists>res h'. m h = Some (res, h') \<and>
     (res = Inr () \<longrightarrow> (\<exists>evs. h' = h @ evs \<and> local_clean evs \<and> downloaded evs = files)))"

lemma receives_returns: "fetches files m \<Longrightarrow> receives files (returns m)"
  unfolding receives_def fetches_def returns_def by (metis prod.exhaust)

lemma receives_then_next:
  assumes "receives f1 m" "receives f2 k"
  shows "receives (f1 @ f2) (then_next m k)"
  unfolding receives_def
proof
  fix h
  from assms(1) obtain res h1 where m: "m h = Some (res, h1)"
    "res = Inr () \<Longrightarrow> \<exists>evs. h1 = h @ evs \<and> local_clean evs \<and> downloaded evs = f1"
    unfolding receives_def by blast
  show "\<exists>res h'. then_next m k h = Some (res, h') \<and>
     (res = Inr () \<longrightarrow> (\<exists>evs. h' = h @ evs \<and> local_clean evs \<and> downloaded evs = f1 @ f2))"
  proof (cases res)
    case (Inl e)
    with m show ?thesis by (simp add: then_next_def)
  next
    case (Inr u)
    with m obtain e1 where e1: "h1 = h @ e1" "local_clean e1" "downloaded e1 = f1" by auto
    from assms(2) obtain res2 h2 where k: "k h1 = Some (res2, h2)"
      "res2 = Inr () \<Longrightarrow> \<exists>evs. h2 = h1 @ evs \<and> local_clean evs \<and> downloaded evs = f2"
      unfolding receives_def by blast
    have "res2 = Inr () \<Longrightarrow> \<exists>evs. h2 = h @ evs \<and> local_clean evs \<and> downloaded evs = f1 @ f2"
    proof -
      assume "res2 = Inr ()"
      with k obtain e2 where "h2 = h1 @ e2" "local_clean e2" "downloaded e2 = f2" by auto
      with e1 downloaded_append[of e2 e1] show ?thesis
        by (intro exI[of _ "e1 @ e2"]) (cases e1, auto simp: local_clean_def)
    qed
    with m Inr k show ?thesis by (simp add: then_next_def)
  qed
qed

lemma downloaded_scp: "downloaded [ScpRecv r, OpenLocal p, WriteLocal d, CloseLocal, ScpClose] = [(p, d)]"
  by simp

lemma receives_scp_recv1:
  assumes "complete_tree eagain (RFile sz reads)"
  shows "receives [(p, concat (read_data eagain reads))] (scp_recv1 S eagain (RFile sz reads) r p)"
  unfolding receives_def
proof
  fix h
  let ?open = "andthen (attempt (request S (ScpRecv r)) (\<lambda>ex. throw (SCPErr r))) (request S (OpenLocal p))"
  show "\<exists>res h'. scp_recv1 S eagain (RFile sz reads) r p h = Some (res, h') \<and>
     (res = Inr () \<longrightarrow> (\<exists>evs. h' = h @ evs \<and> local_clean evs \<and> downloaded evs = [(p, concat (read_data eagain reads))]))"
  proof (cases "fst (?open h)")
    case (Inl e)
    then have "returns ?open h = Some (Inl e, snd (?open h))" by (simp add: returns_def prod_eq_iff)
    then show ?thesis by (simp add: scp_recv1_def then_next_def)
  next
    case (Inr u)
    then have "?open h = (Inr (), snd (?open h))" by (simp add: prod_eq_iff)
    then have "snd (?open h) = h @ [ScpRecv r, OpenLocal p]"
      by (auto simp: request_apply attempt_throw_Inr elim!: bind_InrE split: option.splits)
    with Inr have "returns ?open h = Some (Inr (), h @ [ScpRecv r, OpenLocal p])"
      by (simp add: returns_def prod_eq_iff)
    then have "scp_recv1 S eagain (RFile sz reads) r p h = Some (Inr (),
        h @ [ScpRecv r, OpenLocal p, WriteLocal (concat (read_data eagain reads)), CloseLocal, ScpClose])"
      using scp_read_loop_complete[OF assms] by (simp add: scp_recv1_def then_next_def)
    then show ?thesis by (simp add: local_clean_def)
  qed
qed

lemma receives_scp_recv_file:
  assumes "complete_tree eagain (RFile sz reads)"
  shows "receives [(scp_local_name r p, concat (read_data eagain reads))] (scp_recv_file S exists eagain (RFile sz reads) r p)"
  using receives_then_next[OF receives_returns[OF fetches_make_local_dir[of S exists "local_destination (scp_local_name r p)"]]
      receives_scp_recv1[OF assms, of "scp_local_name r p" S r]]
  by (simp add: scp_recv_file_def Let_def)

lemma fetches_makedirs:
  "fetches [] (attempt (request S (MakeLocalDirs d)) (\<lambda>e. if e = LocalOSError then return () else throw e))"
  by (auto simp: fetches_def attempt_def request_apply local_clean_def split: option.splits if_splits)

lemma receives_scp_recv_recursive:
  "opens_dirs S \<Longrightarrow> complete_tree eagain n \<Longrightarrow> encoding = ''utf-8'' \<Longrightarrow>
   receives (rfiles_of scp_local_name decode ''utf-8'' eagain n r p) (scp_recv_recursive S exists decode eagain n r p encoding)"
  "opens_dirs S \<Longrightarrow> complete_tree eagain (RDir es) \<Longrightarrow> encoding = ''utf-8'' \<Longrightarrow>
   receives (rentries_of scp_local_name decode ''utf-8'' eagain es r p) (scp_recv_dir S exists decode eagain es r p encoding)"
proof (induction S exists decode eagain n r p encoding and S exists decode eagain es r p encoding
    rule: scp_recv_recursive_scp_recv_dir.induct)
  case (1 S exists decode eagain sz reads r p encoding)
  from receives_then_next[OF receives_returns[OF fetches_andthen[OF fetches_stat fetches_note]] receives_scp_recv_file[OF 1(2)]]
  show ?case by simp
next
  case (2 S exists decode eagain entries r p encoding)
  have ih: "receives (rentries_of scp_local_name decode ''utf-8'' eagain entries r p) (scp_recv_dir S exists decode eagain entries r p encoding)"
    using "2.IH"[OF opens_dirsD[OF "2.prems"(1), of _ "[]", symmetric] refl] "2.prems" by simp
  have "receives [] (returns (request S (OpenDir r)))"
    by (rule receives_returns) (auto simp: fetches_def request_apply local_clean_def)
  from receives_then_next[OF receives_returns[OF fetches_stat] receives_then_next[OF this
      receives_then_next[OF receives_returns[OF fetches_makedirs] ih]]]
  show ?case by (simp add: then_next_def returns_def opens_dirsD[OF "2.prems"(1)])
next
  case (3 S exists decode eagain r p encoding)
  then show ?case by (simp add: receives_returns fetches_return)
next
  case (4 S exists decode eagain name n entries r p encoding)
  then show ?case
    by (cases "decode_name decode encoding name") (simp_all add: receives_returns fetches_throw receives_then_next)
qed

lemma fetches_sftp: "fetches [] (sftp_or_new S b)"
  by (auto simp: sftp_or_new_def make_sftp_def fetches_def attempt_throw_Inr request_apply local_clean_def)

lemma receives_scp_recv:
  assumes "opens_dirs S" "complete_tree eagain n"
  shows "receives (rfiles_of scp_local_name decode ''utf-8'' eagain n r p)
    (scp_recv S exists decode eagain n r p True has_sftp ''utf-8'')"
  using receives_then_next[OF receives_returns[OF fetches_sftp] receives_scp_recv_recursive(1)[OF assms refl]]
  by (simp add: scp_recv_def)

lemma copy_remote_file_result:
  assumes "opens_dirs S" "copy_remote_file S exists decode eagain n r p recurse encoding h = (Inr (), h')"
  shows "\<exists>evs. h' = h @ evs \<and> downloaded evs = rfiles_of same_name decode encoding eagain n r p"
  using fetchesE[OF fetches_copy_remote(1)[OF assms(1)] assms(2)] by metis

text \<open>A file that ends before its announced size.\<close>

lemma scp_read_loop_short:
  assumes "drop k reads = rs" "list_all (good_read eagain) rs" "eagain \<noteq> 0"
    "got + int (length (concat (read_data eagain rs))) < sz"
  shows "scp_read_loop (scp_script (RFile st reads)) eagain sz k got written = None"
  using assms
proof (induction rs arbitrary: k got written)
  case Nil
  then have "scp_script (RFile st reads) i = Inr (0, [])" if "k \<le> i" for i
    using that by simp
  with Nil show ?case using scp_read_loop_some by (metis add.right_neutral concat.simps(1) list.size(3) not_None_eq of_nat_0 read_data.simps(1))
next
  case (Cons r rs)
  then obtain s d where r: "r = Inr (s, d)" "s = eagain \<or> s = int (length d)"
    by (auto simp: good_read_def split: sum.splits)
  have k: "k < length reads" "reads ! k = r" "drop (Suc k) reads = rs"
    using Cons.prems(1) by (metis drop_all linorder_not_less list.discI, metis nth_via_drop, metis drop_Suc tl_drop list.sel(3))
  have good: "list_all (good_read eagain) rs" using Cons.prems(2) by simp
  have lt: "got < sz" using Cons.prems(4) by linarith
  have now: "scp_script (RFile st reads) k = r" using k by simp
  show ?case
  proof (cases "s = eagain")
    case True
    with Cons.prems(4) r have "got + int (length (concat (read_data eagain rs))) < sz" by simp
    from Cons.IH[OF k(3) good Cons.prems(3) this, of written] now r True lt show ?thesis
        by (subst scp_read_loop.simps) (simp del: scp_script.simps)
  next
    case False
    with Cons.prems(4) r have "(got + s) + int (length (concat (read_data eagain rs))) < sz" by simp
    from Cons.IH[OF k(3) good Cons.prems(3) this, of "written @ d"] now r False lt show ?thesis
        by (subst scp_read_loop.simps) (simp del: scp_script.simps)
  qed
qed

section \<open>Properties\<close>


definition plain_codec :: codec where
  "plain_codec encoding line = (if encoding = ''latin-1'' \<or> list_all (\<lambda>c. of_char c < (128 :: nat)) line then Some line else None)"

definition remote_tree :: rnode where
  "remote_tree = RDir [(Inr ''.'', RDir []), (Inr ''a'', RFile 3 [Inr (2, ''xy''), Inr (-37, []), Inr (1, ''z'')]),
     (Inr ''s'', RDir [(Inr ''b'', RFile 0 [])])]"




text \<open>
  C40: A server that closes the channel before it has sent as many bytes as it announced keeps
  \<open>scp_recv\<close> from ever returning: reads at the end of a channel give no data, which the loop takes
  for progress.
\<close>
theorem scp_recv_never_returns_after_early_eof:
  assumes "list_all (good_read eagain) reads" "int (length (concat (read_data eagain reads))) < sz" "eagain \<noteq> 0"
  shows "scp_recv (\<lambda>h. None) exists decode eagain (RFile sz reads) r p recurse has_sftp encoding h = None"
proof -
  have none: "scp_read_loop (scp_script (RFile sz reads)) eagain sz 0 0 [] = None"
    using scp_read_loop_short[of 0 reads reads eagain 0 sz] assms by simp
  have one: "scp_recv1 (\<lambda>h. None) eagain (RFile sz reads) r q h = None" for q h
    unfolding scp_recv1_def then_next_def returns_def
    by (simp add: bind_def attempt_def request_apply none del: scp_script.simps)
  have whole: "scp_recv_file (\<lambda>h. None) exists eagain (RFile sz reads) r p h = None" for h
    by (simp add: scp_recv_file_def Let_def then_next_def returns_def make_local_dir_def request_apply one)
  then show ?thesis
    by (simp add: scp_recv_def then_next_def returns_def sftp_or_new_def make_sftp_def stat_remote_def
        bind_def attempt_def request_apply note_event_def)
qed

theorem scp_recv_never_returns_after_early_eof_witness:
  "scp_recv (\<lambda>h. None) (\<lambda>h p. True) plain_codec (-37) (RFile 3 [Inr (2, ''xy'')]) ''/r'' ''/l'' False False ''utf-8'' [] = None"
  by (rule scp_recv_never_returns_after_early_eof) (simp_all add: good_read_def)

text \<open>
  The encoding given to \<open>scp_recv\<close> is used for the names of the directory itself and not below
  it: a name that UTF-8 does not decode makes it fail as soon as it is in a subdirectory, whatever
  the encoding that was asked for.
\<close>
theorem scp_recv_forgets_the_encoding:
  assumes "decode encoding sub = Some d" "d \<noteq> ''.''" "d \<noteq> ''..''" "decode ''utf-8'' line = None"
  shows "\<exists>h'. scp_recv (\<lambda>h. None) exists decode eagain (RDir [(Inr sub, RDir [(Inr line, n)])]) r p True has_sftp encoding h =
    Some (Inl DecodeError, h')"
  using assms
  by (simp add: scp_recv_def then_next_def returns_def sftp_or_new_def make_sftp_def stat_remote_def
        bind_def attempt_def request_apply decode_name_def)

theorem scp_recv_forgets_the_encoding_witness:
  "\<exists>h'. scp_recv (\<lambda>h. None) (\<lambda>h p. True) plain_codec (-37)
      (RDir [(Inr ''s'', RDir [(Inr [CHR 0xE9], RFile 0 [])])]) ''/r'' ''/l'' True False ''latin-1'' [] =
    Some (Inl DecodeError, h')"
  by (rule scp_recv_forgets_the_encoding[where d = "''s''"]) (simp_all add: plain_codec_def)

text \<open>
  A server whose listing has an absolute name decides where the file is written: it is written
  to that name, outside the local directory that was asked for.
\<close>
theorem absolute_names_leave_the_directory:
  assumes "is_abs name" "decode encoding line = Some name" "opens_dirs S"
    "copy_remote_file S exists decode eagain (RDir [(Inr line, RFile sz reads)]) r p True encoding h = (Inr (), h')"
  shows "\<exists>evs. h' = h @ evs \<and> downloaded evs = [(name, concat (read_data eagain reads))]"
proof -
  from assms(1) have "path_join p name = name" "name \<noteq> ''.''" "name \<noteq> ''..''"
    by (auto simp: is_abs_def path_join_def starts_with_def)
  with copy_remote_file_result[OF assms(3,4)] assms(2) show ?thesis
    by (simp add: decode_name_def)
qed

theorem absolute_names_leave_the_directory_witness:
  "downloaded (snd (copy_remote_file (\<lambda>h. None) (\<lambda>h p. True) plain_codec (-37)
      (RDir [(Inr ''/etc/x'', RFile 1 [Inr (1, ''y'')])]) ''/r'' ''/l'' True ''utf-8'' [])) = [(''/etc/x'', ''y'')]"
proof -
  let ?c = "copy_remote_file (\<lambda>h. None) (\<lambda>h p. True) plain_codec (-37)
      (RDir [(Inr ''/etc/x'', RFile 1 [Inr (1, ''y'')])]) ''/r'' ''/l'' True ''utf-8'' []"
  have "fst ?c = Inr ()" by code_simp
  then have e: "?c = (Inr (), snd ?c)" by (simp add: prod_eq_iff)
  have "is_abs ''/etc/x''" "plain_codec ''utf-8'' ''/etc/x'' = Some ''/etc/x''" by code_simp+
  moreover have "opens_dirs (\<lambda>h. None)" by (simp add: opens_dirs_def)
  ultimately show ?thesis using absolute_names_leave_the_directory[OF _ _ _ e] by simp
qed

text \<open>
  Downloading to a relative name makes the directories of that name below the root of the file
  system and not below the working directory; the file itself is opened by the relative name.
\<close>
theorem relative_names_make_directories_at_the_root:
  "snd (copy_remote_file (\<lambda>h. None) (\<lambda>h p. False) plain_codec (-37) (RFile 0 []) ''/r'' ''out/f'' False ''utf-8'' []) =
     [Stat ''/r'', OpenDir ''/r'', MakeLocalDirs ''/out'', OpenRead ''/r'', OpenLocal ''out/f'', CloseLocal, CloseFile]"
  by code_simp

end
