(* ===== verification/Transfers.thy ===== *)
theory Transfers
  imports Downloads Scp_Send "HOL-Library.Multiset"
begin

text \<open>
  Uploads and downloads together: that they come to their end when nobody refuses them anything, and
  what a copy to a host and a copy back leave behind.

  The server between the two is arbitrary.  It may list its directories in any order and cut the
  files into other reads; what is asked of it is that it holds the files that were written.
\<close>

section \<open>Trees below a path\<close>

text \<open>A name that is one component, and a path that one is joined to with a slash.\<close>

definition plain_name :: "string \<Rightarrow> bool" where
  "plain_name nm \<longleftrightarrow> nm \<noteq> [] \<and> SLASH \<notin> set nm"

definition joinable :: "string \<Rightarrow> bool" where
  "joinable p \<longleftrightarrow> p \<noteq> [] \<and> \<not> ends_with SLASH p"

fun plain_tree :: "codec \<Rightarrow> string \<Rightarrow> rnode \<Rightarrow> bool"
  and plain_entries :: "codec \<Rightarrow> string \<Rightarrow> ((xfer_error + bytes) \<times> rnode) list \<Rightarrow> bool" where
  "plain_tree decode encoding (RFile sz reads) = True"
| "plain_tree decode encoding (RDir entries) = plain_entries decode encoding entries"
| "plain_entries decode encoding [] = True"
| "plain_entries decode encoding ((name, n) # entries) =
     ((case decode_name decode encoding name of Inl e \<Rightarrow> True | Inr nm \<Rightarrow> plain_name nm) \<and>
      plain_tree decode encoding n \<and> plain_entries decode encoding entries)"

definition below :: "string \<Rightarrow> string \<times> bytes \<Rightarrow> string \<times> bytes" where
  "below p f = (p @ fst f, snd f)"

lemma below_below: "below p (below q f) = below (p @ q) f"
  by (simp add: below_def)

lemma inj_below: "inj (below p)"
  by (auto simp: below_def inj_def prod_eq_iff)

lemma path_join_plain: "plain_name nm \<Longrightarrow> joinable p \<Longrightarrow> path_join p nm = p @ SLASH # nm"
  by (cases nm) (auto simp: path_join_def plain_name_def joinable_def starts_with_def)

lemma joinable_component: "plain_name nm \<Longrightarrow> joinable (p @ SLASH # nm)"
  by (auto simp: joinable_def plain_name_def ends_with_def) (metis last_in_set)

lemma files_of_below:
  "files_of n (p @ q) = map (below p) (files_of n q)"
  "entries_of es (p @ q) = map (below p) (entries_of es q)"
proof (induction n q and es q rule: files_of_entries_of.induct)
  case (5 file_name n entries dir)
  from 5(1) have "files_of n (p @ dir @ SLASH # file_name) = map (below p) (files_of n (dir @ SLASH # file_name))" .
  with 5(2) show ?case by simp
qed (simp_all add: below_def)

text \<open>The files of a remote tree by their paths in it.\<close>

fun tree_files :: "codec \<Rightarrow> string \<Rightarrow> int \<Rightarrow> rnode \<Rightarrow> string \<Rightarrow> (string \<times> bytes) list"
  and tree_entries :: "codec \<Rightarrow> string \<Rightarrow> int \<Rightarrow> ((xfer_error + bytes) \<times> rnode) list \<Rightarrow> string \<Rightarrow> (string \<times> bytes) list" where
  "tree_files decode encoding eagain (RFile sz reads) path = [(path, concat (read_data eagain reads))]"
| "tree_files decode encoding eagain (RDir entries) path = tree_entries decode encoding eagain entries path"
| "tree_entries decode encoding eagain [] dir = []"
| "tree_entries decode encoding eagain ((name, n) # entries) dir =
     (case decode_name decode encoding name of
        Inl e \<Rightarrow> []
      | Inr nm \<Rightarrow> (if nm = ''.'' \<or> nm = ''..'' then [] else tree_files decode encoding eagain n (dir @ SLASH # nm))) @
     tree_entries decode encoding eagain entries dir"

lemma tree_files_below:
  "tree_files decode encoding eagain n (p @ q) = map (below p) (tree_files decode encoding eagain n q)"
  "tree_entries decode encoding eagain es (p @ q) = map (below p) (tree_entries decode encoding eagain es q)"
proof (induction decode encoding eagain n q and decode encoding eagain es q rule: tree_files_tree_entries.induct)
  case (4 decode encoding eagain name n entries dir)
  then show ?case by (simp split: sum.split)
qed (simp_all add: below_def)

lemma rfiles_of_tree_files:
  "\<lbrakk>plain_tree decode encoding n; joinable path\<rbrakk>
    \<Longrightarrow> rfiles_of same_name decode encoding eagain n remote path = tree_files decode encoding eagain n path"
  "\<lbrakk>plain_entries decode encoding es; joinable path\<rbrakk>
    \<Longrightarrow> rentries_of same_name decode encoding eagain es remote path = tree_entries decode encoding eagain es path"
proof (induction same_name decode encoding eagain n remote path and same_name decode encoding eagain es remote path
    rule: rfiles_of_rentries_of.induct)
  case (4 decode encoding eagain name n entries remote dir)
  then show ?case by (auto simp: path_join_plain joinable_component split: sum.splits)
qed simp_all

lemma rfiles_of_below:
  assumes "plain_tree decode encoding n" "joinable path"
  shows "rfiles_of same_name decode encoding eagain n remote path =
    map (below path) (tree_files decode encoding eagain n [])"
  using rfiles_of_tree_files(1)[OF assms] tree_files_below(1)[of decode encoding eagain n path "[]"] by simp

text \<open>Two trees with the same files below one path have the same files below another.\<close>

lemma same_files_elsewhere:
  assumes "mset (map (below p) xs) = mset (map (below p) ys)"
  shows "mset (map (below q) xs) = mset (map (below q) ys)"
proof -
  from assms have "image_mset (below p) (mset xs) = image_mset (below p) (mset ys)" by simp
  then have "mset xs = mset ys" by (rule multiset.inj_map_strong[rotated]) (simp add: injD[OF inj_below])
  then show ?thesis by simp
qed

section \<open>Copies that are not refused\<close>

text \<open>
  A program that returns whatever went before.  A server is \<^emph>\<open>willing\<close> when it refuses nothing, except
  that it may say of a path that it does not exist.
\<close>

definition succeeds :: "unit xfer_prog \<Rightarrow> bool" where
  "succeeds m \<longleftrightarrow> (\<forall>h. \<exists>h'. m h = (Inr (), h'))"

definition willing :: "server \<Rightarrow> bool" where
  "willing S \<longleftrightarrow> (\<forall>h ev. S (h @ [ev]) = None \<or> (\<exists>p e. ev = Stat p \<and> S (h @ [ev]) = Some e \<and> missing e))"

definition accepting :: "server \<Rightarrow> bool" where
  "accepting S \<longleftrightarrow> (\<forall>h ev. S (h @ [ev]) = None)"

fun readable :: "node \<Rightarrow> bool"
  and readable_entries :: "(string \<times> node) list \<Rightarrow> bool" where
  "readable (FileN content) = (\<not> isl content)"
| "readable (DirN entries) = readable_entries entries"
| "readable_entries [] = True"
| "readable_entries ((file_name, n) # entries) = (readable n \<and> readable_entries entries)"

fun is_dir :: "node \<Rightarrow> bool" where
  "is_dir (DirN _) = True" | "is_dir (FileN _) = False"

named_theorems succeed_intros \<open>programs that return\<close>

lemma succeeds_return [succeed_intros]: "succeeds (return ())" "succeeds (Pair (Inr ()))"
  by (simp_all add: succeeds_def)

lemma succeeds_update [succeed_intros]: "succeeds (update f)"
  by (simp add: succeeds_def)

lemma succeeds_andthen [succeed_intros]: "succeeds m \<Longrightarrow> succeeds k \<Longrightarrow> succeeds (andthen m k)"
  unfolding succeeds_def bind_def by (metis (mono_tags, lifting) old.prod.case old.sum.simps(6))

lemma succeeds_attempt [succeed_intros]: "succeeds m \<Longrightarrow> succeeds (attempt m k)"
  unfolding succeeds_def attempt_def by (metis (mono_tags, lifting) old.prod.case old.sum.simps(6))

lemma succeeds_ensuring [succeed_intros]: "succeeds m \<Longrightarrow> succeeds k \<Longrightarrow> succeeds (ensuring m k)"
  unfolding succeeds_def ensuring_def by (metis (mono_tags, lifting) old.prod.case old.sum.simps(6))

lemma succeeds_request [succeed_intros]: "willing S \<Longrightarrow> (\<And>p. ev \<noteq> Stat p) \<Longrightarrow> succeeds (request S ev)"
  unfolding succeeds_def willing_def by (simp add: request_apply split: option.split) (metis option.distinct(1))

lemma accepting_willing: "accepting S \<Longrightarrow> willing S"
  by (simp add: accepting_def willing_def)

lemma succeeds_any_request: "accepting S \<Longrightarrow> succeeds (request S ev)"
  by (simp add: succeeds_def accepting_def request_apply)

lemma succeeds_ensure_dir [succeed_intros]: "willing S \<Longrightarrow> succeeds make \<Longrightarrow> succeeds (ensure_dir S p make)"
  unfolding succeeds_def ensure_dir_def
proof
  fix h assume S: "willing S" and m: "\<forall>h. \<exists>h'. make h = (Inr (), h')"
  from S consider "S (h @ [Stat p]) = None" | e where "S (h @ [Stat p]) = Some e" "missing e"
    unfolding willing_def by metis
  then show "\<exists>h'. attempt (request S (Stat p)) (\<lambda>e. if missing e then make else throw e) h = (Inr (), h')"
    by cases (use m in \<open>simp_all add: attempt_def request_apply\<close>)
qed

section \<open>Uploads that are not refused\<close>

lemma succeeds_mkdir_from [succeed_intros]: "willing S \<Longrightarrow> succeeds (mkdir_from S cwd ds)"
  by (induction S cwd ds rule: mkdir_from.induct) (auto simp: Let_def sftp_mkdir1_def intro!: succeed_intros)

lemma succeeds_sftp_mkdir [succeed_intros]: "willing S \<Longrightarrow> succeeds (sftp_mkdir S d)"
  by (simp add: sftp_mkdir_def succeed_intros)

lemma succeeds_write_chunks [succeed_intros]: "willing S \<Longrightarrow> succeeds (write_chunks S ds)"
  by (induction ds) (auto intro!: succeed_intros)

lemma succeeds_make_sftp [succeed_intros]: "willing S \<Longrightarrow> succeeds (make_sftp S)"
  by (auto simp: make_sftp_def intro!: succeed_intros)

lemma succeeds_sftp_put [succeed_intros]: "willing S \<Longrightarrow> succeeds (sftp_put S (Inr d) p)"
  by (auto simp: sftp_put_def sftp_openfh_def sftp_put_data_def close_file_def intro!: succeed_intros)

lemma succeeds_copy_file:
  "willing S \<Longrightarrow> readable n \<Longrightarrow> (is_dir n \<longrightarrow> recurse) \<Longrightarrow> succeeds (copy_file S n p recurse)"
  "willing S \<Longrightarrow> readable_entries es \<Longrightarrow> succeeds (copy_entries S es p)"
proof (induction S n p recurse and S es p rule: copy_file_copy_entries.induct)
  case (2 S local_file remote_file recurse)
  then obtain d where "local_file = Inr d" by (cases local_file) auto
  with 2 show ?case by (auto intro!: succeed_intros split: option.split)
qed (auto intro!: succeed_intros)

lemma succeeds_scp_send1 [succeed_intros]: "willing S \<Longrightarrow> succeeds (scp_send1 S (Inr d) p)"
  by (auto simp: scp_send1_def scp_finish_def intro!: succeed_intros)

lemma succeeds_sftp_or_new [succeed_intros]: "willing S \<Longrightarrow> succeeds (sftp_or_new S b)"
  by (simp add: sftp_or_new_def succeed_intros)

lemma succeeds_scp_send:
  "willing S \<Longrightarrow> readable n \<Longrightarrow> (is_dir n \<longrightarrow> recurse) \<Longrightarrow> succeeds (scp_send S local_file n p recurse has_sftp)"
  "willing S \<Longrightarrow> readable_entries es \<Longrightarrow> succeeds (scp_send_dir S local_dir es p)"
proof (induction S local_file n p recurse has_sftp and S local_dir es p rule: scp_send_scp_send_dir.induct)
  case (2 S local_file content remote_file recurse has_sftp)
  then obtain d where "content = Inr d" by (cases content) auto
  with 2 show ?case by (auto intro!: succeed_intros split: option.split)
qed (auto intro!: succeed_intros)

section \<open>Downloads that are not refused\<close>

fun readable_remote :: "codec \<Rightarrow> string \<Rightarrow> rnode \<Rightarrow> bool"
  and readable_remotes :: "codec \<Rightarrow> string \<Rightarrow> ((xfer_error + bytes) \<times> rnode) list \<Rightarrow> bool" where
  "readable_remote decode encoding (RFile sz reads) = list_all (\<lambda>r. \<not> isl r) reads"
| "readable_remote decode encoding (RDir entries) = readable_remotes decode encoding entries"
| "readable_remotes decode encoding [] = True"
| "readable_remotes decode encoding ((name, n) # entries) =
     (\<not> isl (decode_name decode encoding name) \<and> readable_remote decode encoding n \<and> readable_remotes decode encoding entries)"

fun is_rdir :: "rnode \<Rightarrow> bool" where
  "is_rdir (RDir _) = True" | "is_rdir (RFile _ _) = False"

lemma succeeds_sftp_get_data:
  "accepting S \<Longrightarrow> list_all (\<lambda>r. \<not> isl r) reads \<Longrightarrow> succeeds (sftp_get_data S eagain reads)"
  by (induction S eagain reads rule: sftp_get_data.induct)
    (auto intro!: succeed_intros succeeds_any_request)

lemma succeeds_get_one:
  "accepting S \<Longrightarrow> list_all (\<lambda>r. \<not> isl r) reads \<Longrightarrow> succeeds (get_one S exists eagain reads r p)"
proof -
  assume S: "accepting S" and r: "list_all (\<lambda>r. \<not> isl r) reads"
  have "succeeds (make_local_dir S exists d)" for d
    using S by (auto simp: succeeds_def make_local_dir_def request_apply accepting_def)
  then show ?thesis
    by (auto simp: get_one_def sftp_get_def sftp_openfh_def note_event_def close_file_def
        intro!: succeed_intros succeeds_any_request[OF S] succeeds_sftp_get_data[OF S r])
qed

lemma succeeds_copy_remote_file:
  "\<lbrakk>accepting S; readable_remote decode encoding n; is_rdir n \<longrightarrow> recurse\<rbrakk>
    \<Longrightarrow> succeeds (copy_remote_file S exists decode eagain n r p recurse encoding)"
  "\<lbrakk>accepting S; readable_remotes decode encoding es\<rbrakk>
    \<Longrightarrow> succeeds (copy_remote_dir S exists decode eagain es r p encoding)"
proof (induction S exists decode eagain n r p recurse encoding and S exists decode eagain es r p encoding
    rule: copy_remote_file_copy_remote_dir.induct)
  case (1 S exists decode eagain sz reads remote_file local_file recurse encoding)
  then show ?case
    by (auto simp: stat_remote_def note_event_def intro!: succeed_intros succeeds_any_request succeeds_get_one)
next
  case (2 S exists decode eagain entries remote_file local_file recurse encoding)
  have open_dir: "request S (OpenDir remote_file) h = (Inr (), h @ [OpenDir remote_file])" for h
    using "2.prems"(1) by (simp add: request_apply accepting_def)
  from 2 have "succeeds (copy_remote_dir S exists decode eagain entries remote_file local_file encoding)"
    by (auto simp: open_dir)
  then have "succeeds (\<lambda>h. case request S (OpenDir remote_file) h of
      (Inl _, h1) \<Rightarrow> get_one S exists eagain [] remote_file local_file h1
    | (Inr _, h1) \<Rightarrow> (if \<not> recurse then (Inl RecurseValueError, h1)
        else copy_remote_dir S exists decode eagain entries remote_file local_file encoding h1))"
    using "2.prems" by (simp add: succeeds_def open_dir)
  moreover have "succeeds (stat_remote S (SFTPIOErr remote_file) remote_file)"
    using "2.prems"(1) by (auto simp: stat_remote_def intro!: succeed_intros succeeds_any_request)
  ultimately show ?case by (simp add: succeeds_andthen)
next
  case (3 S exists decode eagain remote_dir local_dir encoding)
  then show ?case by (simp add: succeed_intros)
next
  case (4 S exists decode eagain name n entries remote_dir local_dir encoding)
  then obtain nm where "decode_name decode encoding name = Inr nm" by (cases "decode_name decode encoding name") auto
  with 4 show ?case by (auto intro!: succeed_intros)
qed

section \<open>Properties\<close>


definition held_tree :: rnode where
  "held_tree = RDir [(Inr ''.'', RDir []), (Inr ''s'', RDir [(Inr ''b'', RFile 0 [])]),
     (Inr ''a'', RFile 3 [Inr (2, ''xy''), Inr (-37, []), Inr (1, ''z'')])]"

definition local_tree :: node where
  "local_tree = DirN [(''a'', FileN (Inr ''xyz'')), (''s'', DirN [(''b'', FileN (Inr []))])]"




text \<open>
  C14: A server that refuses nothing, except that it may say of paths that they do not exist, gets the
  whole tree: both kinds of upload return and have sent every file with its data, provided that the
  local files can be read and a directory is copied with \<open>recurse\<close>.
\<close>
theorem willing_servers_get_the_tree:
  assumes "willing S" "readable n" "is_dir n \<longrightarrow> recurse"
  shows "(\<exists>evs. copy_file_to_host S n remote_file recurse h = (Inr (), h @ evs) \<and> uploaded evs = files_of n remote_file) \<and>
    (\<exists>evs. scp_send S local_file n remote_file recurse False h = (Inr (), h @ evs) \<and>
       uploaded evs = files_of n (scp_target local_file n remote_file recurse))"
proof
  have "succeeds (copy_file_to_host S n remote_file recurse)"
    using succeeds_copy_file(1)[OF assms] assms(1) by (auto simp: copy_file_to_host_def intro!: succeed_intros)
  then obtain h' where "copy_file_to_host S n remote_file recurse h = (Inr (), h')" by (auto simp: succeeds_def)
  with copy_file_to_host_result[OF this]
  show "\<exists>evs. copy_file_to_host S n remote_file recurse h = (Inr (), h @ evs) \<and> uploaded evs = files_of n remote_file" by auto
  from succeeds_scp_send(1)[OF assms] obtain h' where "scp_send S local_file n remote_file recurse False h = (Inr (), h')"
    by (fastforce simp: succeeds_def)
  with copies_scp_send(1)[of n local_file remote_file recurse S False]
  show "\<exists>evs. scp_send S local_file n remote_file recurse False h = (Inr (), h @ evs) \<and>
       uploaded evs = files_of n (scp_target local_file n remote_file recurse)" by (auto elim: copiesE)
qed

definition forgetful_server :: server where
  "forgetful_server h = (case last h of Stat p \<Rightarrow> Some SFTPHandleError | _ \<Rightarrow> None)"

theorem willing_servers_get_the_tree_witness:
  "\<exists>evs. copy_file_to_host forgetful_server local_tree ''/r'' True [] = (Inr (), evs) \<and>
     uploaded evs = [(''/r/a'', ''xyz''), (''/r/s/b'', [])]"
proof -
  have "willing forgetful_server" "readable local_tree"
    by (simp_all add: willing_def forgetful_server_def missing_def local_tree_def split: xfer_event.split)
  from willing_servers_get_the_tree[OF this, of True "''/r''" "[]"] show ?thesis by (simp add: local_tree_def)
qed

text \<open>
  A server that refuses nothing gives the whole tree: the download returns and every file is written
  at its place with the data that was read.
\<close>
theorem accepting_servers_give_the_tree:
  assumes "accepting T" "readable_remote decode encoding t" "is_rdir t \<longrightarrow> recurse"
  shows "\<exists>evs. copy_remote_file T exists decode eagain t remote_file local_file recurse encoding g = (Inr (), g @ evs) \<and>
    downloaded evs = rfiles_of same_name decode encoding eagain t remote_file local_file"
proof -
  from succeeds_copy_remote_file(1)[OF assms] obtain h' where
    h': "copy_remote_file T exists decode eagain t remote_file local_file recurse encoding g = (Inr (), h')"
    by (fastforce simp: succeeds_def)
  have "opens_dirs T" using assms(1) by (simp add: opens_dirs_def accepting_def)
  with copy_remote_file_result[OF _ h'] h' show ?thesis by auto
qed

theorem accepting_servers_give_the_tree_witness:
  "\<exists>evs. copy_remote_file (\<lambda>h. None) (\<lambda>h p. False) plain_codec (-37) held_tree ''/r'' ''/l'' True ''utf-8'' [] = (Inr (), evs) \<and>
     downloaded evs = [(''/l/s/b'', []), (''/l/a'', ''xyz'')]"
proof -
  have "readable_remote plain_codec ''utf-8'' held_tree"
    "rfiles_of same_name plain_codec ''utf-8'' (-37) held_tree ''/r'' ''/l'' = [(''/l/s/b'', []), (''/l/a'', ''xyz'')]"
    by code_simp+
  with accepting_servers_give_the_tree[of "\<lambda>h. None" plain_codec "''utf-8''" held_tree True "\<lambda>h p. False" "-37" "''/r''" "''/l''" "[]"]
  show ?thesis by (simp add: accepting_def)
qed

end
