(* ===== verification/Tunnel.thy ===== *)
theory Tunnel
  imports Polling
begin

text \<open>
  Connections through a proxy: \<open>TunnelServer\<close> and \<open>LocalForwarder\<close> of
  \<open>pssh/clients/native/tunnel.py\<close>, and what \<open>SSHClient.__init__\<close> and \<open>_connect_proxy\<close> of
  \<open>pssh/clients/native/single.py\<close> hand to them.

  The handler of a connection is two loops, one for each direction.  What the channel and the
  sockets answer in the \<open>k\<close>-th turn of a loop is a function of \<open>k\<close>; sending is a program over a state,
  and a loop that does not end is \<open>None\<close>.  The forwarder is a state machine over the two queues of
  its thread: every call that may block is a step of its own, so the steps of any number of clients
  and of the thread can be interleaved.
\<close>

section \<open>Opening a channel\<close>

text \<open>\<open>_open_channel\<close>: the loop of \<open>eagain\<close>, without its sleep.\<close>

definition open_channel ::
  "('s, 'e, 'c) prog \<Rightarrow> 'c \<Rightarrow> ('s, 'e, unit) prog \<Rightarrow> 's \<Rightarrow> (('e + 'c) \<times> 's) option" where
  "open_channel direct_tcpip eagain poll = eagain_errcode direct_tcpip eagain poll (return ())"

text \<open>
  \<open>_open_channel_retries\<close>: without any try left there is no channel, which is \<open>None\<close> in the code.  The
  waiting time is in milliseconds.
\<close>

function open_channel_retries ::
  "('s \<Rightarrow> (('e + 'c) \<times> 's) option) \<Rightarrow> (nat \<Rightarrow> 's \<Rightarrow> 's) \<Rightarrow> int \<Rightarrow> int \<Rightarrow> nat \<Rightarrow> 's
     \<Rightarrow> (('e + 'c option) \<times> 's) option" where
  "open_channel_retries open_chan sleep retries num_tries wait_time s =
     (if num_tries < retries
      then (case open_chan s of
              None \<Rightarrow> None
            | Some (Inr channel, s1) \<Rightarrow> Some (Inr (Some channel), s1)
            | Some (Inl ex, s1) \<Rightarrow>
                (if retries \<le> num_tries + 1 then Some (Inl ex, s1)
                 else open_channel_retries open_chan sleep retries (num_tries + 1) (wait_time * 5)
                        (sleep wait_time s1)))
      else Some (Inr None, s))"
  by pat_completeness auto
termination
  by (relation "measure (\<lambda>(open_chan, sleep, retries, num_tries, wait_time, s). nat (retries - num_tries))") auto

declare open_channel_retries.simps [simp del]

section \<open>Forwarding\<close>

text \<open>What a turn of a forwarding loop comes to.\<close>

datatype 'e turn = Leave | RaiseIn 'e | Idle | Forward bytes

text \<open>The turns of \<open>_read_forward_sock\<close> and of \<open>_read_channel\<close>; there is no channel or it is at its end.\<close>

definition forward_turn :: "bool \<Rightarrow> bool \<Rightarrow> 'e + bytes \<Rightarrow> 'e turn" where
  "forward_turn channel_done sock_closed received =
     (if channel_done then Leave
      else if sock_closed then Leave
      else (case received of
              Inl ex \<Rightarrow> RaiseIn ex
            | Inr data \<Rightarrow> (if length data = 0 then Idle else Forward data)))"

definition channel_turn :: "int \<Rightarrow> bool \<Rightarrow> 'e + int \<times> bytes \<Rightarrow> 'e option \<Rightarrow> 'e turn" where
  "channel_turn eagain channel_done read_result poll_result =
     (if channel_done then Leave
      else (case read_result of
              Inl ex \<Rightarrow> RaiseIn ex
            | Inr (sz, data) \<Rightarrow>
                (if sz = eagain then (case poll_result of Some ex \<Rightarrow> RaiseIn ex | None \<Rightarrow> Idle)
                 else if sz = 0 then Idle
                 else Forward data)))"

partial_function (option) pump ::
  "(bytes \<Rightarrow> 's \<Rightarrow> (('e + unit) \<times> 's) option) \<Rightarrow> (nat \<Rightarrow> 'e turn) \<Rightarrow> nat \<Rightarrow> 's \<Rightarrow> (('e + unit) \<times> 's) option" where
  "pump send turns k s =
     (case turns k of
        Leave \<Rightarrow> Some (Inr (), s)
      | RaiseIn ex \<Rightarrow> Some (Inl ex, s)
      | Idle \<Rightarrow> pump send turns (Suc k) s
      | Forward data \<Rightarrow>
          (case send data s of
             None \<Rightarrow> None
           | Some (Inl ex, s1) \<Rightarrow> Some (Inl ex, s1)
           | Some (Inr _, s1) \<Rightarrow> pump send turns (Suc k) s1))"

definition read_forward_sock ::
  "(bytes \<Rightarrow> 's \<Rightarrow> (('e + unit) \<times> 's) option) \<Rightarrow> (nat \<Rightarrow> bool) \<Rightarrow> (nat \<Rightarrow> bool) \<Rightarrow> (nat \<Rightarrow> 'e + bytes)
     \<Rightarrow> 's \<Rightarrow> (('e + unit) \<times> 's) option" where
  "read_forward_sock send channel_done sock_closed recv =
     pump send (\<lambda>k. forward_turn (channel_done k) (sock_closed k) (recv k)) 0"

definition read_channel ::
  "(bytes \<Rightarrow> 's \<Rightarrow> (('e + unit) \<times> 's) option) \<Rightarrow> int \<Rightarrow> (nat \<Rightarrow> bool) \<Rightarrow> (nat \<Rightarrow> 'e + int \<times> bytes) \<Rightarrow> (nat \<Rightarrow> 'e option)
     \<Rightarrow> 's \<Rightarrow> (('e + unit) \<times> 's) option" where
  "read_channel send eagain channel_done reads poll_results =
     pump send (\<lambda>k. channel_turn eagain (channel_done k) (reads k) (poll_results k)) 0"

text \<open>The two ways to send: \<open>eagain_write\<close> on the channel, and \<open>sendall\<close> on the socket, which may raise half way.\<close>

definition send_to_channel :: "(nat \<Rightarrow> 'e + int \<times> nat) \<Rightarrow> int \<Rightarrow> bytes \<Rightarrow> peer \<Rightarrow> (('e + unit) \<times> peer) option" where
  "send_to_channel script eagain data =
     eagain_write_errcode (ask_write script) count_poll count_sleep data eagain"

definition sendall :: "(nat \<Rightarrow> ('e \<times> nat) option) \<Rightarrow> bytes \<Rightarrow> peer \<Rightarrow> (('e + unit) \<times> peer) option" where
  "sendall script data s =
     Some (case script (calls s) of
             None \<Rightarrow> (Inr (), s\<lparr>calls := Suc (calls s), taken := taken s @ data\<rparr>)
           | Some (ex, n) \<Rightarrow> (Inl ex, s\<lparr>calls := Suc (calls s), taken := taken s @ take n data\<rparr>))"

section \<open>The contract of the senders\<close>

text \<open>
  A sender hands over all of the data, or raises having handed over a prefix.
\<close>

fun forwarded :: "(nat \<Rightarrow> 'e turn) \<Rightarrow> nat \<Rightarrow> nat \<Rightarrow> bytes" where
  "forwarded turns k 0 = []"
| "forwarded turns k (Suc n) = (case turns k of Forward d \<Rightarrow> d | _ \<Rightarrow> []) @ forwarded turns (Suc k) n"

definition ends_loop :: "'e turn \<Rightarrow> bool" where
  "ends_loop t \<longleftrightarrow> t = Leave \<or> (\<exists>e. t = RaiseIn e)"

definition pumped :: "('s \<Rightarrow> bytes) \<Rightarrow> (nat \<Rightarrow> 'e turn) \<Rightarrow> nat \<Rightarrow> 's \<Rightarrow> ('e + unit) \<times> 's \<Rightarrow> bool" where
  "pumped sunk turns k s res \<longleftrightarrow>
     (\<exists>n d. sunk (snd res) = sunk s @ forwarded turns k n @ d \<and>
        (\<forall>i < n. \<not> ends_loop (turns (k + i))) \<and>
        (d \<noteq> [] \<longrightarrow> (\<exists>m data. turns (k + n) = Forward data \<and> d = take m data)) \<and>
        (fst res = Inr () \<longrightarrow> d = [] \<and> turns (k + n) = Leave))"

locale sender =
  fixes send :: "bytes \<Rightarrow> 's \<Rightarrow> (('e + unit) \<times> 's) option"
    and sunk :: "'s \<Rightarrow> bytes"
  assumes send_all: "send d s = Some (Inr (), s') \<Longrightarrow> sunk s' = sunk s @ d"
    and send_part: "send d s = Some (Inl e, s') \<Longrightarrow> \<exists>m. sunk s' = sunk s @ take m d"
begin

lemma pumped_now:
  "turns k = Leave \<Longrightarrow> pumped sunk turns k s (Inr (), s)"
  "turns k = RaiseIn e \<Longrightarrow> pumped sunk turns k s (Inl e, s)"
  unfolding pumped_def by (rule exI[of _ 0]; simp)+

lemma pumped_raise:
  assumes "turns k = Forward d" "send d s = Some (Inl e, s1)"
  shows "pumped sunk turns k s (Inl e, s1)"
proof -
  from send_part[OF assms(2)] obtain m where "sunk s1 = sunk s @ take m d" by blast
  with assms(1) show ?thesis unfolding pumped_def by (intro exI[of _ 0] exI[of _ "take m d"]) auto
qed

lemma pumped_later:
  assumes "\<not> ends_loop (turns k)" "sunk s1 = sunk s @ forwarded turns k 1" "pumped sunk turns (Suc k) s1 res"
  shows "pumped sunk turns k s res"
proof -
  from assms(3) obtain n d where p: "sunk (snd res) = sunk s1 @ forwarded turns (Suc k) n @ d"
    "\<forall>i < n. \<not> ends_loop (turns (Suc k + i))"
    "d \<noteq> [] \<longrightarrow> (\<exists>m data. turns (Suc k + n) = Forward data \<and> d = take m data)"
    "fst res = Inr () \<longrightarrow> d = [] \<and> turns (Suc k + n) = Leave" unfolding pumped_def by blast
  have "\<not> ends_loop (turns (k + i))" if "i < Suc n" for i
    using that p(2) assms(1) by (cases i) auto
  with p assms(2) show ?thesis unfolding pumped_def by (intro exI[of _ "Suc n"] exI[of _ d]) simp
qed

lemma pump_result:
  assumes "pump send turns k s = Some res"
  shows "pumped sunk turns k s res"
proof (rule pump.raw_induct[where P = "\<lambda>f turns k s res. f = send \<longrightarrow> pumped sunk turns k s res",
      OF _ assms, THEN mp, OF _ refl], intro impI, goal_cases)
  case (1 loop f turns k s res)
  note ih = 1(1)[rule_format, OF _ refl] and eq = 1(2)[unfolded 1(3)]
  show ?case
  proof (cases "turns k")
    case Leave
    with eq pumped_now(1) show ?thesis by auto
  next
    case (RaiseIn e)
    with eq pumped_now(2) show ?thesis by auto
  next
    case Idle
    with eq ih have "pumped sunk turns (Suc k) s res" by auto
    from pumped_later[OF _ _ this] Idle show ?thesis by (simp add: ends_loop_def)
  next
    case (Forward d)
    with eq obtain r s1 where s: "send d s = Some (r, s1)" by (auto split: option.splits)
    show ?thesis
    proof (cases r)
      case (Inl e)
      with s pumped_raise[of turns k d s e s1] eq Forward show ?thesis by auto
    next
      case (Inr u)
      with s eq Forward ih have "pumped sunk turns (Suc k) s1 res" by auto
      from pumped_later[OF _ _ this] send_all[of d s s1] s Inr Forward show ?thesis
        by (simp add: ends_loop_def)
    qed
  qed
qed

end

interpretation channel_sender: sender "send_to_channel script eagain" taken
  for script :: "nat \<Rightarrow> 'e + int \<times> nat" and eagain
  by unfold_locales
     (auto simp: send_to_channel_def peer_sink.write_errcode_all dest: peer_sink.write_errcode_prefix)

interpretation socket_sender: sender "sendall script" taken
  for script :: "nat \<Rightarrow> ('e \<times> nat) option"
  by unfold_locales (auto simp: sendall_def split: option.splits)

section \<open>The forwarder\<close>

text \<open>
  \<open>LocalForwarder\<close>: \<open>in_q\<close> and \<open>out_q\<close> hold one element each; \<open>listening\<close> is the port of a server that
  has been started and that the thread has not yet put into \<open>out_q\<close>.  A server is its target and its
  local port.  A client is enqueued, waits for a port, and has connected to the one it got.
\<close>

type_synonym target = "string \<times> int"

datatype client_state = Fresh | Waiting | Tunnelled nat | Lost | Disconnected

record 'c forwarder =
  in_q :: "('c \<times> target) list"
  out_q :: "nat list"
  listening :: "nat option"
  servers :: "'c \<Rightarrow> (target \<times> nat) option"
  running :: bool
  shutdown_triggered :: bool
  sweeping :: "'c list"
  sweeper :: bool
  states :: "'c \<Rightarrow> client_state"

definition new_forwarder :: "'c forwarder" where
  "new_forwarder = \<lparr>in_q = [], out_q = [], listening = None, servers = (\<lambda>c. None), running = True,
     shutdown_triggered = False, sweeping = [], sweeper = True, states = (\<lambda>c. Fresh)\<rparr>"

definition enqueue :: "'c \<Rightarrow> target \<Rightarrow> 'c forwarder \<Rightarrow> 'c forwarder" where
  "enqueue c t f = f\<lparr>in_q := in_q f @ [(c, t)], states := (states f)(c := Waiting)\<rparr>"

text \<open>\<open>_start_server\<close> up to \<open>_get_server_listen_port\<close>, and what the latter does once the server has started.\<close>

definition start_server :: "nat \<Rightarrow> 'c forwarder \<Rightarrow> 'c forwarder" where
  "start_server port f =
     (case in_q f of
        [] \<Rightarrow> f
      | (c, t) # q \<Rightarrow> f\<lparr>in_q := q, servers := (servers f)(c \<mapsto> (t, port)), listening := Some port\<rparr>)"

definition put_listen_port :: "'c forwarder \<Rightarrow> 'c forwarder" where
  "put_listen_port f =
     (case listening f of None \<Rightarrow> f | Some port \<Rightarrow> f\<lparr>out_q := out_q f @ [port], listening := None\<rparr>)"

text \<open>The end of \<open>_connect_proxy\<close>: the client takes the port.\<close>

definition take_port :: "'c \<Rightarrow> 'c forwarder \<Rightarrow> 'c forwarder" where
  "take_port c f =
     (case out_q f of
        [] \<Rightarrow> f
      | port # q \<Rightarrow> f\<lparr>out_q := q, states := (states f)(c := Tunnelled port)\<rparr>)"

text \<open>\<open>shutdown\<close>: the event of the start of the thread counts as true even before it is set.\<close>

definition shutdown :: "'c forwarder \<Rightarrow> 'c forwarder" where
  "shutdown f = f\<lparr>servers := (\<lambda>c. None), shutdown_triggered := True\<rparr>"

text \<open>A server that cannot be started ends \<open>run\<close>, which shuts down and does not come back.\<close>

definition start_fails :: "'c forwarder \<Rightarrow> 'c forwarder" where
  "start_fails f = (shutdown (f\<lparr>in_q := tl (in_q f)\<rparr>))\<lparr>running := False\<rparr>"

datatype forwarder_error = KeyError

definition cleanup_server :: "'c \<Rightarrow> 'c forwarder \<Rightarrow> (forwarder_error + unit) \<times> 'c forwarder" where
  "cleanup_server c f =
     (case servers f c of
        None \<Rightarrow> (Inl KeyError, f)
      | Some _ \<Rightarrow> (Inr (), f\<lparr>servers := (servers f)(c := None)\<rparr>))"

text \<open>
  \<open>_cleanup_servers\<close>: the keys are listed first and then visited one by one.  The other threads run
  between two visits, so that the loop of the sweeping greenlet is also given as its steps:
  \<open>begin_sweep\<close> lists the keys, \<open>sweep_next\<close> visits the next one, and an exception ends the greenlet.
\<close>

definition visit :: "bool \<Rightarrow> 'c \<Rightarrow> 'c forwarder \<Rightarrow> (forwarder_error + unit) \<times> 'c forwarder" where
  "visit sock_closed c f = (if sock_closed then cleanup_server c f else (Inr (), f))"

primrec cleanup_servers ::
  "('c \<Rightarrow> bool) \<Rightarrow> 'c list \<Rightarrow> 'c forwarder \<Rightarrow> (forwarder_error + unit) \<times> 'c forwarder" where
  "cleanup_servers sock_closed [] f = (Inr (), f)"
| "cleanup_servers sock_closed (c # cs) f =
     (case visit (sock_closed c) c f of
        (Inl e, g) \<Rightarrow> (Inl e, g)
      | (Inr _, g) \<Rightarrow> cleanup_servers sock_closed cs g)"

definition begin_sweep :: "'c list \<Rightarrow> 'c forwarder \<Rightarrow> 'c forwarder" where
  "begin_sweep keys f = f\<lparr>sweeping := keys\<rparr>"

definition sweep_next :: "bool \<Rightarrow> 'c forwarder \<Rightarrow> 'c forwarder" where
  "sweep_next sock_closed f =
     (case sweeping f of
        [] \<Rightarrow> f
      | c # cs \<Rightarrow>
          (case visit sock_closed c (f\<lparr>sweeping := cs\<rparr>) of
             (Inr _, g) \<Rightarrow> g
           | (Inl e, g) \<Rightarrow> g\<lparr>sweeping := [], sweeper := False\<rparr>))"

definition holds_socket :: "'c forwarder \<Rightarrow> 'c \<Rightarrow> bool" where
  "holds_socket f c \<longleftrightarrow> states f c = Waiting \<or> (\<exists>port. states f c = Tunnelled port)"

definition proxy_closes :: "'c \<Rightarrow> 'c forwarder \<Rightarrow> 'c forwarder" where
  "proxy_closes c f = f\<lparr>states := (states f)(c := Lost)\<rparr>"

definition client_disconnects :: "'c \<Rightarrow> 'c forwarder \<Rightarrow> (forwarder_error + unit) \<times> 'c forwarder" where
  "client_disconnects c f = cleanup_server c (f\<lparr>states := (states f)(c := Disconnected)\<rparr>)"

text \<open>
  The steps of the clients and of the thread.  With \<open>one_thread\<close> the clients are in one thread, which
  waiting for a port blocks; \<open>target c\<close> is where client \<open>c\<close> wants to go.  The operating system gives a
  new server a port that no other has.  A proxy client keeps its socket while its client waits for a
  port or uses it, until the proxy client itself disconnects (\<open>Lost\<close>).
\<close>

inductive forwarder_step :: "bool \<Rightarrow> ('c \<Rightarrow> target) \<Rightarrow> 'c forwarder \<Rightarrow> 'c forwarder \<Rightarrow> bool"
  for one_thread target where
  step_enqueue:
    "\<lbrakk>states f c = Fresh; in_q f = []; \<not> (one_thread \<and> (\<exists>d. states f d = Waiting))\<rbrakk>
      \<Longrightarrow> forwarder_step one_thread target f (enqueue c (target c) f)"
| step_start:
    "\<lbrakk>running f; \<not> shutdown_triggered f; listening f = None; in_q f \<noteq> []; \<And>c t q. servers f c = Some (t, q) \<Longrightarrow> q \<noteq> port\<rbrakk>
      \<Longrightarrow> forwarder_step one_thread target f (start_server port f)"
| step_put:
    "\<lbrakk>listening f \<noteq> None; out_q f = []\<rbrakk> \<Longrightarrow> forwarder_step one_thread target f (put_listen_port f)"
| step_take:
    "\<lbrakk>states f c = Waiting; out_q f \<noteq> []\<rbrakk> \<Longrightarrow> forwarder_step one_thread target f (take_port c f)"
| step_fail:
    "\<lbrakk>running f; \<not> shutdown_triggered f; listening f = None; in_q f \<noteq> []\<rbrakk>
      \<Longrightarrow> forwarder_step one_thread target f (start_fails f)"
| step_disconnect:
    "\<lbrakk>states f c = Tunnelled port \<or> states f c = Lost\<rbrakk> \<Longrightarrow> forwarder_step one_thread target f (snd (client_disconnects c f))"
| step_lose:
    "\<lbrakk>states f c = Tunnelled port\<rbrakk> \<Longrightarrow> forwarder_step one_thread target f (proxy_closes c f)"
| step_sweep:
    "\<lbrakk>running f; sweeper f; sweeping f = []; distinct keys; set keys = dom (servers f)\<rbrakk>
      \<Longrightarrow> forwarder_step one_thread target f (begin_sweep keys f)"
| step_visit:
    "\<lbrakk>running f; sweeper f; sweeping f = c # cs; sock_closed \<Longrightarrow> \<not> holds_socket f c\<rbrakk>
      \<Longrightarrow> forwarder_step one_thread target f (sweep_next sock_closed f)"

inductive forwarder_runs :: "bool \<Rightarrow> ('c \<Rightarrow> target) \<Rightarrow> 'c forwarder \<Rightarrow> 'c forwarder \<Rightarrow> bool"
  for one_thread target f where
  runs_refl: "forwarder_runs one_thread target f f"
| runs_step:
    "\<lbrakk>forwarder_runs one_thread target f g; forwarder_step one_thread target g h\<rbrakk> \<Longrightarrow> forwarder_runs one_thread target f h"

lemmas forwarder_ops = enqueue_def start_server_def put_listen_port_def take_port_def start_fails_def
  shutdown_def cleanup_server_def client_disconnects_def proxy_closes_def begin_sweep_def sweep_next_def visit_def

inductive_cases forwarder_stepE: "forwarder_step one_thread target f g"

text \<open>
  Clients in one thread: at most one waits, and what it waits for is its own server, at one of the
  stations between \<open>in_q\<close> and \<open>out_q\<close>.
\<close>

definition in_flight :: "('c \<Rightarrow> target) \<Rightarrow> 'c \<Rightarrow> 'c forwarder \<Rightarrow> bool" where
  "in_flight target c f \<longleftrightarrow>
     (in_q f = [(c, target c)] \<and> listening f = None \<and> out_q f = []) \<or>
     (\<exists>port. servers f c = Some (target c, port) \<and> in_q f = [] \<and>
        (listening f = Some port \<and> out_q f = [] \<or> listening f = None \<and> out_q f = [port])) \<or>
     (\<not> running f \<and> in_q f = [] \<and> listening f = None \<and> out_q f = [])"

definition quiet :: "'c forwarder \<Rightarrow> bool" where
  "quiet f \<longleftrightarrow> in_q f = [] \<and> listening f = None \<and> out_q f = []"

definition tunnels :: "('c \<Rightarrow> target) \<Rightarrow> 'c forwarder \<Rightarrow> bool" where
  "tunnels target f \<longleftrightarrow> (running f \<longrightarrow> \<not> shutdown_triggered f \<and>
     (\<forall>c port. states f c = Tunnelled port \<longrightarrow> servers f c = Some (target c, port)))"

definition waits_alone :: "'c forwarder \<Rightarrow> 'c \<Rightarrow> bool" where
  "waits_alone f c \<longleftrightarrow> states f c = Waiting \<and> (\<forall>d. states f d = Waiting \<longrightarrow> d = c)"

definition forwarder_inv :: "('c \<Rightarrow> target) \<Rightarrow> 'c forwarder \<Rightarrow> bool" where
  "forwarder_inv target f \<longleftrightarrow> tunnels target f \<and>
     ((\<forall>c. states f c \<noteq> Waiting) \<and> quiet f \<or>
      (\<exists>c. waits_alone f c \<and> in_flight target c f))"

lemma forwarder_inv_new: "forwarder_inv target new_forwarder"
  by (simp add: forwarder_inv_def new_forwarder_def quiet_def tunnels_def)

lemma inv_waiting:
  "tunnels target f \<Longrightarrow> states f c = Waiting \<Longrightarrow> (\<And>d. states f d = Waiting \<Longrightarrow> d = c) \<Longrightarrow> in_flight target c f \<Longrightarrow>
   forwarder_inv target f"
  unfolding forwarder_inv_def waits_alone_def by blast

lemma inv_quiet: "tunnels target f \<Longrightarrow> (\<And>c. states f c \<noteq> Waiting) \<Longrightarrow> quiet f \<Longrightarrow> forwarder_inv target f"
  unfolding forwarder_inv_def by blast

lemma forwarder_inv_flight:
  assumes "forwarder_inv target f" "\<not> quiet f"
  obtains c where "waits_alone f c" "in_flight target c f"
  using assms unfolding forwarder_inv_def by blast

lemma waits_aloneD: "waits_alone f c \<Longrightarrow> states f c = Waiting" "waits_alone f c \<Longrightarrow> states f d = Waiting \<Longrightarrow> d = c"
  by (auto simp: waits_alone_def)

lemma inv_enqueue:
  assumes "forwarder_inv target f" "states f c = Fresh" "\<not> (\<exists>d. states f d = Waiting)"
  shows "forwarder_inv target (enqueue c (target c) f)"
proof (rule inv_waiting)
  show "tunnels target (enqueue c (target c) f)"
    using assms(1,2) by (auto simp: forwarder_inv_def tunnels_def enqueue_def)
  show "states (enqueue c (target c) f) c = Waiting" by (simp add: enqueue_def)
  show "d = c" if "states (enqueue c (target c) f) d = Waiting" for d
    using that assms(3) by (auto simp: enqueue_def split: if_splits)
  have "quiet f" using assms(1,3) unfolding forwarder_inv_def waits_alone_def by blast
  then show "in_flight target c (enqueue c (target c) f)"
    by (simp add: in_flight_def enqueue_def quiet_def)
qed

lemma inv_start:
  assumes "forwarder_inv target f" "running f" "listening f = None" "in_q f \<noteq> []"
  shows "forwarder_inv target (start_server port f)"
proof -
  have "\<not> quiet f" using assms(4) by (simp add: quiet_def)
  then obtain c where alone: "waits_alone f c" and flight: "in_flight target c f"
    by (rule forwarder_inv_flight[OF assms(1)])
  note c = waits_aloneD(1)[OF alone] flight waits_aloneD(2)[OF alone]
  from flight assms have q: "in_q f = [(c, target c)]" "out_q f = []" unfolding in_flight_def by auto
  show ?thesis
  proof (rule inv_waiting)
    show "tunnels target (start_server port f)"
      using assms(1) c(1) by (auto simp: forwarder_inv_def tunnels_def start_server_def q)
    show "states (start_server port f) c = Waiting" by (simp add: start_server_def q c)
    show "d = c" if "states (start_server port f) d = Waiting" for d
      using that c(3) by (simp add: start_server_def q)
    show "in_flight target c (start_server port f)" by (simp add: in_flight_def start_server_def q)
  qed
qed

lemma inv_put:
  assumes "forwarder_inv target f" "listening f \<noteq> None" "out_q f = []"
  shows "forwarder_inv target (put_listen_port f)"
proof -
  have "\<not> quiet f" using assms(2) by (simp add: quiet_def)
  then obtain c where alone: "waits_alone f c" and flight: "in_flight target c f"
    by (rule forwarder_inv_flight[OF assms(1)])
  note c = waits_aloneD(1)[OF alone] flight waits_aloneD(2)[OF alone]
  from flight assms(2,3) obtain port where q: "servers f c = Some (target c, port)" "in_q f = []" "listening f = Some port"
    by (auto simp: in_flight_def)
  show ?thesis
  proof (rule inv_waiting)
    show "tunnels target (put_listen_port f)"
      using assms(1) by (auto simp: forwarder_inv_def tunnels_def put_listen_port_def q)
    show "states (put_listen_port f) c = Waiting" by (simp add: put_listen_port_def q c)
    show "d = c" if "states (put_listen_port f) d = Waiting" for d
      using that c(3) by (simp add: put_listen_port_def q)
    show "in_flight target c (put_listen_port f)" by (simp add: in_flight_def put_listen_port_def q assms(3))
  qed
qed

lemma inv_take:
  assumes "forwarder_inv target f" "states f c = Waiting" "out_q f \<noteq> []"
  shows "forwarder_inv target (take_port c f)"
proof -
  from assms(1,2) obtain c' where alone: "waits_alone f c'" "in_flight target c' f"
    unfolding forwarder_inv_def by blast
  then have "c' = c" using waits_aloneD(2)[OF alone(1) assms(2)] by simp
  with alone have only: "\<And>d. states f d = Waiting \<Longrightarrow> d = c" and "in_flight target c f"
    using waits_aloneD by simp_all
  with assms(3) obtain port where q: "servers f c = Some (target c, port)" "in_q f = []" "listening f = None" "out_q f = [port]"
    by (auto simp: in_flight_def)
  show ?thesis
  proof (rule inv_quiet)
    show "tunnels target (take_port c f)"
      using assms(1) by (auto simp: forwarder_inv_def tunnels_def take_port_def q)
    show "states (take_port c f) d \<noteq> Waiting" for d
      using only by (auto simp: take_port_def q)
    show "quiet (take_port c f)" by (simp add: quiet_def take_port_def q)
  qed
qed

lemma inv_fail:
  assumes "forwarder_inv target f" "listening f = None" "in_q f \<noteq> []"
  shows "forwarder_inv target (start_fails f)"
proof -
  have "\<not> quiet f" using assms(3) by (simp add: quiet_def)
  then obtain c where alone: "waits_alone f c" and flight: "in_flight target c f"
    by (rule forwarder_inv_flight[OF assms(1)])
  note c = waits_aloneD(1)[OF alone] flight waits_aloneD(2)[OF alone]
  from flight assms have q: "in_q f = [(c, target c)]" "out_q f = []" unfolding in_flight_def by auto
  show ?thesis
  proof (rule inv_waiting)
    show "tunnels target (start_fails f)" by (simp add: tunnels_def start_fails_def)
    show "states (start_fails f) c = Waiting" by (simp add: start_fails_def shutdown_def c)
    show "d = c" if "states (start_fails f) d = Waiting" for d
      using that c(3) by (simp add: start_fails_def shutdown_def)
    show "in_flight target c (start_fails f)" by (simp add: in_flight_def start_fails_def shutdown_def q assms(2))
  qed
qed

lemma client_disconnects_fields [simp]:
  "in_q (snd (client_disconnects c f)) = in_q f" "out_q (snd (client_disconnects c f)) = out_q f"
  "listening (snd (client_disconnects c f)) = listening f" "running (snd (client_disconnects c f)) = running f"
  "shutdown_triggered (snd (client_disconnects c f)) = shutdown_triggered f"
  "states (snd (client_disconnects c f)) = (states f)(c := Disconnected)"
  "d \<noteq> c \<Longrightarrow> servers (snd (client_disconnects c f)) d = servers f d"
  by (auto simp: client_disconnects_def cleanup_server_def split: option.split)

lemma inv_servers_change:
  assumes inv: "forwarder_inv target f"
    and same: "in_q g = in_q f" "out_q g = out_q f" "listening g = listening f" "running g = running f"
      "shutdown_triggered g = shutdown_triggered f"
    and waiting: "\<And>c. states g c = Waiting \<longleftrightarrow> states f c = Waiting"
    and tunnelled: "\<And>c port. states g c = Tunnelled port \<Longrightarrow> states f c = Tunnelled port"
    and kept: "\<And>c. holds_socket g c \<Longrightarrow> servers g c = servers f c"
  shows "forwarder_inv target g"
proof -
  have kept': "servers g c = servers f c" if "states f c = Waiting" for c
    using kept that waiting by (simp add: holds_socket_def)
  have t: "tunnels target g"
    using inv tunnelled kept unfolding forwarder_inv_def tunnels_def same holds_socket_def by metis
  show ?thesis
  proof (cases "\<exists>c. states f c = Waiting")
    case False
    with inv have "quiet f" unfolding forwarder_inv_def waits_alone_def by blast
    with t False waiting show ?thesis by (intro inv_quiet) (auto simp: quiet_def same)
  next
    case True
    with inv obtain c where c: "waits_alone f c" "in_flight target c f" unfolding forwarder_inv_def by blast
    then have "in_flight target c g" using kept'[OF waits_aloneD(1)] by (simp add: in_flight_def same)
    moreover have "states g c = Waiting" using waits_aloneD(1)[OF c(1)] waiting by simp
    moreover have "d = c" if "states g d = Waiting" for d using that waits_aloneD(2)[OF c(1)] waiting by blast
    ultimately show ?thesis using t by (intro inv_waiting[of target g c])
  qed
qed

lemma cleanup_server_fields [simp]:
  "in_q (snd (cleanup_server c f)) = in_q f" "out_q (snd (cleanup_server c f)) = out_q f"
  "listening (snd (cleanup_server c f)) = listening f" "running (snd (cleanup_server c f)) = running f"
  "shutdown_triggered (snd (cleanup_server c f)) = shutdown_triggered f"
  "states (snd (cleanup_server c f)) = states f"
  "servers (snd (cleanup_server c f)) = (servers f)(c := None)"
  by (auto simp: cleanup_server_def split: option.split)

lemma sweep_next_fields [simp]:
  "in_q (sweep_next b f) = in_q f" "out_q (sweep_next b f) = out_q f" "listening (sweep_next b f) = listening f"
  "running (sweep_next b f) = running f" "shutdown_triggered (sweep_next b f) = shutdown_triggered f"
  "states (sweep_next b f) = states f"
  by (auto simp: sweep_next_def visit_def cleanup_server_def split: list.split option.split)

lemma sweep_next_servers:
  "sweeping f = c # cs \<Longrightarrow> servers (sweep_next b f) = (if b then (servers f)(c := None) else servers f)"
  by (auto simp: sweep_next_def visit_def cleanup_server_def split: option.split)

lemma inv_step:
  assumes "forwarder_step True target f g" "forwarder_inv target f"
  shows "forwarder_inv target g"
  using assms
proof (induction rule: forwarder_step.induct)
  case (step_enqueue f c)
  then show ?case by (intro inv_enqueue) auto
next
  case (step_start f port)
  then show ?case by (intro inv_start) auto
next
  case (step_put f)
  then show ?case by (intro inv_put) auto
next
  case (step_take f c)
  then show ?case by (intro inv_take) auto
next
  case (step_fail f)
  then show ?case by (intro inv_fail) auto
next
  case (step_disconnect f c port)
  then show ?case by (intro inv_servers_change[OF step_disconnect.prems]) (auto simp: holds_socket_def split: if_splits)
next
  case (step_lose f c port)
  then show ?case
    by (intro inv_servers_change[OF step_lose.prems]) (auto simp: proxy_closes_def holds_socket_def split: if_splits)
next
  case (step_sweep f keys)
  then show ?case by (intro inv_servers_change[OF step_sweep.prems]) (simp_all add: begin_sweep_def)
next
  case (step_visit f c cs sock_closed)
  then show ?case
    by (intro inv_servers_change[OF step_visit.prems]) (auto simp: sweep_next_servers holds_socket_def)
qed

lemma inv_runs: "forwarder_runs True target f g \<Longrightarrow> forwarder_inv target f \<Longrightarrow> forwarder_inv target g"
  by (induction rule: forwarder_runs.induct) (auto intro: inv_step)

text \<open>After a failure nothing that a waiting client waits for can happen any more.\<close>

definition dead :: "'c \<Rightarrow> 'c forwarder \<Rightarrow> bool" where
  "dead c f \<longleftrightarrow> \<not> running f \<and> listening f = None \<and> out_q f = [] \<and> states f c = Waiting"

lemma dead_step: "forwarder_step one_thread target f g \<Longrightarrow> dead c f \<Longrightarrow> dead c g"
  by (induction rule: forwarder_step.induct) (auto simp: dead_def forwarder_ops split: option.splits)

lemma dead_runs: "forwarder_runs one_thread target f g \<Longrightarrow> dead c f \<Longrightarrow> dead c g"
  by (induction rule: forwarder_runs.induct) (auto intro: dead_step)

text \<open>A sweep that nothing interrupts removes the servers whose proxies have closed, and no other.\<close>

lemma cleanup_servers_all:
  "distinct keys \<Longrightarrow> set keys \<subseteq> dom (servers f) \<Longrightarrow>
   cleanup_servers sock_closed keys f =
     (Inr (), f\<lparr>servers := (\<lambda>c. if c \<in> set keys \<and> sock_closed c then None else servers f c)\<rparr>)"
proof (induction keys arbitrary: f)
  case (Cons c cs)
  then obtain x where x: "servers f c = Some x" by auto
  let ?g = "if sock_closed c then f\<lparr>servers := (servers f)(c := None)\<rparr> else f"
  have "set cs \<subseteq> dom (servers ?g)" using Cons.prems by auto
  with Cons.IH[of ?g] Cons.prems have "cleanup_servers sock_closed cs ?g =
      (Inr (), ?g\<lparr>servers := (\<lambda>d. if d \<in> set cs \<and> sock_closed d then None else servers ?g d)\<rparr>)" by simp
  moreover have "cleanup_servers sock_closed (c # cs) f = cleanup_servers sock_closed cs ?g"
    using x by (simp add: visit_def cleanup_server_def)
  ultimately show ?case by (auto simp: fun_eq_iff)
qed simp

text \<open>Without the greenlet of the sweep, a lost client's server stays.\<close>

definition left_running :: "'c \<Rightarrow> target \<times> nat \<Rightarrow> 'c forwarder \<Rightarrow> bool" where
  "left_running c x f \<longleftrightarrow> \<not> sweeper f \<and>
     (\<not> running f \<or> states f c = Disconnected \<or>
      states f c = Lost \<and> servers f c = Some x \<and> c \<notin> fst ` set (in_q f))"

lemma left_running_step: "forwarder_step one_thread target f g \<Longrightarrow> left_running c x f \<Longrightarrow> left_running c x g"
  by (induction rule: forwarder_step.induct)
     (auto simp: left_running_def forwarder_ops split: option.splits list.splits)

lemma left_running_runs: "forwarder_runs one_thread target f g \<Longrightarrow> left_running c x f \<Longrightarrow> left_running c x g"
  by (induction rule: forwarder_runs.induct) (auto intro: left_running_step)

section \<open>Opening a channel, step by step\<close>

text \<open>
  The waits between \<open>n\<close> tries, beginning with \<open>w\<close>.
\<close>

fun retry_waits :: "nat \<Rightarrow> nat \<Rightarrow> nat list" where
  "retry_waits w 0 = []"
| "retry_waits w (Suc n) = w # retry_waits (w * 5) n"

text \<open>A state that counts the tries and records the waits.\<close>

definition try_open :: "(nat \<Rightarrow> 'e + 'c) \<Rightarrow> nat \<times> nat list \<Rightarrow> (('e + 'c) \<times> nat \<times> nat list) option" where
  "try_open script s = Some (script (fst s), Suc (fst s), snd s)"

definition record_wait :: "nat \<Rightarrow> nat \<times> nat list \<Rightarrow> nat \<times> nat list" where
  "record_wait w s = (fst s, snd s @ [w])"

lemma open_channel_retries_result:
  assumes "\<And>i. i < n \<Longrightarrow> isl (script (k + i))" "int n < retries - num_tries"
    "(\<exists>c. script (k + n) = Inr c \<and> r = Inr (Some c)) \<or>
     (\<exists>e. script (k + n) = Inl e \<and> r = Inl e \<and> retries = num_tries + int n + 1)"
  shows "open_channel_retries (try_open script) record_wait retries num_tries w (k, ws) =
    Some (r, Suc (k + n), ws @ retry_waits w n)"
  using assms
proof (induction n arbitrary: k num_tries w ws)
  case 0
  then show ?case by (subst open_channel_retries.simps) (auto simp: try_open_def)
next
  case (Suc n)
  obtain e where e: "script k = Inl e" using Suc.prems(1)[of 0] by (auto simp: isl_def)
  have "open_channel_retries (try_open script) record_wait retries (num_tries + 1) (w * 5) (Suc k, ws @ [w]) =
      Some (r, Suc (Suc k + n), (ws @ [w]) @ retry_waits (w * 5) n)"
    by (rule Suc.IH) (use Suc.prems(1)[of "Suc _"] Suc.prems(2,3) in \<open>auto simp: algebra_simps\<close>)
  with e Suc.prems(2) show ?case
    by (subst open_channel_retries.simps) (simp add: try_open_def record_wait_def)
qed

lemma first_non_error:
  fixes script :: "nat \<Rightarrow> 'e + 'c"
  assumes "\<not> isl (script n)"
  obtains m where "m \<le> n" "\<not> isl (script m)" "\<And>i. i < m \<Longrightarrow> isl (script i)"
  using assms exists_least_iff[of "\<lambda>i. \<not> isl (script i)"] by (metis leI le_refl)

text \<open>A loop in which nothing is left to do but to wait does not come back.\<close>

lemma pump_idle:
  assumes "\<And>i. k \<le> i \<Longrightarrow> turns i = Idle"
  shows "pump send turns k s = None"
proof (rule ccontr)
  assume "pump send turns k s \<noteq> None"
  then obtain res where "pump send turns k s = Some res" by auto
  then have "\<exists>i \<ge> k. turns i \<noteq> Idle"
  proof (rule pump.raw_induct[where P = "\<lambda>f turns k s res. \<exists>i \<ge> k. turns i \<noteq> Idle", rotated])
    fix loop :: "(bytes \<Rightarrow> 's \<Rightarrow> (('e + unit) \<times> 's) option) \<Rightarrow> (nat \<Rightarrow> 'e turn) \<Rightarrow> nat \<Rightarrow> 's \<Rightarrow> (('e + unit) \<times> 's) option"
      and f turns k s res
    assume ih: "\<And>f turns k s res. loop f turns k s = Some res \<Longrightarrow> \<exists>i \<ge> k. turns i \<noteq> Idle"
      and eq: "(case turns k of
          Leave \<Rightarrow> Some (Inr (), s)
        | RaiseIn ex \<Rightarrow> Some (Inl ex, s)
        | Idle \<Rightarrow> loop f turns (Suc k) s
        | Forward data \<Rightarrow>
            (case f data s of
               None \<Rightarrow> None
             | Some (Inl ex, s1) \<Rightarrow> Some (Inl ex, s1)
             | Some (Inr _, s1) \<Rightarrow> loop f turns (Suc k) s1)) = Some res"
    show "\<exists>i \<ge> k. turns i \<noteq> Idle"
    proof (cases "turns k = Idle")
      case True
      with eq ih[of f turns "Suc k" s res] show ?thesis by (auto dest: Suc_leD)
    qed auto
  qed
  with assms show False by blast
qed

section \<open>The clients of a proxy\<close>

text \<open>
  What \<open>SSHClient.__init__\<close> hands to the proxy client and to the forwarder, and where the connection
  itself goes.
\<close>

definition or_else :: "'a option \<Rightarrow> 'a option \<Rightarrow> 'a option" where
  "or_else a b = (case a of None \<Rightarrow> b | Some x \<Rightarrow> Some x)"

record 'k login =
  login_port :: "int option"
  login_pkey :: "'k option"
  login_user :: "string option"
  login_password :: "string option"

definition proxy_login :: "'k login \<Rightarrow> 'k login \<Rightarrow> 'k login" where
  "proxy_login L P = \<lparr>login_port = or_else (login_port P) (login_port L), login_pkey = or_else (login_pkey P) (login_pkey L),
     login_user = or_else (login_user P) (login_user L), login_password = or_else (login_password P) (login_password L)\<rparr>"

definition tunnel_target :: "string \<Rightarrow> 'k login \<Rightarrow> target" where
  "tunnel_target host L = (host, case login_port L of None \<Rightarrow> 22 | Some p \<Rightarrow> p)"

text \<open>\<open>_host\<close> and \<open>_port\<close> of the base constructor; the port of the forwarder takes the place of \<open>proxy_port\<close>.\<close>

definition falsy_port :: "int option \<Rightarrow> bool" where
  "falsy_port p \<longleftrightarrow> p = None \<or> p = Some 0"

definition own_port :: "int option \<Rightarrow> int" where
  "own_port p = (if falsy_port p then 22 else the p)"

definition connection_endpoint :: "string \<Rightarrow> int option \<Rightarrow> string option \<Rightarrow> int option \<Rightarrow> target" where
  "connection_endpoint host port proxy_host proxy_port =
     (case proxy_host of None \<Rightarrow> host | Some h \<Rightarrow> if h = '''' then host else h,
      if falsy_port proxy_port then own_port port else the proxy_port)"

definition native_endpoint :: "string \<Rightarrow> 'k login \<Rightarrow> string option \<Rightarrow> int option \<Rightarrow> nat \<Rightarrow> target" where
  "native_endpoint host L proxy_host proxy_port forwarder_port =
     (case proxy_host of
        None \<Rightarrow> connection_endpoint host (login_port L) None proxy_port
      | Some _ \<Rightarrow> connection_endpoint host (login_port L) (Some ''127.0.0.1'') (Some (int forwarder_port)))"

section \<open>Properties\<close>


definition to_channel :: "nat \<Rightarrow> unit + bytes" where
  "to_channel k = (if k = 0 then Inr ''ab'' else if k = 1 then Inr [] else Inr ''cd'')"

definition small_writes :: "nat \<Rightarrow> unit + int \<times> nat" where
  "small_writes k = (if k = 0 then Inr (-37, 0) else Inr (0, 1))"


text \<open>
  A channel is opened at the first try that the server answers; at most as many tries are made
  as there are retries, each waiting five times as long as the one before, and the exception of the
  last of them is the one that is raised.
\<close>
theorem channel_open_tries:
  assumes "0 < retries"
  shows "\<exists>n < nat retries. (\<forall>i < n. isl (script i)) \<and>
    open_channel_retries (try_open script) record_wait retries 0 w (0, []) =
      Some (case script n of Inl e \<Rightarrow> Inl e | Inr c \<Rightarrow> Inr (Some c), Suc n, retry_waits w n) \<and>
    (isl (script n) \<longrightarrow> int n + 1 = retries)"
proof (cases "\<exists>m < nat retries. \<not> isl (script m)")
  case True
  then obtain m where "m < nat retries" "\<not> isl (script m)" by blast
  then obtain n where n: "n < nat retries" "\<not> isl (script n)" "\<And>i. i < n \<Longrightarrow> isl (script i)"
    using first_non_error[of script m] by (metis order.strict_trans1)
  then obtain c where "script n = Inr c" by (cases "script n") auto
  with n open_channel_retries_result[of n script 0 retries 0 "Inr (Some c)" w "[]"] show ?thesis
    by (intro exI[of _ n]) (auto simp: zless_nat_eq_int_zless)
next
  case False
  let ?n = "nat retries - 1"
  have n: "?n < nat retries" "int ?n + 1 = retries" using assms by auto
  with False have "isl (script ?n)" by blast
  then obtain e where "script ?n = Inl e" by (cases "script ?n") auto
  with n False open_channel_retries_result[of ?n script 0 retries 0 "Inl e" w "[]"] show ?thesis
    by (intro exI[of _ ?n]) auto
qed

theorem channel_open_tries_witness:
  "\<exists>n < nat 3. (\<forall>i < n. isl (if i < 2 then Inl ''x'' else Inr i :: string + nat)) \<and>
    (isl (if n < 2 then Inl ''x'' else Inr n :: string + nat) \<longrightarrow> int n + 1 = 3)"
  using channel_open_tries[of 3 "\<lambda>i. if i < 2 then Inl ''x'' else Inr i :: string + nat" 100] by auto

text \<open>
  C20: With all clients in one thread, every client that has got a port from a running forwarder has
  got the port of the server that was started for it and that tunnels to its own target.
\<close>
theorem clients_get_their_own_tunnel:
  assumes "forwarder_runs True target new_forwarder f" "running f" "states f c = Tunnelled port"
  shows "servers f c = Some (target c, port)"
  using inv_runs[OF assms(1) forwarder_inv_new] assms(2,3) by (simp add: forwarder_inv_def tunnels_def)

definition hosts :: "nat \<Rightarrow> target" where
  "hosts c = (if c = 0 then (''a'', 22) else (''b'', 2222))"

definition served :: "nat forwarder" where
  "served = take_port 0 (put_listen_port (start_server 5000 (enqueue 0 (hosts 0) new_forwarder)))"

lemma served_runs: "forwarder_runs True hosts new_forwarder served"
proof -
  let ?f1 = "enqueue 0 (hosts 0) new_forwarder" and ?f2 = "start_server 5000 (enqueue 0 (hosts 0) new_forwarder)"
  have "forwarder_step True hosts new_forwarder ?f1"
    by (rule step_enqueue) (simp_all add: new_forwarder_def)
  moreover have "forwarder_step True hosts ?f1 ?f2"
    by (rule step_start) (simp_all add: new_forwarder_def enqueue_def)
  moreover have "forwarder_step True hosts ?f2 (put_listen_port ?f2)"
    by (rule step_put) (simp_all add: new_forwarder_def enqueue_def start_server_def)
  moreover have "forwarder_step True hosts (put_listen_port ?f2) served"
    unfolding served_def
    by (rule step_take) (simp_all add: new_forwarder_def enqueue_def start_server_def put_listen_port_def)
  ultimately show ?thesis by (meson runs_refl runs_step)
qed

theorem clients_get_their_own_tunnel_witness: "servers served 0 = Some ((''a'', 22), 5000)"
proof -
  have "running served" "states served 0 = Tunnelled 5000"
    by (simp_all add: served_def new_forwarder_def enqueue_def start_server_def put_listen_port_def take_port_def)
  from clients_get_their_own_tunnel[OF served_runs this] show ?thesis by (simp add: hosts_def)
qed

lemma served_simps:
  "servers served = [0 \<mapsto> ((''a'', 22), 5000)]" "running served" "sweeper served" "sweeping served = []"
  "states served = (\<lambda>c. Fresh)(0 := Waiting, 0 := Tunnelled 5000)"
  by (simp_all add: served_def new_forwarder_def enqueue_def start_server_def put_listen_port_def take_port_def hosts_def)

lemma dom_served: "dom (servers served) = {0}"
  by (simp add: served_simps)

text \<open>
  C39: Clients of different threads can get each other's ports: the port is taken from one queue that
  does not say whose it is, so a client can end up connected to the target of another.
\<close>
theorem threads_can_get_each_others_tunnel:
  "\<exists>f. forwarder_runs False hosts new_forwarder f \<and> running f \<and> states f 1 = Tunnelled 5000 \<and>
     servers f 0 = Some (hosts 0, 5000) \<and> servers f 1 = None"
proof -
  let ?f1 = "enqueue 0 (hosts 0) new_forwarder"
  let ?f2 = "start_server 5000 ?f1"
  let ?f3 = "enqueue 1 (hosts 1) ?f2"
  let ?f4 = "put_listen_port ?f3"
  let ?f5 = "take_port 1 ?f4"
  note simps = new_forwarder_def enqueue_def start_server_def put_listen_port_def take_port_def hosts_def
  have "forwarder_step False hosts new_forwarder ?f1" by (rule step_enqueue) (simp_all add: simps)
  moreover have "forwarder_step False hosts ?f1 ?f2" by (rule step_start) (simp_all add: simps)
  moreover have "forwarder_step False hosts ?f2 ?f3" by (rule step_enqueue) (simp_all add: simps)
  moreover have "forwarder_step False hosts ?f3 ?f4" by (rule step_put) (simp_all add: simps)
  moreover have "forwarder_step False hosts ?f4 ?f5" by (rule step_take) (simp_all add: simps)
  ultimately have "forwarder_runs False hosts new_forwarder ?f5" by (meson runs_refl runs_step)
  then show ?thesis by (intro exI[of _ ?f5]) (simp add: simps)
qed



text \<open>
  A local client that closes its connection is not noticed: reads of the socket that give no data
  are taken for a pause, and the loop, and with it the channel, stays until the far end closes.
\<close>
theorem closed_local_end_is_not_noticed:
  assumes "\<And>k. recv k = Inr []" "\<And>k. \<not> channel_done k" "\<And>k. \<not> sock_closed k"
  shows "read_forward_sock send channel_done sock_closed recv s = None"
  unfolding read_forward_sock_def by (rule pump_idle) (simp add: forward_turn_def assms)

theorem closed_local_end_is_not_noticed_witness:
  "read_forward_sock (sendall (\<lambda>k. None :: (unit \<times> nat) option)) (\<lambda>k. False) (\<lambda>k. False) (\<lambda>k. Inr []) fresh_peer = None"
  by (rule closed_local_end_is_not_noticed) simp_all

text \<open>
  A client whose server the sweep has already removed, because the connection of its proxy is
  closed, raises when it disconnects; otherwise disconnecting removes its server and no other.
\<close>
theorem disconnect_after_sweep:
  assumes "distinct keys" "set keys = dom (servers f)"
  shows "fst (cleanup_servers sock_closed keys f) = Inr () \<and>
   fst (client_disconnects c (snd (cleanup_servers sock_closed keys f))) =
     (if sock_closed c \<or> servers f c = None then Inl KeyError else Inr ()) \<and>
   servers (snd (client_disconnects c (snd (cleanup_servers sock_closed keys f)))) =
     (\<lambda>d. if d = c \<or> sock_closed d then None else servers f d)"
proof -
  have "(if d \<in> set keys \<and> sock_closed d then None else servers f d) = (if sock_closed d then None else servers f d)" for d
    by (cases "servers f d") (auto simp: assms(2))
  then have "cleanup_servers sock_closed keys f = (Inr (), f\<lparr>servers := (\<lambda>d. if sock_closed d then None else servers f d)\<rparr>)"
    using cleanup_servers_all[OF assms(1), of f sock_closed] assms(2) by simp
  then show ?thesis
    by (simp add: client_disconnects_def cleanup_server_def fun_eq_iff split: option.split)
qed

theorem disconnect_after_sweep_witness:
  "fst (client_disconnects 0 (snd (cleanup_servers (\<lambda>c. True) [0] served))) = Inl KeyError"
  using disconnect_after_sweep[of "[0]" served "\<lambda>c. True" 0] by (simp add: dom_served)

text \<open>The sweep lists client 0, whose proxy then closes and which disconnects before it is visited.\<close>

definition swept_late :: "nat forwarder" where
  "swept_late = sweep_next True (snd (client_disconnects 0 (proxy_closes 0 (begin_sweep [0] served))))"

lemma swept_late_runs: "forwarder_runs True hosts new_forwarder swept_late"
proof -
  let ?f1 = "begin_sweep [0] served"
  let ?f2 = "proxy_closes 0 ?f1"
  let ?f3 = "snd (client_disconnects 0 ?f2)"
  note simps = served_simps begin_sweep_def proxy_closes_def
  have "forwarder_step True hosts served ?f1"
    by (rule step_sweep) (simp_all add: served_simps dom_served)
  moreover have "forwarder_step True hosts ?f1 ?f2" by (rule step_lose[of _ _ 5000]) (simp add: simps)
  moreover have "forwarder_step True hosts ?f2 ?f3" by (rule step_disconnect[of _ _ 5000]) (simp add: simps)
  moreover have "forwarder_step True hosts ?f3 swept_late"
    unfolding swept_late_def
    by (rule step_visit[of _ 0 "[]"])
       (simp_all add: simps client_disconnects_def cleanup_server_def holds_socket_def)
  ultimately show ?thesis by (meson served_runs runs_step)
qed

text \<open>
  A sweep that lists a client, and visits it only after that client has disconnected, finds no server
  for it: the greenlet of the sweep ends with a \<open>KeyError\<close>, and from then on the server of a client
  whose proxy has closed is left running until that client disconnects or the thread ends.
\<close>
theorem stale_key_ends_the_sweeps:
  "(\<exists>f. forwarder_runs True hosts new_forwarder f \<and> running f \<and> \<not> sweeper f) \<and>
   (\<forall>one_thread target f g c x. \<not> sweeper f \<longrightarrow> states f c = Lost \<longrightarrow> servers f c = Some x \<longrightarrow>
      c \<notin> fst ` set (in_q f) \<longrightarrow> forwarder_runs one_thread target f g \<longrightarrow>
      \<not> sweeper g \<and> (\<not> running g \<or> states g c = Disconnected \<or> servers g c = Some x))"
proof (intro conjI allI impI)
  show "\<exists>f. forwarder_runs True hosts new_forwarder f \<and> running f \<and> \<not> sweeper f"
    by (intro exI conjI, rule swept_late_runs) (simp_all add: swept_late_def served_simps cleanup_server_def
      begin_sweep_def proxy_closes_def sweep_next_def visit_def client_disconnects_def)
next
  fix one_thread and target :: "'a \<Rightarrow> target" and f g c x
  assume "\<not> sweeper f" "states f c = Lost" "servers f c = Some x" "c \<notin> fst ` set (in_q f)"
    "forwarder_runs one_thread target f g"
  then have "left_running c x g" using left_running_runs[of one_thread target f g c x] by (simp add: left_running_def)
  then show "\<not> sweeper g" "\<not> running g \<or> states g c = Disconnected \<or> servers g c = Some x"
    by (auto simp: left_running_def)
qed

text \<open>
  A client with a proxy connects to the local end of the tunnel, whatever its own host and port,
  and the tunnel leads to that host and port; the proxy is logged in to with what is given for it,
  and with the client's own where nothing is.
\<close>
theorem proxied_clients_connect_to_the_tunnel:
  assumes "0 < fport"
  shows "native_endpoint host L (Some proxy) pport fport = (''127.0.0.1'', int fport) \<and>
    tunnel_target host L = (host, case login_port L of None \<Rightarrow> 22 | Some p \<Rightarrow> p) \<and>
    native_endpoint host L None None fport = (host, own_port (login_port L)) \<and>
    login_user (proxy_login L \<lparr>login_port = None, login_pkey = None, login_user = None, login_password = None\<rparr>) = login_user L"
  using assms
  by (simp add: native_endpoint_def connection_endpoint_def falsy_port_def tunnel_target_def proxy_login_def or_else_def)

theorem proxied_clients_connect_to_the_tunnel_witness:
  "native_endpoint ''db'' \<lparr>login_port = Some 2222, login_pkey = None :: unit option, login_user = Some ''u'', login_password = None\<rparr>
     (Some ''gw'') (Some 22) 40000 = (''127.0.0.1'', 40000)"
  using proxied_clients_connect_to_the_tunnel[of 40000 "''db''"
    "\<lparr>login_port = Some 2222, login_pkey = None :: unit option, login_user = Some ''u'', login_password = None\<rparr>" "''gw''" "Some 22"]
  by simp

end
