(* ===== verification/Tunnel_Handler.thy ===== *)
theory Tunnel_Handler
  imports Tunnel
begin

text \<open>
  One connection through a tunnel: \<open>_read_rw\<close> and \<open>_wait_send_receive_lets\<close> of \<open>TunnelServer\<close> in
  \<open>pssh/clients/native/tunnel.py\<close>, on the loops of \<open>Tunnel\<close>.

  The \<open>StreamServer\<close> of gevent calls the handler with the socket of the connection.  The two loops run
  in greenlets of their own; a loop that does not end is \<open>None\<close>.
\<close>

section \<open>The handler\<close>

text \<open>
  \<open>joinall(..., raise_error=True)\<close> of two greenlets: it waits for both, and raises as soon as one of
  them has raised.  \<open>source_first\<close> says which of two that both end does so first.
\<close>

definition join_both :: "('e + unit) option \<Rightarrow> ('e + unit) option \<Rightarrow> bool \<Rightarrow> ('e + unit) option" where
  "join_both source dest source_first =
     (case (source, dest) of
        (Some r, Some q) \<Rightarrow>
          (if source_first then (if isl r then Some r else Some q) else (if isl q then Some q else Some r))
      | (Some r, None) \<Rightarrow> (if isl r then Some r else None)
      | (None, Some q) \<Rightarrow> (if isl q then Some q else None)
      | (None, None) \<Rightarrow> None)"

record 'e handled =
  outcome :: "'e + unit"
  server_exception :: "'e option"
  channel_closings :: nat

text \<open>The channel is closed in a \<open>finally\<close>, whose own exception replaces the one that is raised.\<close>

definition wait_send_receive_lets ::
  "('e + unit) option \<Rightarrow> ('e + unit) option \<Rightarrow> bool \<Rightarrow> 'e + unit \<Rightarrow> 'e handled option" where
  "wait_send_receive_lets source dest source_first close_channel =
     (case join_both source dest source_first of
        None \<Rightarrow> None
      | Some r \<Rightarrow> Some \<lparr>outcome = (if isl close_channel then close_channel else r), server_exception = None,
                          channel_closings = 1\<rparr>)"

definition read_rw ::
  "(('e + 'c option) \<times> 's) option \<Rightarrow> ('c option \<Rightarrow> ('e + unit) option) \<Rightarrow> ('c option \<Rightarrow> ('e + unit) option) \<Rightarrow> bool
     \<Rightarrow> ('c option \<Rightarrow> 'e + unit) \<Rightarrow> 'e handled option" where
  "read_rw opening forward backward source_first close_channel =
     (case opening of
        None \<Rightarrow> None
      | Some (Inl ex, _) \<Rightarrow> Some \<lparr>outcome = Inr (), server_exception = Some ex, channel_closings = 0\<rparr>
      | Some (Inr channel, _) \<Rightarrow>
          wait_send_receive_lets (forward channel) (backward channel) source_first (close_channel channel))"

lemma map_fst_Some: "map_option fst x = Some r \<Longrightarrow> \<exists>s. x = Some (r, s)"
  by (cases x) auto

lemma not_isl_unit: "\<not> isl (r :: 'e + unit) \<Longrightarrow> r = Inr ()"
  by (cases r) auto

lemma join_both_Inr: "join_both source dest first = Some (Inr ()) \<Longrightarrow> source = Some (Inr ()) \<and> dest = Some (Inr ())"
  by (auto simp: join_both_def dest: not_isl_unit split: option.splits if_splits)

lemma join_both_Inl: "join_both source dest first = Some (Inl e) \<Longrightarrow> source = Some (Inl e) \<or> dest = Some (Inl e)"
  by (auto simp: join_both_def split: option.splits if_splits)

section \<open>A connection\<close>

text \<open>What the peers of a connection say; without a channel both loops are left at once.\<close>

record ('e, 'c) connection =
  opened :: "('e + 'c option) option"
  channel_at_end :: "nat \<Rightarrow> bool"
  local_closed :: "nat \<Rightarrow> bool"
  local_reads :: "nat \<Rightarrow> 'e + bytes"
  channel_reads :: "nat \<Rightarrow> 'e + int \<times> bytes"
  polled :: "nat \<Rightarrow> 'e option"
  channel_writes :: "nat \<Rightarrow> 'e + int \<times> nat"
  local_writes :: "nat \<Rightarrow> ('e \<times> nat) option"
  closing :: "'c option \<Rightarrow> 'e + unit"

definition to_remote :: "int \<Rightarrow> ('e, 'c) connection \<Rightarrow> 'c option \<Rightarrow> (('e + unit) \<times> peer) option" where
  "to_remote eagain K channel =
     read_forward_sock (send_to_channel (channel_writes K) eagain) (\<lambda>k. channel = None \<or> channel_at_end K k)
       (local_closed K) (local_reads K) fresh_peer"

definition to_local :: "int \<Rightarrow> ('e, 'c) connection \<Rightarrow> 'c option \<Rightarrow> (('e + unit) \<times> peer) option" where
  "to_local eagain K channel =
     read_channel (sendall (local_writes K)) eagain (\<lambda>k. channel = None \<or> channel_at_end K k) (channel_reads K)
       (polled K) fresh_peer"

definition handle_connection :: "int \<Rightarrow> ('e, 'c) connection \<Rightarrow> bool \<Rightarrow> 'e handled option" where
  "handle_connection eagain K source_first =
     read_rw (map_option (\<lambda>r. (r, ())) (opened K)) (\<lambda>ch. map_option fst (to_remote eagain K ch))
       (\<lambda>ch. map_option fst (to_local eagain K ch)) source_first (closing K)"

abbreviation remote_turns :: "('e, 'c) connection \<Rightarrow> nat \<Rightarrow> 'e turn" where
  "remote_turns K \<equiv> \<lambda>k. forward_turn (channel_at_end K k) (local_closed K k) (local_reads K k)"

abbreviation local_turns :: "int \<Rightarrow> ('e, 'c) connection \<Rightarrow> nat \<Rightarrow> 'e turn" where
  "local_turns eagain K \<equiv> \<lambda>k. channel_turn eagain (channel_at_end K k) (channel_reads K k) (polled K k)"

lemma to_remote_pumped:
  "to_remote eagain K (Some c) = Some res \<Longrightarrow> pumped taken (remote_turns K) 0 fresh_peer res"
  by (simp add: to_remote_def read_forward_sock_def) (erule channel_sender.pump_result)

lemma to_local_pumped:
  "to_local eagain K (Some c) = Some res \<Longrightarrow> pumped taken (local_turns eagain K) 0 fresh_peer res"
  by (simp add: to_local_def read_channel_def) (erule socket_sender.pump_result)

section \<open>Properties\<close>


definition short_connection :: "(unit, nat) connection" where
  "short_connection =
     \<lparr>opened = Some (Inr (Some 0)), channel_at_end = (\<lambda>k. 2 \<le> k), local_closed = (\<lambda>k. False),
      local_reads = (\<lambda>k. Inr (if k = 0 then ''hi'' else [])), channel_reads = (\<lambda>k. Inr (if k = 0 then (-37, []) else (2, ''ok''))),
      polled = (\<lambda>k. None), channel_writes = (\<lambda>k. Inr (0, 2)), local_writes = (\<lambda>k. None), closing = (\<lambda>c. Inr ())\<rparr>"

lemma short_connection_loops:
  "to_remote (-37) short_connection (Some 0) = Some (Inr (), \<lparr>calls = 1, polls = 0, sleeps = 1, taken = ''hi''\<rparr>)"
  "to_local (-37) short_connection (Some 0) = Some (Inr (), \<lparr>calls = 1, polls = 0, sleeps = 0, taken = ''ok''\<rparr>)"
  by (simp_all add: to_remote_def to_local_def short_connection_def read_forward_sock_def read_channel_def pump.simps
      forward_turn_def channel_turn_def send_to_channel_def sendall_def eagain_write_errcode_def eagain_write_loop.simps
      ask_write_def fresh_peer_def count_poll_def count_sleep_def)


text \<open>
  A loop that raises ends the handler even when the other one does not end; otherwise the handler
  waits for both.
\<close>
theorem handler_ends:
  assumes "opened K = Some (Inr (Some c))"
  shows "handle_connection eagain K source_first = None \<longleftrightarrow>
    \<not> (\<exists>e s. to_remote eagain K (Some c) = Some (Inl e, s) \<or> to_local eagain K (Some c) = Some (Inl e, s)) \<and>
    (to_remote eagain K (Some c) = None \<or> to_local eagain K (Some c) = None)"
  using assms
  by (cases "to_remote eagain K (Some c)"; cases "to_local eagain K (Some c)")
    (auto simp: handle_connection_def read_rw_def wait_send_receive_lets_def join_both_def isl_def split: option.splits if_splits)

theorem handler_ends_witness: "handle_connection (-37) short_connection False \<noteq> None"
  using handler_ends[of short_connection 0 "-37" False] short_connection_loops by (simp add: short_connection_def)

end
