(* ===== verification/Host_Tasks.thy ===== *)
theory Host_Tasks
  imports Parallel_Client
begin

text \<open>
  The greenlets of a parallel client while they run: \<open>_run_command\<close>, \<open>connect_auth\<close>, \<open>_copy_file\<close>,
  \<open>_copy_remote_file\<close>, \<open>_scp_send\<close> and \<open>_scp_recv\<close> get the client of their host and use it.

  \<open>Parallel_Client\<close> has \<open>_get_ssh_client\<close> as one call.  Making a client waits for the network, though,
  and the other greenlets run meanwhile: here the call is cut at that point, and \<open>task_step\<close>
  interleaves the greenlets of a pool.  What the network and the hosts answer is arbitrary.
\<close>

section \<open>Greenlets, each as one call\<close>

definition on_client ::
  "pkey_files \<Rightarrow> (host_config \<Rightarrow> host_config \<Rightarrow> pyval \<Rightarrow> host_config) \<Rightarrow> (string \<Rightarrow> host_config \<Rightarrow> par_error + 'c)
     \<Rightarrow> ('c \<Rightarrow> par_error + 'r) \<Rightarrow> nat \<Rightarrow> string \<Rightarrow> 'c pclient \<Rightarrow> (par_error + 'r) \<times> 'c pclient" where
  "on_client F client_args construct operation host_i host c =
     (case get_ssh_client F client_args construct host_i host c of
        (Inl e, c1) \<Rightarrow> (Inl e, c1)
      | (Inr client, c1) \<Rightarrow> (operation client, c1))"

definition run_command_on where
  "run_command_on F client_args construct run_command_of task c =
     (case task of (host_i, host, command) \<Rightarrow>
        on_client F client_args construct (\<lambda>client. run_command_of client command) host_i host c)"

definition copy_file_on where
  "copy_file_on F client_args construct copy_file_of task c =
     (case task of (host_i, host, local_file, remote_file, recurse) \<Rightarrow>
        on_client F client_args construct (\<lambda>client. copy_file_of client local_file remote_file recurse) host_i host c)"

definition copy_remote_file_on where
  "copy_remote_file_on F client_args construct copy_remote_file_of encoding task c =
     (case task of (host_i, host, remote_file, local_file, recurse) \<Rightarrow>
        on_client F client_args construct
          (\<lambda>client. copy_remote_file_of client remote_file local_file recurse encoding) host_i host c)"

definition scp_send_on where
  "scp_send_on F client_args construct scp_send_of task c =
     (case task of (host_i, host, local_file, remote_file, recurse) \<Rightarrow>
        on_client F client_args construct (\<lambda>client. scp_send_of client local_file remote_file recurse) host_i host c)"

definition scp_recv_on where
  "scp_recv_on F client_args construct scp_recv_of task c =
     (case task of (host_i, host, remote_file, local_file, recurse) \<Rightarrow>
        on_client F client_args construct (\<lambda>client. scp_recv_of client remote_file local_file recurse) host_i host c)"

text \<open>\<open>connect_auth\<close> spawns one greenlet per host and returns them.\<close>

definition connect_auth_tasks :: "string list \<Rightarrow> unit task list" where
  "connect_auth_tasks hs = map (\<lambda>(host_i, host). (host_i, host, ())) (py_enumerate hs)"

section \<open>Greenlets, step by step\<close>

text \<open>\<open>_get_ssh_client\<close> up to the constructor, and what it does with the new client.\<close>

datatype 'c client_request = CachedClient 'c | NoClient par_error | MakeClient host_config

definition request_client ::
  "pkey_files \<Rightarrow> (host_config \<Rightarrow> host_config \<Rightarrow> pyval \<Rightarrow> host_config) \<Rightarrow> nat \<Rightarrow> string \<Rightarrow> 'c pclient \<Rightarrow> 'c client_request" where
  "request_client F client_args host_i host c =
     (case host_clients c (host_i, host) of
        Some client \<Rightarrow> CachedClient client
      | None \<Rightarrow>
         (case get_host_config c host_i of
            Inl e \<Rightarrow> NoClient e
          | Inr cfg \<Rightarrow>
             (case load_pkey_data F
                (if hc_private_key cfg = PNone then hc_private_key (pself c) else hc_private_key cfg) of
                Inl e \<Rightarrow> NoClient e
              | Inr pkey_data \<Rightarrow> MakeClient (client_args (pself c) cfg pkey_data))))"

definition keep_client :: "nat \<times> string \<Rightarrow> 'c \<Rightarrow> 'c pclient \<Rightarrow> 'c pclient" where
  "keep_client k client c = c\<lparr>host_clients := (host_clients c)(k \<mapsto> client)\<rparr>"

lemma get_ssh_client_parts:
  "get_ssh_client F client_args construct i host c =
     (case request_client F client_args i host c of
        CachedClient client \<Rightarrow> (Inr client, c)
      | NoClient e \<Rightarrow> (Inl e, c)
      | MakeClient args \<Rightarrow>
          (case construct host args of Inl e \<Rightarrow> (Inl e, c) | Inr client \<Rightarrow> (Inr client, keep_client (i, host) client c)))"
  by (simp add: get_ssh_client_def request_client_def keep_client_def split: option.split sum.split)

text \<open>
  A greenlet is waiting for its place in the pool, is making its client, is using it, or has ended.
\<close>

datatype ('c, 'r) phase =
    Waiting
  | Making host_config
  | Using 'c
  | Ended "par_error + 'r"

record ('c, 'r) pool_run =
  shared :: "'c pclient"
  phases :: "('c, 'r) phase list"
  next_task :: nat
  clients_made :: "((nat \<times> string) \<times> 'c) list"

fun busy :: "('c, 'r) phase \<Rightarrow> bool" where
  "busy (Making _) = True" | "busy (Using _) = True" | "busy _ = False"

definition start_run :: "'c pclient \<Rightarrow> (nat \<times> string) list \<Rightarrow> ('c, 'r) pool_run" where
  "start_run c keys = \<lparr>shared = c, phases = map (\<lambda>_. Waiting) keys, next_task = 0, clients_made = []\<rparr>"

definition set_phase :: "nat \<Rightarrow> ('c, 'r) phase \<Rightarrow> ('c, 'r) pool_run \<Rightarrow> ('c, 'r) pool_run" where
  "set_phase i p s = s\<lparr>phases := (phases s)[i := p]\<rparr>"

definition begin_task ::
  "pkey_files \<Rightarrow> (host_config \<Rightarrow> host_config \<Rightarrow> pyval \<Rightarrow> host_config) \<Rightarrow> nat \<times> string \<Rightarrow> 'c pclient \<Rightarrow> ('c, 'r) phase" where
  "begin_task F client_args k c =
     (case request_client F client_args (fst k) (snd k) c of
        CachedClient client \<Rightarrow> Using client
      | NoClient e \<Rightarrow> Ended (Inl e)
      | MakeClient args \<Rightarrow> Making args)"

text \<open>
  The greenlets begin in the order in which they were spawned, as many at a time as the pool has
  places.
\<close>

inductive task_step ::
  "pkey_files \<Rightarrow> (host_config \<Rightarrow> host_config \<Rightarrow> pyval \<Rightarrow> host_config) \<Rightarrow> nat \<Rightarrow> (nat \<times> string) list
     \<Rightarrow> ('c, 'r) pool_run \<Rightarrow> ('c, 'r) pool_run \<Rightarrow> bool"
  for F client_args pool_size keys where
  begins: "\<lbrakk>next_task s < length keys; length (filter busy (phases s)) < pool_size\<rbrakk>
    \<Longrightarrow> task_step F client_args pool_size keys s
          (set_phase (next_task s) (begin_task F client_args (keys ! next_task s) (shared s))
            (s\<lparr>next_task := Suc (next_task s)\<rparr>))"
| constructed: "\<lbrakk>i < length keys; phases s ! i = Making args\<rbrakk>
    \<Longrightarrow> task_step F client_args pool_size keys s
          (set_phase i (Using client)
            (s\<lparr>shared := keep_client (keys ! i) client (shared s), clients_made := clients_made s @ [(keys ! i, client)]\<rparr>))"
| raised: "\<lbrakk>i < length keys; phases s ! i = Making args\<rbrakk>
    \<Longrightarrow> task_step F client_args pool_size keys s (set_phase i (Ended (Inl e)) s)"
| ends: "\<lbrakk>i < length keys; phases s ! i = Using client\<rbrakk>
    \<Longrightarrow> task_step F client_args pool_size keys s (set_phase i (Ended r) s)"

inductive task_run for F client_args pool_size keys s where
  run_refl: "task_run F client_args pool_size keys s s"
| run_step: "\<lbrakk>task_run F client_args pool_size keys s t; task_step F client_args pool_size keys t u\<rbrakk>
    \<Longrightarrow> task_run F client_args pool_size keys s u"

inductive_cases task_stepE: "task_step F client_args pool_size keys s t"

section \<open>Places in the pool\<close>

lemma filter_update:
  "i < length xs \<Longrightarrow> \<not> P (xs ! i) \<Longrightarrow> length (filter P (xs[i := y])) = length (filter P xs) + (if P y then 1 else 0)"
  by (induction xs arbitrary: i) (auto split: nat.splits simp: nth_Cons)

lemma filter_update_le:
  "i < length xs \<Longrightarrow> P (xs ! i) \<Longrightarrow> length (filter P (xs[i := y])) \<le> length (filter P xs)"
proof (induction xs arbitrary: i)
  case (Cons x xs)
  then show ?case by (cases i) (auto intro: le_SucI)
qed simp

definition pool_inv :: "nat \<Rightarrow> (nat \<times> string) list \<Rightarrow> ('c, 'r) pool_run \<Rightarrow> bool" where
  "pool_inv pool_size keys s \<longleftrightarrow> length (phases s) = length keys \<and> next_task s \<le> length keys \<and>
     (\<forall>i < length keys. phases s ! i = Waiting \<longleftrightarrow> next_task s \<le> i) \<and>
     length (filter busy (phases s)) \<le> pool_size"

lemma begin_task_not_Waiting [simp]: "begin_task F client_args k c \<noteq> Waiting"
  by (simp add: begin_task_def split: client_request.split)

lemma pool_inv_start: "pool_inv pool_size keys (start_run c keys)"
  by (simp add: pool_inv_def start_run_def filter_empty_conv)

lemma pool_inv_step:
  assumes "task_step F client_args pool_size keys s t" "pool_inv pool_size keys s"
  shows "pool_inv pool_size keys t"
  using assms
proof (induction rule: task_step.induct)
  case (begins s)
  then have w: "phases s ! next_task s = Waiting" by (simp add: pool_inv_def)
  with begins filter_update[of "next_task s" "phases s" busy "begin_task F client_args (keys ! next_task s) (shared s)"]
  show ?case by (auto simp: pool_inv_def set_phase_def nth_list_update)
next
  case (constructed i s args client)
  with filter_update_le[of i "phases s" busy "Using client"]
  show ?case by (auto simp: pool_inv_def set_phase_def nth_list_update)
next
  case (raised i s args e)
  with filter_update_le[of i "phases s" busy "Ended (Inl e)"]
  show ?case by (auto simp: pool_inv_def set_phase_def nth_list_update)
next
  case (ends i s client r)
  with filter_update_le[of i "phases s" busy "Ended r"]
  show ?case by (auto simp: pool_inv_def set_phase_def nth_list_update)
qed

lemma pool_inv_run: "task_run F client_args pool_size keys (start_run c keys) s \<Longrightarrow> pool_inv pool_size keys s"
  by (induction rule: task_run.induct) (auto intro: pool_inv_start pool_inv_step)

section \<open>One client per host\<close>

definition task_clients :: "'c pclient \<Rightarrow> (nat \<times> string) list \<Rightarrow> ('c, 'r) pool_run \<Rightarrow> bool" where
  "task_clients c0 keys s \<longleftrightarrow> (\<forall>i < length keys.
     (case phases s ! i of
        Waiting \<Rightarrow> keys ! i \<notin> fst ` set (clients_made s)
      | Making _ \<Rightarrow> keys ! i \<notin> fst ` set (clients_made s) \<and> host_clients c0 (keys ! i) = None
      | Using client \<Rightarrow> host_clients (shared s) (keys ! i) = Some client
      | Ended _ \<Rightarrow> True))"

definition cache_of_run :: "'c pclient \<Rightarrow> ('c, 'r) pool_run \<Rightarrow> bool" where
  "cache_of_run c0 s \<longleftrightarrow> distinct (map fst (clients_made s)) \<and>
     (\<forall>m \<in> set (clients_made s). host_clients (shared s) (fst m) = Some (snd m) \<and> host_clients c0 (fst m) = None) \<and>
     (\<forall>k. k \<notin> fst ` set (clients_made s) \<longrightarrow> host_clients (shared s) k = host_clients c0 k)"

lemma request_client_cases:
  "request_client F client_args i host c = CachedClient client \<Longrightarrow> host_clients c (i, host) = Some client"
  "request_client F client_args i host c = MakeClient args \<Longrightarrow> host_clients c (i, host) = None"
  by (auto simp: request_client_def split: option.splits sum.splits)

lemma begin_task_cases:
  "begin_task F client_args k c = Using client \<Longrightarrow> host_clients c k = Some client"
  "begin_task F client_args k c = Making args \<Longrightarrow> host_clients c k = None"
  using request_client_cases[of F client_args "fst k" "snd k" c]
  by (auto simp: begin_task_def split: client_request.splits)

lemma cached_before:
  "cache_of_run c0 s \<Longrightarrow> k \<notin> fst ` set (clients_made s) \<Longrightarrow> host_clients (shared s) k = host_clients c0 k"
  unfolding cache_of_run_def by blast

lemma cache_of_run_made:
  assumes "cache_of_run c0 s" "k \<notin> fst ` set (clients_made s)" "host_clients c0 k = None"
  shows "cache_of_run c0 (s\<lparr>shared := keep_client k client (shared s), clients_made := clients_made s @ [(k, client)]\<rparr>)"
proof -
  from assms(2) have "fst m \<noteq> k" if "m \<in> set (clients_made s)" for m using that by blast
  with assms show ?thesis by (simp add: cache_of_run_def keep_client_def)
qed

lemma task_clients_other:
  assumes "task_clients c0 keys s" "pool_inv pool_size keys s"
    "\<And>j. j < length keys \<Longrightarrow> j \<noteq> i \<Longrightarrow> keys ! j \<noteq> keys ! i" "i < length keys"
    "phases t = (phases s)[i := p]"
    "\<And>k. k \<noteq> keys ! i \<Longrightarrow> host_clients (shared t) k = host_clients (shared s) k"
    "\<And>k. k \<noteq> keys ! i \<Longrightarrow> k \<in> fst ` set (clients_made t) \<longleftrightarrow> k \<in> fst ` set (clients_made s)"
    "case p of Using client \<Rightarrow> host_clients (shared t) (keys ! i) = Some client
       | Making args \<Rightarrow> keys ! i \<notin> fst ` set (clients_made t) \<and> host_clients c0 (keys ! i) = None
       | Waiting \<Rightarrow> False | Ended _ \<Rightarrow> True"
  shows "task_clients c0 keys t"
  unfolding task_clients_def
proof (intro allI impI)
  fix j assume j: "j < length keys"
  show "case phases t ! j of Waiting \<Rightarrow> keys ! j \<notin> fst ` set (clients_made t)
    | Making _ \<Rightarrow> keys ! j \<notin> fst ` set (clients_made t) \<and> host_clients c0 (keys ! j) = None
    | Using client \<Rightarrow> host_clients (shared t) (keys ! j) = Some client | Ended _ \<Rightarrow> True"
  proof (cases "j = i")
    case True
    with assms(2,4,5,8) show ?thesis by (cases p) (simp_all add: pool_inv_def)
  next
    case False
    from assms(3)[OF j False] assms(6,7) have
      "host_clients (shared t) (keys ! j) = host_clients (shared s) (keys ! j)"
      "keys ! j \<in> fst ` set (clients_made t) \<longleftrightarrow> keys ! j \<in> fst ` set (clients_made s)" by blast+
    with assms(1)[unfolded task_clients_def, rule_format, OF j] assms(5) False j show ?thesis
      by (cases "phases s ! j") simp_all
  qed
qed

definition one_client_inv :: "'c pclient \<Rightarrow> nat \<Rightarrow> (nat \<times> string) list \<Rightarrow> ('c, 'r) pool_run \<Rightarrow> bool" where
  "one_client_inv c0 pool_size keys s \<longleftrightarrow>
     pool_inv pool_size keys s \<and> task_clients c0 keys s \<and> cache_of_run c0 s"

lemma one_client_inv_start: "one_client_inv c0 pool_size keys (start_run c0 keys)"
  by (simp add: one_client_inv_def pool_inv_start)
    (simp add: task_clients_def cache_of_run_def start_run_def)

lemma one_client_inv_step:
  assumes "task_step F client_args pool_size keys s t" "one_client_inv c0 pool_size keys s" "distinct keys"
  shows "one_client_inv c0 pool_size keys t"
proof -
  from assms(2) have inv: "pool_inv pool_size keys s" "task_clients c0 keys s" "cache_of_run c0 s"
    by (simp_all add: one_client_inv_def)
  have other: "keys ! j \<noteq> keys ! i" if "j < length keys" "i < length keys" "j \<noteq> i" for i j
    using assms(3) that by (simp add: nth_eq_iff_index_eq)
  note pool = pool_inv_step[OF assms(1) inv(1)]
  have at: "case phases s ! i of Waiting \<Rightarrow> keys ! i \<notin> fst ` set (clients_made s)
      | Making _ \<Rightarrow> keys ! i \<notin> fst ` set (clients_made s) \<and> host_clients c0 (keys ! i) = None
      | Using client \<Rightarrow> host_clients (shared s) (keys ! i) = Some client | Ended _ \<Rightarrow> True"
    if "i < length keys" for i using inv(2) that by (simp add: task_clients_def)
  from assms(1) have "task_clients c0 keys t \<and> cache_of_run c0 t"
  proof cases
    case begins
    let ?k = "keys ! next_task s"
    from inv(1) begins have w: "phases s ! next_task s = Waiting" by (simp add: pool_inv_def)
    from at[OF begins(2)] w have fresh: "?k \<notin> fst ` set (clients_made s)" by simp
    then show ?thesis
      by (intro conjI task_clients_other[OF inv(2,1) other begins(2), of t "begin_task F client_args ?k (shared s)"])
        (use begins inv(3) cached_before[OF inv(3) fresh] in
          \<open>auto simp: cache_of_run_def set_phase_def split: phase.split dest: begin_task_cases\<close>)
  next
    case (constructed i args client)
    from at[OF constructed(2)] constructed(3)
    have fresh: "keys ! i \<notin> fst ` set (clients_made s)" "host_clients c0 (keys ! i) = None" by simp_all
    then show ?thesis
      by (intro conjI task_clients_other[OF inv(2,1) other constructed(2), of t "Using client"])
        (use constructed cache_of_run_made[OF inv(3) fresh] in \<open>auto simp: cache_of_run_def set_phase_def keep_client_def\<close>)
  next
    case (raised i args e)
    with inv(3) show ?thesis
      by (intro conjI task_clients_other[OF inv(2,1) other raised(2), of t "Ended (Inl e)"])
        (auto simp: cache_of_run_def set_phase_def)
  next
    case (ends i client r)
    with inv(3) show ?thesis
      by (intro conjI task_clients_other[OF inv(2,1) other ends(2), of t "Ended r"])
        (auto simp: cache_of_run_def set_phase_def)
  qed
  with pool show ?thesis by (simp add: one_client_inv_def)
qed

lemma one_client_inv_run:
  assumes "task_run F client_args pool_size keys (start_run c0 keys) s" "distinct keys"
  shows "one_client_inv c0 pool_size keys s"
  using assms by (induction rule: task_run.induct) (auto intro: one_client_inv_start one_client_inv_step)

lemma spawned_keys_distinct: "distinct (map (\<lambda>(host_i, host, a). (host_i, host)) (fst (spawn_each args (py_enumerate hs))))"
proof -
  have sub: "\<exists>ys. map (\<lambda>(host_i, host, a). (host_i, host)) (fst (spawn_each args xs)) @ ys = xs" for xs
    by (induction args xs rule: spawn_each.induct) (auto split: sum.splits prod.splits)
  from sub[of "py_enumerate hs"] obtain ys where
    "map (\<lambda>(host_i, host, a). (host_i, host)) (fst (spawn_each args (py_enumerate hs))) @ ys = py_enumerate hs" by blast
  moreover have "distinct (py_enumerate hs)" by (rule distinct_enumerate)
  ultimately show ?thesis by (metis distinct_append)
qed

section \<open>Running to the end\<close>

fun steps_left :: "('c, 'r) phase \<Rightarrow> nat" where
  "steps_left Waiting = 3" | "steps_left (Making _) = 2" | "steps_left (Using _) = 1" | "steps_left (Ended _) = 0"

definition run_measure :: "('c, 'r) pool_run \<Rightarrow> nat" where
  "run_measure s = sum_list (map steps_left (phases s))"

lemma sum_list_update_less:
  "i < length xs \<Longrightarrow> f y < f (xs ! i) \<Longrightarrow> sum_list (map f (xs[i := y])) < (sum_list (map f xs) :: nat)"
  by (induction xs arbitrary: i) (auto split: nat.splits simp: nth_Cons)

lemma begin_task_steps: "steps_left (begin_task F client_args k c) < 3"
  by (simp add: begin_task_def split: client_request.split)

lemma task_step_measure:
  assumes "task_step F client_args pool_size keys s t" "pool_inv pool_size keys s"
  shows "run_measure t < run_measure s"
proof -
  from assms(2) have len: "length (phases s) = length keys" by (simp add: pool_inv_def)
  from assms(1) show ?thesis
  proof cases
    case begins
    with assms(2) have "phases s ! next_task s = Waiting" by (simp add: pool_inv_def)
    with begins len begin_task_steps[of F client_args "keys ! next_task s" "shared s"] show ?thesis
      by (auto simp: run_measure_def set_phase_def intro!: sum_list_update_less)
  qed (use len in \<open>auto simp: run_measure_def set_phase_def intro!: sum_list_update_less\<close>)
qed

lemma task_run_stuck:
  assumes "pool_inv pool_size keys s" "0 < pool_size" "\<And>t. \<not> task_step F client_args pool_size keys s t"
    "p \<in> set (phases s)"
  shows "\<exists>r. p = Ended r"
proof -
  have len: "length (phases s) = length keys" using assms(1) by (simp add: pool_inv_def)
  have idle: "\<not> busy (phases s ! i)" if "i < length keys" for i
    using assms(3) task_step.constructed[OF that] task_step.ends[OF that] by (cases "phases s ! i") fastforce+
  have "filter busy (phases s) = []"
    using idle len by (auto simp: filter_empty_conv in_set_conv_nth)
  with task_step.begins[of s keys pool_size F client_args] assms(2,3) have "\<not> next_task s < length keys" by auto
  from assms(4) len obtain i where i: "i < length keys" "phases s ! i = p" by (metis in_set_conv_nth)
  with assms(1) \<open>\<not> next_task s < length keys\<close> have "p \<noteq> Waiting" by (auto simp: pool_inv_def)
  with idle[OF i(1)] i(2) show ?thesis by (cases p) auto
qed

section \<open>A call that is not interrupted\<close>

text \<open>
  A greenlet that makes its client without the others running does what \<open>_get_ssh_client\<close> does as
  one call.
\<close>

lemma uninterrupted_call:
  assumes "pool_inv pool_size keys s" "next_task s < length keys" "length (filter busy (phases s)) < pool_size"
  shows "\<exists>t. task_run F client_args pool_size keys s t \<and>
    (case get_ssh_client F client_args construct (fst (keys ! next_task s)) (snd (keys ! next_task s)) (shared s) of
       (r, c) \<Rightarrow> shared t = c \<and> phases t ! next_task s = (case r of Inl e \<Rightarrow> Ended (Inl e) | Inr client \<Rightarrow> Using client))"
proof -
  let ?i = "next_task s" let ?k = "keys ! next_task s"
  let ?s1 = "set_phase ?i (begin_task F client_args ?k (shared s)) (s\<lparr>next_task := Suc ?i\<rparr>)"
  from assms(1,2) have len: "?i < length (phases s)" by (simp add: pool_inv_def)
  have s1: "task_run F client_args pool_size keys s ?s1"
    by (rule run_step[OF run_refl task_step.begins[OF assms(2,3)]])
  show ?thesis
  proof (cases "request_client F client_args (fst ?k) (snd ?k) (shared s)")
    case (MakeClient args)
    have making: "phases ?s1 ! ?i = Making args" using MakeClient len by (simp add: set_phase_def begin_task_def)
    show ?thesis
    proof (cases "construct (snd ?k) args")
      case (Inl e)
      have "task_run F client_args pool_size keys s (set_phase ?i (Ended (Inl e)) ?s1)"
        by (rule run_step[OF s1 task_step.raised[OF assms(2) making]])
      with MakeClient Inl len show ?thesis
        by (intro exI[of _ "set_phase ?i (Ended (Inl e)) ?s1"]) (simp add: get_ssh_client_parts set_phase_def)
    next
      case (Inr client)
      note r = run_step[OF s1 task_step.constructed[OF assms(2) making, of F client_args pool_size client]]
      show ?thesis by (rule exI, rule conjI[OF r]) (use MakeClient Inr len in \<open>simp add: get_ssh_client_parts set_phase_def\<close>)
    qed
  qed (use s1 len in \<open>auto simp: get_ssh_client_parts set_phase_def begin_task_def intro!: exI[of _ ?s1]\<close>)
qed

section \<open>Properties\<close>

text \<open>
  C9: Whatever the hosts answer and whenever the greenlets run, the greenlets that one call spawns make
  at most one client per host, each only where there was none, and every greenlet uses the client
  that later calls will find; never more of them are busy than the pool has places.
\<close>
theorem one_client_per_host:
  assumes "keys = map (\<lambda>(host_i, host, a). (host_i, host)) (fst (spawn_each args (py_enumerate hs)))"
    and "task_run F client_args pool_size keys (start_run c keys) s"
  shows "distinct (map fst (clients_made s)) \<and> length (filter busy (phases s)) \<le> pool_size \<and>
    (\<forall>m \<in> set (clients_made s). host_clients c (fst m) = None \<and> host_clients (shared s) (fst m) = Some (snd m)) \<and>
    (\<forall>i client. i < length keys \<and> phases s ! i = Using client \<longrightarrow> host_clients (shared s) (keys ! i) = Some client) \<and>
    (\<forall>k. k \<notin> fst ` set (clients_made s) \<longrightarrow> host_clients (shared s) k = host_clients c k)"
proof -
  from spawned_keys_distinct[of args hs] assms(1) have "distinct keys" by simp
  from one_client_inv_run[OF assms(2) this] have inv: "pool_inv pool_size keys s" "task_clients c keys s" "cache_of_run c s"
    by (simp_all add: one_client_inv_def)
  have "\<forall>i client. i < length keys \<and> phases s ! i = Using client \<longrightarrow> host_clients (shared s) (keys ! i) = Some client"
    using inv(2) by (fastforce simp: task_clients_def)
  with inv(1,3) show ?thesis unfolding pool_inv_def cache_of_run_def by blast
qed

lemma two_hosts_request:
  "request_client no_files native_client_args 0 ''a'' two_hosts =
     MakeClient (native_client_args default_config default_config PNone)"
  by (simp add: request_client_def two_hosts_def get_host_config_def load_pkey_data_def default_config_def)

definition two_keys :: "(nat \<times> string) list" where
  "two_keys = [(0, ''a''), (1, ''b'')]"

theorem one_client_per_host_witness:
  "\<exists>s :: (nat, unit) pool_run. task_run no_files native_client_args 1 two_keys (start_run two_hosts two_keys) s \<and>
     clients_made s = [((0, ''a''), 7)] \<and> host_clients (shared s) (0, ''a'') = Some 7 \<and>
     host_clients (shared s) (1, ''b'') = None"
proof -
  let ?s0 = "start_run two_hosts two_keys :: (nat, unit) pool_run"
  let ?args = "native_client_args default_config default_config PNone"
  let ?s1 = "set_phase 0 (Making ?args) (?s0\<lparr>next_task := 1\<rparr>)"
  let ?s2 = "set_phase 0 (Using 7) (?s1\<lparr>shared := keep_client (0, ''a'') 7 (shared ?s1), clients_made := clients_made ?s1 @ [((0, ''a''), 7)]\<rparr>)"
  have "task_step no_files native_client_args 1 two_keys ?s0 ?s1"
    using task_step.begins[of ?s0 two_keys 1 no_files native_client_args]
    by (simp add: start_run_def two_keys_def begin_task_def two_hosts_request)
  from run_step[OF run_refl this] have r1: "task_run no_files native_client_args 1 two_keys ?s0 ?s1" .
  have "task_step no_files native_client_args 1 two_keys ?s1 ?s2"
    using task_step.constructed[of 0 two_keys ?s1 ?args no_files native_client_args 1 7]
    by (simp add: start_run_def two_keys_def set_phase_def)
  from run_step[OF r1 this] have r2: "task_run no_files native_client_args 1 two_keys ?s0 ?s2" .
  have keys: "two_keys = map (\<lambda>(host_i, host, a). (host_i, host)) (fst (spawn_each (\<lambda>i h. Inr ()) (py_enumerate [''a'', ''b''])))"
    by (simp add: two_keys_def)
  have made: "clients_made ?s2 = [((0, ''a''), 7)]" by (simp add: start_run_def set_phase_def)
  with one_client_per_host[OF keys r2] have
    "host_clients (shared ?s2) (0, ''a'') = Some 7 \<and> host_clients (shared ?s2) (1, ''b'') = host_clients two_hosts (1, ''b'')"
    by simp
  with r2 made show ?thesis
    by (intro exI[of _ ?s2]) (simp add: two_hosts_def)
qed



text \<open>
  C30: Two greenlets for one host, such as those of a copy that is not waited for and of the command that
  follows, or of \<open>connect_auth\<close> and the command after it, can make a client each: the second replaces
  the first in the cache, and the first is used by its greenlet alone.
\<close>
theorem two_clients_for_one_host:
  assumes "request_client F client_args (fst k) (snd k) c = MakeClient args" "2 \<le> pool_size"
  shows "\<exists>s :: ('c, 'r) pool_run. task_run F client_args pool_size [k, k] (start_run c [k, k]) s \<and>
    clients_made s = [(k, first), (k, second)] \<and> phases s = [Using first, Using second] \<and>
    host_clients (shared s) k = Some second"
proof -
  let ?s0 = "start_run c [k, k] :: ('c, 'r) pool_run"
  let ?s1 = "set_phase 0 (Making args) (?s0\<lparr>next_task := 1\<rparr>)"
  let ?s2 = "set_phase 1 (Making args) (?s1\<lparr>next_task := 2\<rparr>)"
  let ?made = "\<lambda>i client s. set_phase i (Using client)
            (s\<lparr>shared := keep_client k client (shared s), clients_made := clients_made s @ [(k, client)]\<rparr>)"
  have b: "(begin_task F client_args k c :: ('c, 'r) phase) = Making args" using assms(1) by (simp add: begin_task_def)
  have st1: "task_step F client_args pool_size [k, k] ?s0 ?s1"
    using task_step.begins[of ?s0 "[k, k]" pool_size F client_args] assms(2) b by (simp add: start_run_def)
  have st2: "task_step F client_args pool_size [k, k] ?s1 ?s2"
    using task_step.begins[of ?s1 "[k, k]" pool_size F client_args] assms(2) b
    by (simp add: start_run_def set_phase_def numeral_2_eq_2)
  have st3: "task_step F client_args pool_size [k, k] ?s2 (?made 0 first ?s2)"
    using task_step.constructed[of 0 "[k, k]" ?s2 args F client_args pool_size first]
    by (simp add: start_run_def set_phase_def)
  have st4: "task_step F client_args pool_size [k, k] (?made 0 first ?s2) (?made 1 second (?made 0 first ?s2))"
    using task_step.constructed[of 1 "[k, k]" "?made 0 first ?s2" args F client_args pool_size second]
    by (simp add: start_run_def set_phase_def)
  have "task_run F client_args pool_size [k, k] ?s0 (?made 1 second (?made 0 first ?s2))"
    by (rule run_step[OF run_step[OF run_step[OF run_step[OF run_refl st1] st2] st3] st4])
  then show ?thesis by (intro exI conjI, assumption) (simp_all add: start_run_def set_phase_def keep_client_def)
qed

theorem two_clients_for_one_host_witness:
  "\<exists>s :: (nat, unit) pool_run. task_run no_files native_client_args 2 [(0, ''a''), (0, ''a'')]
       (start_run two_hosts [(0, ''a''), (0, ''a'')]) s \<and>
     clients_made s = [((0, ''a''), 1), ((0, ''a''), 2)] \<and> host_clients (shared s) (0, ''a'') = Some 2"
  using two_clients_for_one_host[of no_files native_client_args "(0, ''a'')" two_hosts _ 2 1 2] two_hosts_request by auto

end
