(* ===== verification/Shells.thy ===== *)
theory Shells
  imports Host_Tasks
begin

text \<open>
  Interactive shells on all hosts: \<open>_open_shell\<close>, \<open>open_shell\<close>, \<open>run_shell_commands\<close> and \<open>join_shells\<close> of
  \<open>pssh/clients/base/parallel.py\<close>.

  As in \<open>Parallel_Client\<close> a greenlet is a task with a result.  The commands of one shell are written by
  greenlets of their own, which all write to the same channel: a step of \<open>write_step\<close> is one call of
  \<open>channel.write\<close>, after which \<open>eagain_write\<close> gives way to the other greenlets.
\<close>

section \<open>Opening\<close>

text \<open>
  \<open>_open_shell\<close> on the client of the host.  \<open>open_shell\<close> returns the shells in the order in which the
  greenlets finish.
\<close>

definition open_shell_on where
  "open_shell_on F client_args construct open_shell_of host_i host c =
     on_client F client_args construct open_shell_of host_i host c"

definition par_open_shell :: "(nat \<Rightarrow> par_error + 'sh) \<Rightarrow> nat list \<Rightarrow> par_error + 'sh list" where
  "par_open_shell shell_of order = join_all shell_of order"

section \<open>Running commands\<close>

datatype commands_arg = OneCommand string | Commands "string list"

definition command_list :: "commands_arg \<Rightarrow> string list" where
  "command_list cmds = (case cmds of OneCommand cmd \<Rightarrow> [cmd] | Commands cs \<Rightarrow> cs)"

text \<open>The greenlets, in the order in which they are spawned: a shell and a command each.\<close>

definition shell_tasks :: "'sh list \<Rightarrow> commands_arg \<Rightarrow> ('sh \<times> string) list" where
  "shell_tasks shells cmds = concat (map (\<lambda>shell. map (\<lambda>cmd. (shell, cmd)) (command_list cmds)) shells)"

text \<open>
  \<open>run_shell_commands\<close>: \<open>fins\<close> are the greenlets that finish before the timeout of the client, and
  they are what is returned.  A timeout of gevent is no \<open>Exception\<close>.
\<close>

definition run_shell_commands ::
  "'sh list \<Rightarrow> commands_arg \<Rightarrow> ('sh \<times> string \<Rightarrow> par_error + unit) \<Rightarrow> nat list \<Rightarrow> par_error + nat list" where
  "run_shell_commands shells cmds run fins =
     (case join_all (\<lambda>i. run (shell_tasks shells cmds ! i)) fins of
        Inl e \<Rightarrow> Inl (if e = PGeventTimeout then e else PShellError e)
      | Inr _ \<Rightarrow> Inr fins)"

section \<open>Joining\<close>

text \<open>
  \<open>join_shells\<close>: \<open>close\<close> is what closing a shell returns, the shell itself or nothing.  The timeout of
  the exception is the argument, not the one in force.  The unfinished shells are a set, here without
  repetitions in the order of the shells.
\<close>

datatype 'sh join_error = CloseRaised par_error | ShellsUnfinished "nat option" "'sh option list" "'sh list"

fun values_of :: "('sh \<Rightarrow> par_error + 'sh option) \<Rightarrow> 'sh list \<Rightarrow> par_error + 'sh option list" where
  "values_of close [] = Inr []"
| "values_of close (s # ss) =
     (case close s of Inl e \<Rightarrow> Inl e | Inr v \<Rightarrow> map_sum id (\<lambda>vs. v # vs) (values_of close ss))"

definition join_shells ::
  "nat option \<Rightarrow> nat option \<Rightarrow> 'sh list \<Rightarrow> ('sh \<Rightarrow> par_error + 'sh option) \<Rightarrow> 'sh list \<Rightarrow> 'sh join_error + unit" where
  "join_shells own_timeout timeout shells close fins =
     (let in_force = (if timeout = None then own_timeout else timeout) in
      if in_force = None then Inr ()
      else (case values_of close fins of
              Inl e \<Rightarrow> Inl (CloseRaised e)
            | Inr finished_shells \<Rightarrow>
                (let unfinished = remdups (filter (\<lambda>s. Some s \<notin> set finished_shells) shells) in
                 if length unfinished > 0 then Inl (ShellsUnfinished timeout finished_shells unfinished)
                 else Inr ())))"

lemma values_of_Inr:
  "values_of close ss = Inr vs \<Longrightarrow> (\<forall>s \<in> set ss. \<exists>v. close s = Inr v) \<and> set vs = {v. \<exists>s \<in> set ss. close s = Inr v}"
  by (induction ss arbitrary: vs) (auto split: sum.splits simp: map_sum_def)

lemma values_of_Inl: "values_of close ss = Inl e \<Longrightarrow> \<exists>s \<in> set ss. close s = Inl e"
  by (induction ss) (auto split: sum.splits simp: map_sum_def)

section \<open>Several writers to one channel\<close>

text \<open>
  \<open>rest ! i\<close> is what the \<open>i\<close>-th greenlet has still to write.  A call of \<open>channel.write\<close> takes the first
  \<open>n\<close> of its bytes.  The bytes on the channel remember who wrote them.
\<close>

record shell_writers =
  rest :: "bytes list"
  sent :: "(nat \<times> char) list"

definition start_writers :: "bytes list \<Rightarrow> shell_writers" where
  "start_writers cmds = \<lparr>rest = cmds, sent = []\<rparr>"

definition write_call :: "nat \<Rightarrow> nat \<Rightarrow> shell_writers \<Rightarrow> shell_writers" where
  "write_call i n w = \<lparr>rest = (rest w)[i := drop n (rest w ! i)], sent = sent w @ map (Pair i) (take n (rest w ! i))\<rparr>"

text \<open>With \<open>whole\<close> every call takes all that it is given.\<close>

inductive write_step :: "bool \<Rightarrow> shell_writers \<Rightarrow> shell_writers \<Rightarrow> bool" for whole where
  "\<lbrakk>i < length (rest w); rest w ! i \<noteq> []; n \<le> length (rest w ! i); whole \<longrightarrow> n = length (rest w ! i)\<rbrakk>
    \<Longrightarrow> write_step whole w (write_call i n w)"

inductive writes :: "bool \<Rightarrow> shell_writers \<Rightarrow> shell_writers \<Rightarrow> bool" for whole w where
  writes_refl: "writes whole w w"
| writes_step: "\<lbrakk>writes whole w v; write_step whole v u\<rbrakk> \<Longrightarrow> writes whole w u"

definition all_written :: "shell_writers \<Rightarrow> bool" where
  "all_written w \<longleftrightarrow> (\<forall>r \<in> set (rest w). r = [])"

text \<open>What the \<open>i\<close>-th greenlet wrote, and what the shell reads.\<close>

definition bytes_of :: "nat \<Rightarrow> (nat \<times> char) list \<Rightarrow> bytes" where
  "bytes_of i s = map snd (filter (\<lambda>p. fst p = i) s)"

definition on_channel :: "shell_writers \<Rightarrow> bytes" where
  "on_channel w = map snd (sent w)"

lemma bytes_of_append [simp]: "bytes_of i (s @ t) = bytes_of i s @ bytes_of i t"
  by (simp add: bytes_of_def)

lemma bytes_of_own [simp]: "bytes_of i (map (Pair j) d) = (if i = j then d else [])"
  by (induction d) (auto simp: bytes_of_def)

definition conserved :: "bytes list \<Rightarrow> shell_writers \<Rightarrow> bool" where
  "conserved cmds w \<longleftrightarrow> length (rest w) = length cmds \<and>
     (\<forall>i < length cmds. bytes_of i (sent w) @ rest w ! i = cmds ! i) \<and> (\<forall>p \<in> set (sent w). fst p < length cmds)"

lemma conserved_start: "conserved cmds (start_writers cmds)"
  by (simp add: conserved_def start_writers_def bytes_of_def)

lemma conserved_step: "write_step whole w v \<Longrightarrow> conserved cmds w \<Longrightarrow> conserved cmds v"
proof (induction rule: write_step.induct)
  case (1 i w n)
  have "bytes_of j (sent (write_call i n w)) @ rest (write_call i n w) ! j = cmds ! j" if "j < length cmds" for j
    using 1 that by (cases "j = i") (auto simp: write_call_def conserved_def)
  with 1 show ?case by (auto simp: conserved_def write_call_def)
qed

lemma conserved_writes: "writes whole (start_writers cmds) w \<Longrightarrow> conserved cmds w"
  by (induction rule: writes.induct) (auto intro: conserved_start conserved_step)

text \<open>Whole writes: every greenlet has written its command in one piece, or not at all.\<close>

definition in_pieces :: "bytes list \<Rightarrow> nat list \<Rightarrow> shell_writers \<Rightarrow> bool" where
  "in_pieces cmds order w \<longleftrightarrow> length (rest w) = length cmds \<and> distinct order \<and> set order \<subseteq> {..<length cmds} \<and>
     sent w = concat (map (\<lambda>i. map (Pair i) (cmds ! i)) order) \<and>
     (\<forall>i < length cmds. rest w ! i = (if i \<in> set order then [] else cmds ! i))"

lemma in_pieces_start: "in_pieces cmds [] (start_writers cmds)"
  by (simp add: in_pieces_def start_writers_def)

lemma in_pieces_step:
  assumes "write_step True w v" "in_pieces cmds order w"
  shows "\<exists>order'. in_pieces cmds order' v"
  using assms
proof (induction rule: write_step.induct)
  case (1 i w n)
  then have i: "i < length cmds" "i \<notin> set order" "rest w ! i = cmds ! i" "n = length (cmds ! i)"
    by (auto simp: in_pieces_def)
  with 1 have "in_pieces cmds (order @ [i]) (write_call i n w)"
    by (auto simp: in_pieces_def write_call_def nth_list_update)
  then show ?case by blast
qed

lemma in_pieces_writes: "writes True (start_writers cmds) w \<Longrightarrow> \<exists>order. in_pieces cmds order w"
  by (induction rule: writes.induct) (auto intro: in_pieces_start dest: in_pieces_step)

section \<open>Properties\<close>

text \<open>
  However the writes of several commands to one shell are cut and interleaved, every command
  arrives complete and with its bytes in order, and nothing else does.
\<close>
theorem shell_commands_arrive_complete:
  assumes "writes whole (start_writers cmds) w" "all_written w"
  shows "(\<forall>i < length cmds. bytes_of i (sent w) = cmds ! i) \<and> (\<forall>p \<in> set (sent w). fst p < length cmds)"
proof -
  from conserved_writes[OF assms(1)] have c: "conserved cmds w" .
  have "bytes_of i (sent w) = cmds ! i" if "i < length cmds" for i
  proof -
    from c that have "rest w ! i \<in> set (rest w)" by (simp add: conserved_def)
    with assms(2) have "rest w ! i = []" by (simp add: all_written_def)
    with c that show ?thesis by (simp add: conserved_def) (metis append_Nil2)
  qed
  with c show ?thesis by (simp add: conserved_def)
qed

text \<open>
  When the channel takes every command whole, the shell reads the commands one after the other,
  each once, in the order in which the greenlets came to write.
\<close>
theorem whole_writes_keep_commands_apart:
  assumes "writes True (start_writers cmds) w" "all_written w" "\<And>c. c \<in> set cmds \<Longrightarrow> c \<noteq> []"
  shows "\<exists>order. distinct order \<and> set order = {..<length cmds} \<and> on_channel w = concat (map (\<lambda>i. cmds ! i) order)"
proof -
  from in_pieces_writes[OF assms(1)] obtain order where o: "in_pieces cmds order w" by blast
  have "i \<in> set order" if "i < length cmds" for i
  proof (rule ccontr)
    assume "i \<notin> set order"
    with o that have r: "rest w ! i = cmds ! i" "i < length (rest w)" by (simp_all add: in_pieces_def)
    from assms(2) nth_mem[OF r(2)] have "rest w ! i = []" by (simp add: all_written_def)
    with r(1) assms(3)[OF nth_mem[OF that]] show False by simp
  qed
  moreover have "on_channel w = concat (map (\<lambda>i. cmds ! i) order)"
    using o by (simp add: in_pieces_def on_channel_def map_concat comp_def)
  ultimately show ?thesis using o by (intro exI[of _ order]) (auto simp: in_pieces_def)
qed

definition two_lines :: "bytes list" where
  "two_lines = [''ab'' @ [CHR 0x0A], ''cd'' @ [CHR 0x0A]]"

definition written_whole :: shell_writers where
  "written_whole = write_call 1 3 (write_call 0 3 (start_writers two_lines))"

lemma written_whole_writes: "writes True (start_writers two_lines) written_whole"
proof -
  have "write_step True (start_writers two_lines) (write_call 0 3 (start_writers two_lines))"
    by (rule write_step.intros) (simp_all add: start_writers_def two_lines_def)
  moreover have "write_step True (write_call 0 3 (start_writers two_lines)) written_whole"
    unfolding written_whole_def
    by (rule write_step.intros) (simp_all add: start_writers_def two_lines_def write_call_def)
  ultimately show ?thesis by (meson writes_refl writes_step)
qed

theorem shell_commands_arrive_complete_witness: "bytes_of 1 (sent written_whole) = ''cd'' @ [CHR 0x0A]"
proof -
  have "all_written written_whole" by code_simp
  from shell_commands_arrive_complete[OF written_whole_writes this] show ?thesis
    by (simp add: two_lines_def)
qed

theorem whole_writes_keep_commands_apart_witness:
  "\<exists>order. distinct order \<and> set order = {..<2} \<and> on_channel written_whole = concat (map (\<lambda>i. two_lines ! i) order)"
proof -
  have "all_written written_whole" by code_simp
  moreover have "c \<noteq> []" if "c \<in> set two_lines" for c using that by (auto simp: two_lines_def)
  moreover have "length two_lines = 2" by (simp add: two_lines_def)
  ultimately show ?thesis using whole_writes_keep_commands_apart[OF written_whole_writes] by simp
qed

text \<open>
  A channel that takes only a part of a command lets the greenlet of another command write in
  the middle of it: of two commands the shell then reads two lines that nobody sent.
\<close>
theorem partial_writes_mix_commands:
  "\<exists>w. writes False (start_writers two_lines) w \<and> all_written w \<and>
     on_channel w = ''acd'' @ [CHR 0x0A] @ ''b'' @ [CHR 0x0A]"
proof -
  let ?w0 = "start_writers two_lines"
  let ?w1 = "write_call 0 1 ?w0"
  let ?w2 = "write_call 1 3 ?w1"
  let ?w3 = "write_call 0 2 ?w2"
  note simps = start_writers_def two_lines_def write_call_def
  have "write_step False ?w0 ?w1" by (rule write_step.intros) (simp_all add: simps)
  moreover have "write_step False ?w1 ?w2" by (rule write_step.intros) (simp_all add: simps)
  moreover have "write_step False ?w2 ?w3" by (rule write_step.intros) (simp_all add: simps)
  ultimately have "writes False ?w0 ?w3" by (meson writes_refl writes_step)
  moreover have "all_written ?w3" "on_channel ?w3 = ''acd'' @ [CHR 0x0A] @ ''b'' @ [CHR 0x0A]"
    by code_simp+
  ultimately show ?thesis by blast
qed

text \<open>
  With a timeout in force \<open>join_shells\<close> returns exactly when every shell that finished could be
  closed and every shell is among those that finished; without one it returns whatever became of
  the shells.
\<close>
theorem join_shells_result:
  assumes "\<And>s v. close s = Inr v \<Longrightarrow> v = Some s" "set fins \<subseteq> set shells"
  shows "join_shells own_timeout timeout shells close fins = Inr () \<longleftrightarrow>
    own_timeout = None \<and> timeout = None \<or> set fins = set shells \<and> (\<forall>s \<in> set fins. \<not> isl (close s))"
proof (cases "own_timeout = None \<and> timeout = None")
  case True
  then show ?thesis by (simp add: join_shells_def)
next
  case False
  then have force: "(if timeout = None then own_timeout else timeout) \<noteq> None" by auto
  show ?thesis
  proof (cases "values_of close fins")
    case (Inl e)
    from values_of_Inl[OF Inl] have "\<exists>s \<in> set fins. isl (close s)" by (metis sum.disc(1))
    with Inl force False show ?thesis by (auto simp: join_shells_def Let_def)
  next
    case (Inr vs)
    from values_of_Inr[OF Inr] have ok: "\<forall>s \<in> set fins. \<exists>v. close s = Inr v"
      and vs: "set vs = {v. \<exists>s \<in> set fins. close s = Inr v}" by auto
    have all: "close s = Inr (Some s)" if "s \<in> set fins" for s using ok that assms(1) by blast
    have mem: "Some s \<in> set vs \<longleftrightarrow> s \<in> set fins" for s
    proof
      assume "Some s \<in> set vs"
      then obtain t where "t \<in> set fins" "close t = Inr (Some s)" unfolding vs by blast
      with all[of t] show "s \<in> set fins" by simp
    next
      assume "s \<in> set fins"
      with all[of s] show "Some s \<in> set vs" unfolding vs by blast
    qed
    have "join_shells own_timeout timeout shells close fins = Inr () \<longleftrightarrow> (\<forall>s \<in> set shells. s \<in> set fins)"
      using Inr False by (cases timeout; cases own_timeout) (simp_all add: join_shells_def Let_def filter_empty_conv mem)
    moreover have "\<forall>s \<in> set fins. \<not> isl (close s)" using all by simp
    ultimately show ?thesis using False assms(2) by auto
  qed
qed

theorem join_shells_result_witness:
  "join_shells (Some 120) None [1, 2 :: nat] (\<lambda>s. Inr (Some s)) [2, 1] = Inr () \<and>
   join_shells (Some 120) None [1, 2 :: nat] (\<lambda>s. Inr (Some s)) [2] \<noteq> Inr ()"
  using join_shells_result[of "\<lambda>s. Inr (Some s)" "[2, 1]" "[1, 2 :: nat]" "Some 120" None]
    join_shells_result[of "\<lambda>s. Inr (Some s)" "[2]" "[1, 2 :: nat]" "Some 120" None]
  by auto

text \<open>
  Every shell gets every command, shell by shell and in the order of the commands; an exception
  of one of the greenlets comes back as \<open>ShellError\<close>, and commands that are not sent before the
  timeout are only missing from the result.
\<close>
theorem run_shell_commands_result:
  "shell_tasks shells cmds = [(s, c). s \<leftarrow> shells, c \<leftarrow> command_list cmds] \<and>
   ((\<forall>i \<in> set fins. run (shell_tasks shells cmds ! i) = Inr ()) \<longrightarrow> run_shell_commands shells cmds run fins = Inr fins) \<and>
   (run_shell_commands shells cmds run fins = Inl e \<longrightarrow>
      e = PGeventTimeout \<or> (\<exists>e' i. e = PShellError e' \<and> i \<in> set fins \<and> run (shell_tasks shells cmds ! i) = Inl e'))"
proof -
  have raised: "join_all f js = Inl e \<Longrightarrow> \<exists>i \<in> set js. f i = Inl e"
    for f :: "nat \<Rightarrow> par_error + unit" and js e
    by (induction js) (auto split: sum.splits simp: map_sum_def)
  have ok: "join_all (\<lambda>i. run (shell_tasks shells cmds ! i)) fins = Inr (map (\<lambda>_. ()) fins)"
    if "\<forall>i \<in> set fins. run (shell_tasks shells cmds ! i) = Inr ()"
    using that by (intro join_all_ok) auto
  show ?thesis
    using ok by (auto simp: run_shell_commands_def shell_tasks_def split: sum.splits if_splits dest!: raised)
qed

end
