(* ===== verification/Setup.thy ===== *)
theory Setup
  imports Client_Init Tunnel Parallel_Client
begin

text \<open>
  The constructors: \<open>BaseSSHClient.__init__\<close> and those of both clients with \<open>_connect_proxy\<close>, from the
  arguments to a client that can be used, and the constructors of the parallel clients.

  What the environment says is a parameter: the home directories and the file system for the keys,
  the name of the logged-in user and the identity files.
\<close>

section \<open>Arguments\<close>

record client_args =
  arg_host :: string
  arg_user :: "string option"
  arg_password :: "string option"
  arg_port :: "int option"
  arg_pkey :: key
  arg_num_retries :: int
  arg_allow_agent :: bool
  arg_timeout :: "int option"
  arg_keepalive_seconds :: int
  arg_identity_auth :: bool
  arg_ipv6_only :: bool
  arg_compress :: bool
  arg_keyboard_interactive :: bool
  arg_proxy_host :: "string option"
  arg_proxy_login :: "key login"
  arg_cert_file :: "string option"
  arg_gssapi_auth :: bool
  arg_gssapi_server :: "string option"
  arg_gssapi_client :: "string option"

record surroundings =
  expanduser :: "string \<Rightarrow> string"
  path_exists :: "string \<Rightarrow> bool"
  login_name :: string

text \<open>The keys that are tried, before \<open>expanduser\<close>.\<close>

definition IDENTITIES :: "string list" where
  "IDENTITIES = [''~/.ssh/id_rsa'', ''~/.ssh/id_dsa'', ''~/.ssh/identity'', ''~/.ssh/id_ecdsa'', ''~/.ssh/id_ed25519'']"

datatype setup_error =
    InvalidArgs raised
  | InitFailed init_error
  | ProxyFailed setup_error

text \<open>\<open>_validate_pkey\<close> on a key that is a path, data or none.\<close>

definition validate_key :: "surroundings \<Rightarrow> key \<Rightarrow> raised + key" where
  "validate_key X k =
     (case k of
        KeyPath p \<Rightarrow>
          (case validate_pkey_path (expanduser X) (path_exists X) (Some p) of
             Inl e \<Rightarrow> Inl e
           | Inr None \<Rightarrow> Inr NoKey
           | Inr (Some q) \<Rightarrow> Inr (KeyPath q))
      | _ \<Rightarrow> Inr k)"

definition password_value :: "string option \<Rightarrow> pyval" where
  "password_value pw = (case pw of None \<Rightarrow> PNone | Some s \<Rightarrow> PStr s)"

section \<open>One client\<close>

text \<open>The attributes of \<open>BaseSSHClient.__init__\<close>, as the parameters of the connection and of the authentication.\<close>

definition conn_attributes :: "client_args \<Rightarrow> conn_params" where
  "conn_attributes A =
     \<lparr>num_retries = arg_num_retries A, ipv6_only = arg_ipv6_only A, timeout_set = (arg_timeout A \<noteq> None \<and> arg_timeout A \<noteq> Some 0),
      compress_set = arg_compress A, gss_server_set = given (arg_gssapi_server A), gss_client_set = given (arg_gssapi_client A),
      client_host = arg_host A, client_port = own_port (arg_port A)\<rparr>"

definition auth_attributes :: "surroundings \<Rightarrow> client_args \<Rightarrow> key \<Rightarrow> string option \<Rightarrow> auth_params" where
  "auth_attributes X A k cert =
     \<lparr>auth_host = arg_host A, auth_port = own_port (arg_port A),
      user = (if given (arg_user A) then text_of (arg_user A) else login_name X), password = arg_password A, pkey = k,
      allow_agent = arg_allow_agent A, identity_auth_on = arg_identity_auth A,
      keyboard_interactive = arg_keyboard_interactive A, auth_retries = arg_num_retries A,
      identities = map (expanduser X) IDENTITIES, cert_file = cert, gssapi_auth = arg_gssapi_auth A,
      gssapi_server_identity = given (arg_gssapi_server A), gssapi_client_identity = given (arg_gssapi_client A)\<rparr>"

text \<open>
  The base constructor with the \<open>_init\<close> of a client: the key and then the use of the keyboard
  interactive authentication are checked before anything is connected.
\<close>

definition base_constructor ::
  "surroundings \<Rightarrow> (conn_params \<Rightarrow> auth_params \<Rightarrow> client \<Rightarrow> (init_error + unit) \<times> client) \<Rightarrow> client_args \<Rightarrow> string option
     \<Rightarrow> client \<Rightarrow> (setup_error + unit) \<times> client" where
  "base_constructor X init A cert c =
     (case validate_key X (arg_pkey A) of
        Inl e \<Rightarrow> (Inl (InvalidArgs e), c)
      | Inr k \<Rightarrow>
         (case validate_api (PBool (arg_keyboard_interactive A)) (password_value (arg_password A)) of
            Inl e \<Rightarrow> (Inl (InvalidArgs e), c)
          | Inr _ \<Rightarrow>
             (case init (conn_attributes A) (auth_attributes X A k cert) c of
                (Inl e, d) \<Rightarrow> (Inl (InitFailed e), d)
              | (Inr _, d) \<Rightarrow> (Inr (), d))))"

text \<open>The native client at the end of a connection, whose host and port are already known.\<close>

definition native_client_at ::
  "surroundings \<Rightarrow> net \<Rightarrow> auth_env \<Rightarrow> client_args \<Rightarrow> target \<Rightarrow> client \<Rightarrow> (setup_error + unit) \<times> client" where
  "native_client_at X N E A endpoint =
     base_constructor X
       (\<lambda>P Q. native_client_init P N Q E (arg_keepalive_seconds A) (fst endpoint) (snd endpoint)) A None"

text \<open>
  The arguments of the client for the proxy: what is given for the proxy, and the client's own
  otherwise.  It has no proxy itself and is not told about IPv6.
\<close>

definition proxy_client_args :: "string \<Rightarrow> client_args \<Rightarrow> client_args" where
  "proxy_client_args proxy A =
     (let own = \<lparr>login_port = arg_port A, login_pkey = (if arg_pkey A = NoKey then None else Some (arg_pkey A)),
                 login_user = arg_user A, login_password = arg_password A\<rparr>;
          L = proxy_login own (arg_proxy_login A)
      in A\<lparr>arg_host := proxy, arg_port := login_port L,
           arg_pkey := (case login_pkey L of None \<Rightarrow> NoKey | Some k \<Rightarrow> k),
           arg_user := login_user L, arg_password := login_password L,
           arg_proxy_host := None, arg_ipv6_only := False\<rparr>)"

text \<open>
  \<open>SSHClient.__init__\<close> of the native client.  \<open>NP\<close> and \<open>EP\<close> are the network and the server of the proxy,
  \<open>fport\<close> the port that the forwarder answers with; an exception of the proxy client becomes a
  \<open>ProxyError\<close>.  The result has the client and, when there is one, the client of the proxy.
\<close>

definition native_constructor ::
  "surroundings \<Rightarrow> net \<Rightarrow> auth_env \<Rightarrow> net \<Rightarrow> auth_env \<Rightarrow> nat \<Rightarrow> client_args
     \<Rightarrow> (setup_error + unit) \<times> client \<times> client option" where
  "native_constructor X N E NP EP fport A =
     (case arg_proxy_host A of
        None \<Rightarrow>
          (case native_client_at X N E A (connection_endpoint (arg_host A) (arg_port A) None (login_port (arg_proxy_login A))) new_client of
             (r, c) \<Rightarrow> (r, c, None))
      | Some proxy \<Rightarrow>
          (let B = proxy_client_args proxy A in
           case native_client_at X NP EP B (connection_endpoint (arg_host B) (arg_port B) None None) new_client of
             (Inl e, p) \<Rightarrow> (Inl (ProxyFailed e), new_client, Some p)
           | (Inr _, p) \<Rightarrow>
               (case native_client_at X N E A
                       (connection_endpoint (arg_host A) (arg_port A) (Some ''127.0.0.1'') (Some (int fport))) new_client of
                  (r, c) \<Rightarrow> (r, c, Some p))))"

text \<open>\<open>SSHClient.__init__\<close> of the ssh-python client: the certificate file is checked first.\<close>

definition ssh_constructor :: "surroundings \<Rightarrow> net \<Rightarrow> auth_env \<Rightarrow> client_args \<Rightarrow> (setup_error + unit) \<times> client" where
  "ssh_constructor X N E A =
     (case validate_pkey_path (expanduser X) (path_exists X) (arg_cert_file A) of
        Inl e \<Rightarrow> (Inl (InvalidArgs e), new_client)
      | Inr cert \<Rightarrow>
          base_constructor X
            (\<lambda>P Q. ssh_client_init P N Q E (arg_host A) (own_port (arg_port A)))
            (A\<lparr>arg_keyboard_interactive := False\<rparr>) cert new_client)"

section \<open>Parallel clients\<close>

text \<open>
  The attributes that a constructor does not take have the defaults of the base class.
\<close>

definition base_parallel_constructor ::
  "pkey_files \<Rightarrow> hosts_arg \<Rightarrow> host_config \<Rightarrow> host_config list option \<Rightarrow> bool \<Rightarrow> par_error + 'c pclient" where
  "base_parallel_constructor F hs self hcfg is_a_list =
     (case validate_hosts hs of
        Inl e \<Rightarrow> Inl e
      | Inr host_list \<Rightarrow>
         (case validate_pkey (expand F) (exists F) (hc_private_key self) of
            Inl (_, args) \<Rightarrow> Inl (PKeyFileErr args)
          | Inr k \<Rightarrow>
             (case (if hc_private_key self = PNone then Inr PNone else load_pkey_data F (hc_private_key self)) of
                Inl e \<Rightarrow> Inl e
              | Inr _ \<Rightarrow>
                 (case validate_api (hc_keyboard_interactive self) (hc_password self) of
                    Inl _ \<Rightarrow> Inl PInvalidAPIUse
                  | Inr _ \<Rightarrow>
                     (case check_host_config host_list hcfg is_a_list of
                        Inl e \<Rightarrow> Inl e
                      | Inr _ \<Rightarrow> Inr \<lparr>phosts = host_list, phost_config = hcfg, pself = self\<lparr>hc_private_key := k\<rparr>,
                                      host_clients = (\<lambda>k. None)\<rparr>)))))"

text \<open>The native parallel client passes on neither the proxy nor the keep-alive, and sets them afterwards.\<close>

definition native_parallel_constructor ::
  "pkey_files \<Rightarrow> hosts_arg \<Rightarrow> host_config \<Rightarrow> host_config list option \<Rightarrow> bool \<Rightarrow> par_error + 'c pclient" where
  "native_parallel_constructor F hs self hcfg is_a_list =
     (case base_parallel_constructor F hs
             (self\<lparr>hc_proxy_host := PNone, hc_proxy_port := PNone, hc_proxy_user := PNone, hc_proxy_password := PNone,
                   hc_proxy_pkey := PNone, hc_keepalive_seconds := PNone, hc_forward_ssh_agent := PBool False,
                   hc_cert_file := PNone, hc_gssapi_auth := PBool False, hc_gssapi_server_identity := PNone,
                   hc_gssapi_client_identity := PNone, hc_gssapi_delegate_credentials := PBool False,
                   hc_auth_thread_pool := PBool True\<rparr>) hcfg is_a_list of
        Inl e \<Rightarrow> Inl e
      | Inr c \<Rightarrow>
         (case validate_pkey (expand F) (exists F) (hc_proxy_pkey self) of
            Inl (_, args) \<Rightarrow> Inl (PKeyFileErr args)
          | Inr k \<Rightarrow>
              Inr (c\<lparr>pself := (pself c)
                \<lparr>hc_proxy_host := hc_proxy_host self, hc_proxy_port := hc_proxy_port self, hc_proxy_pkey := k,
                 hc_proxy_user := hc_proxy_user self, hc_proxy_password := hc_proxy_password self,
                 hc_forward_ssh_agent := hc_forward_ssh_agent self, hc_keepalive_seconds := hc_keepalive_seconds self\<rparr>\<rparr>)))"

definition ssh_parallel_constructor ::
  "pkey_files \<Rightarrow> hosts_arg \<Rightarrow> host_config \<Rightarrow> host_config list option \<Rightarrow> bool \<Rightarrow> par_error + 'c pclient" where
  "ssh_parallel_constructor F hs self hcfg is_a_list =
     (case base_parallel_constructor F hs
             (self\<lparr>hc_cert_file := PNone, hc_gssapi_auth := PBool False, hc_gssapi_server_identity := PNone,
                   hc_gssapi_client_identity := PNone, hc_gssapi_delegate_credentials := PBool False,
                   hc_forward_ssh_agent := PBool False, hc_keyboard_interactive := PBool False,
                   hc_proxy_host := PNone, hc_proxy_port := PNone, hc_proxy_user := PNone, hc_proxy_password := PNone,
                   hc_proxy_pkey := PNone, hc_keepalive_seconds := PNone, hc_auth_thread_pool := PBool True\<rparr>) hcfg is_a_list of
        Inl e \<Rightarrow> Inl e
      | Inr c \<Rightarrow>
         (case validate_pkey (expand F) (exists F) (hc_private_key self) of
            Inl (_, args) \<Rightarrow> Inl (PKeyFileErr args)
          | Inr k \<Rightarrow>
             (case (case hc_cert_file self of
                      PStr p \<Rightarrow> map_sum id (\<lambda>q. case q of None \<Rightarrow> PNone | Some q \<Rightarrow> PStr q)
                                  (validate_pkey_path (expand F) (exists F) (Some p))
                    | _ \<Rightarrow> Inr (hc_cert_file self)) of
                Inl (_, args) \<Rightarrow> Inl (PKeyFileErr args)
              | Inr cert \<Rightarrow>
                  Inr (c\<lparr>pself := (pself c)
                    \<lparr>hc_private_key := k, hc_cert_file := cert, hc_forward_ssh_agent := hc_forward_ssh_agent self,
                     hc_gssapi_auth := hc_gssapi_auth self, hc_gssapi_server_identity := hc_gssapi_server_identity self,
                     hc_gssapi_client_identity := hc_gssapi_client_identity self,
                     hc_gssapi_delegate_credentials := hc_gssapi_delegate_credentials self\<rparr>\<rparr>))))"

section \<open>What the constructors check\<close>

definition key_ok :: "surroundings \<Rightarrow> key \<Rightarrow> bool" where
  "key_ok X k \<longleftrightarrow> (case k of KeyPath p \<Rightarrow> path_exists X (normpath (expanduser X p)) | _ \<Rightarrow> True)"

definition args_ok :: "surroundings \<Rightarrow> client_args \<Rightarrow> bool" where
  "args_ok X A \<longleftrightarrow> key_ok X (arg_pkey A) \<and> (arg_keyboard_interactive A \<longrightarrow> given (arg_password A))"

lemma validate_key_ok: "isl (validate_key X k) \<longleftrightarrow> \<not> key_ok X k"
  by (cases k) (auto simp: validate_key_def key_ok_def validate_pkey_path_def Let_def)

lemma truthy_password: "truthy (password_value pw) \<longleftrightarrow> given pw"
  by (auto simp: password_value_def given_def split: option.split)

lemma base_constructor_cases:
  obtains e where "base_constructor X init A cert c = (Inl (InvalidArgs e), c)" "\<not> args_ok X A"
        | k where "args_ok X A" "base_constructor X init A cert c =
            (case init (conn_attributes A) (auth_attributes X A k cert) c of
               (Inl e, d) \<Rightarrow> (Inl (InitFailed e), d) | (Inr _, d) \<Rightarrow> (Inr (), d))"
proof (cases "validate_key X (arg_pkey A)")
  case (Inl e)
  then show ?thesis using that(1)[of e] validate_key_ok[of X "arg_pkey A"]
    by (simp add: base_constructor_def args_ok_def)
next
  case (Inr k)
  then have k: "key_ok X (arg_pkey A)" using validate_key_ok[of X "arg_pkey A"] by simp
  show ?thesis
  proof (cases "validate_api (PBool (arg_keyboard_interactive A)) (password_value (arg_password A))")
    case (Inl e)
    then have "\<not> args_ok X A" by (simp add: validate_api_error truthy_password args_ok_def)
    with Inl \<open>validate_key X (arg_pkey A) = Inr k\<close> show ?thesis using that(1)[of e] by (simp add: base_constructor_def)
  next
    case (Inr u)
    then have "arg_keyboard_interactive A \<longrightarrow> given (arg_password A)"
      by (auto simp: validate_api_def truthy_password split: if_splits)
    with k Inr \<open>validate_key X (arg_pkey A) = Inr k\<close> show ?thesis using that(2)[of k]
      by (simp add: base_constructor_def args_ok_def)
  qed
qed

lemma base_constructorE:
  assumes "base_constructor X init A cert c = (Inr (), d)"
  obtains k where "args_ok X A" "init (conn_attributes A) (auth_attributes X A k cert) c = (Inr (), d)"
  by (rule base_constructor_cases[of X init A cert c]) (use assms that in \<open>auto split: prod.splits sum.splits\<close>)

lemma native_client_atE:
  assumes "native_client_at X N E A endpoint new_client = (Inr (), c)"
  obtains k where "args_ok X A" "native_client_init (conn_attributes A) N (auth_attributes X A k None) E
    (arg_keepalive_seconds A) (fst endpoint) (snd endpoint) new_client = (Inr (), c)"
  using assms unfolding native_client_at_def by (rule base_constructorE) (rule that)

lemma native_client_at_ready:
  assumes "resolves N" "native_client_at X N E A endpoint new_client = (Inr (), c)"
  shows "client_ready N E c \<and> args_ok X A"
  using assms(2) by (rule native_client_atE) (use native_client_ready[OF assms(1)] in blast)

lemma base_constructor_invalid:
  assumes "base_constructor X init A cert c = (Inl (InvalidArgs e), d)"
  shows "d = c \<and> \<not> args_ok X A"
proof (rule base_constructor_cases[of X init A cert c])
  fix k
  assume "base_constructor X init A cert c =
    (case init (conn_attributes A) (auth_attributes X A k cert) c of
       (Inl e, d) \<Rightarrow> (Inl (InitFailed e), d) | (Inr _, d) \<Rightarrow> (Inr (), d))"
  with assms show ?thesis by (simp split: prod.splits sum.splits)
next
  fix e'
  assume "base_constructor X init A cert c = (Inl (InvalidArgs e'), c)" "\<not> args_ok X A"
  with assms show ?thesis by simp
qed

lemma native_client_at_invalid:
  "native_client_at X N E A endpoint c = (Inl (InvalidArgs e), d) \<Longrightarrow> d = c \<and> \<not> args_ok X A"
  unfolding native_client_at_def by (rule base_constructor_invalid)

lemma base_parallel_constructor_Inr:
  assumes "base_parallel_constructor F hs self hcfg is_a_list = Inr c"
  shows "validate_hosts hs = Inr (phosts c) \<and> phost_config c = hcfg \<and> host_clients c = (\<lambda>k. None) \<and>
    check_host_config (phosts c) hcfg is_a_list = Inr () \<and>
    (\<exists>k. validate_pkey (expand F) (exists F) (hc_private_key self) = Inr k \<and> pself c = self\<lparr>hc_private_key := k\<rparr>)"
  using assms by (auto simp: base_parallel_constructor_def split: sum.splits prod.splits)

lemma given_configs:
  assumes "check_host_config hs (Some cfgs) is_a_list = Inr ()"
  shows "length cfgs = length hs"
  using assms by (simp add: check_host_config_def split: if_splits)

lemma native_constructor_ready:
  assumes "resolves N" "resolves NP" "native_constructor X N E NP EP fport A = (Inr (), c, p)"
  shows "client_ready N E c \<and> args_ok X A \<and> (p = None \<longleftrightarrow> arg_proxy_host A = None) \<and>
    (\<forall>q. p = Some q \<longrightarrow> client_ready NP EP q)"
proof (cases "arg_proxy_host A")
  case None
  with assms(3) native_client_at_ready[OF assms(1)] show ?thesis
    by (auto simp: native_constructor_def split: prod.splits)
next
  case (Some proxy)
  let ?B = "proxy_client_args proxy A"
  let ?e1 = "connection_endpoint (arg_host ?B) (arg_port ?B) None None"
  let ?e2 = "connection_endpoint (arg_host A) (arg_port A) (Some ''127.0.0.1'') (Some (int fport))"
  from Some assms(3) have "\<exists>q. p = Some q \<and> native_client_at X NP EP ?B ?e1 new_client = (Inr (), q) \<and>
      native_client_at X N E A ?e2 new_client = (Inr (), c)"
    by (auto simp: native_constructor_def Let_def split: prod.splits sum.splits)
  then obtain q where q: "p = Some q" "native_client_at X NP EP ?B ?e1 new_client = (Inr (), q)"
    "native_client_at X N E A ?e2 new_client = (Inr (), c)" by blast
  from native_client_at_ready[OF assms(1) q(3)] native_client_at_ready[OF assms(2) q(2)] Some q(1)
  show ?thesis by simp
qed

section \<open>Properties\<close>

text \<open>
  C8: When the constructor of the native client returns, the client is connected, authenticated and in
  non-blocking mode, and so is the client of its proxy when it has one; its key, when it is a path,
  exists, and keyboard interactive authentication has a password.
\<close>
theorem native_constructor_gives_ready_clients:
  assumes "resolves N" "resolves NP" "native_constructor X N E NP EP fport A = (Inr (), c, p)"
  shows "client_ready N E c \<and> args_ok X A \<and> (p = None \<longleftrightarrow> arg_proxy_host A = None) \<and>
    (\<forall>q. p = Some q \<longrightarrow> client_ready NP EP q)"
  using assms by (rule native_constructor_ready)

definition plain_args :: client_args where
  "plain_args = \<lparr>arg_host = ''h'', arg_user = Some ''u'', arg_password = Some ''p'', arg_port = None, arg_pkey = NoKey,
     arg_num_retries = 3, arg_allow_agent = True, arg_timeout = None, arg_keepalive_seconds = 60,
     arg_identity_auth = True, arg_ipv6_only = False, arg_compress = False, arg_keyboard_interactive = False,
     arg_proxy_host = None,
     arg_proxy_login = \<lparr>login_port = None, login_pkey = None, login_user = None, login_password = None\<rparr>,
     arg_cert_file = None, arg_gssapi_auth = False, arg_gssapi_server = None, arg_gssapi_client = None\<rparr>"

definition example_home :: surroundings where
  "example_home = \<lparr>expanduser = id, path_exists = (\<lambda>p. p = ''k''), login_name = ''me''\<rparr>"

theorem native_constructor_gives_ready_clients_witness:
  "client_ready shaky example_server
     (fst (snd (native_constructor example_home shaky example_server shaky example_server 5000
       (plain_args\<lparr>arg_proxy_host := Some ''gw''\<rparr>))))"
proof -
  let ?A = "plain_args\<lparr>arg_proxy_host := Some ''gw''\<rparr>"
  let ?r = "native_constructor example_home shaky example_server shaky example_server 5000 ?A"
  have "fst ?r = Inr ()" by code_simp
  then have e: "?r = (Inr (), fst (snd ?r), snd (snd ?r))" by (simp add: prod_eq_iff)
  have "resolves shaky" by (simp add: shaky_def one_host_def resolves_def)
  from native_constructor_gives_ready_clients[OF this this e] show ?thesis
    by blast
qed

text \<open>
  C27: Without a proxy, a key path that does not exist, or keyboard interactive authentication without
  a password, is the only reason for the constructor to reject its arguments, and it does so before
  anything is sent: the client is as it was made.
\<close>
theorem invalid_arguments_are_rejected_first:
  assumes "arg_proxy_host A = None"
  shows "if args_ok X A
    then \<forall>e. fst (native_constructor X N E NP EP fport A) \<noteq> Inl (InvalidArgs e)
    else \<exists>e. native_constructor X N E NP EP fport A = (Inl (InvalidArgs e), new_client, None)"
proof -
  define r where "r = native_client_at X N E A (connection_endpoint (arg_host A) (arg_port A) None (login_port (arg_proxy_login A))) new_client"
  have c: "native_constructor X N E NP EP fport A = (fst r, snd r, None)"
    using assms by (simp add: native_constructor_def r_def split_beta)
  show ?thesis
  proof (cases "args_ok X A")
    case True
    then have "fst r \<noteq> Inl (InvalidArgs e)" for e
      using native_client_at_invalid[of X N E A _ new_client e "snd r"] unfolding r_def by (metis prod.collapse)
    with True c show ?thesis by simp
  next
    case False
    obtain e where "r = (Inl (InvalidArgs e), new_client)"
      unfolding r_def native_client_at_def by (rule base_constructor_cases) (use False in auto)
    with False c show ?thesis by simp
  qed
qed

theorem invalid_arguments_are_rejected_first_witness:
  "\<exists>e. native_constructor example_home shaky example_server shaky example_server 5000
     (plain_args\<lparr>arg_pkey := KeyPath ''gone''\<rparr>) = (Inl (InvalidArgs e), new_client, None)"
proof -
  let ?A = "plain_args\<lparr>arg_pkey := KeyPath ''gone''\<rparr>"
  have "\<not> args_ok example_home ?A" by code_simp
  moreover have "arg_proxy_host ?A = None" by (simp add: plain_args_def)
  ultimately show ?thesis
    using invalid_arguments_are_rejected_first[of ?A example_home shaky example_server shaky example_server 5000] by simp
qed

text \<open>
  A parallel client whose constructor returns has the hosts it was given, no clients yet, and a
  configuration for each of its hosts: the one that was given for it, or one made from its own
  attributes when these have the types that \<open>HostConfig\<close> asks for.
\<close>
theorem parallel_client_is_configured:
  assumes "native_parallel_constructor F hs self hcfg is_a_list = Inr c \<or>
      ssh_parallel_constructor F hs self hcfg is_a_list = Inr c"
    "hcfg = None \<longrightarrow> well_typed (own_config (pself c))"
  shows "configured c \<and> clients_ok c \<and> validate_hosts hs = Inr (phosts c) \<and> phost_config c = hcfg"
proof -
  from assms(1) obtain self' c0 where "base_parallel_constructor F hs self' hcfg is_a_list = Inr c0"
    "phosts c = phosts c0" "phost_config c = phost_config c0" "host_clients c = host_clients c0"
    by (auto simp: native_parallel_constructor_def ssh_parallel_constructor_def split: sum.splits prod.splits)
  with base_parallel_constructor_Inr have b: "validate_hosts hs = Inr (phosts c)" "phost_config c = hcfg"
    "host_clients c = (\<lambda>k. None)" "check_host_config (phosts c) hcfg is_a_list = Inr ()" by metis+
  have "configured c"
  proof (cases hcfg)
    case None
    then have "make_host_config (own_config (pself c)) = Inr (own_config (pself c))"
      using assms(2) by (simp add: make_host_config_ok) (simp add: own_config_def)
    with None b(2) show ?thesis by (simp add: configured_def get_host_config_def)
  next
    case (Some cfgs)
    with b(2,4) given_configs[of "phosts c" cfgs is_a_list] show ?thesis
      by (simp add: configured_def get_host_config_def)
  qed
  with b show ?thesis by (simp add: clients_ok_def)
qed

theorem parallel_client_is_configured_witness:
  "\<exists>c :: nat pclient. native_parallel_constructor no_files (HList [''a'', ''b'']) default_config None True = Inr c \<and> configured c"
proof -
  define c :: "nat pclient" where
    "c = projr (native_parallel_constructor no_files (HList [''a'', ''b'']) default_config None True)"
  have e: "native_parallel_constructor no_files (HList [''a'', ''b'']) default_config None True = Inr c"
    unfolding c_def
    by (simp add: native_parallel_constructor_def base_parallel_constructor_def validate_hosts_def validate_pkey_def
        validate_api_def check_host_config_def default_config_def)
  have "pself c = default_config\<lparr>hc_auth_thread_pool := PBool True, hc_gssapi_auth := PBool False,
      hc_gssapi_delegate_credentials := PBool False\<rparr>"
    unfolding c_def
    by (simp add: native_parallel_constructor_def base_parallel_constructor_def validate_hosts_def validate_pkey_def
        validate_api_def check_host_config_def default_config_def)
  then have "well_typed (own_config (pself c))"
    by (simp add: well_typed_def field_types_def fails_def default_config_def own_config_def)
  with parallel_client_is_configured[of no_files "HList [''a'', ''b'']" default_config None True c] e show ?thesis by blast
qed

end
