(* ===== verification/Py_Text.thy ===== *)
theory Py_Text
  imports Py_Strings Py_Values
begin

text \<open>
  The methods of \<open>str\<close> and the parts of \<open>os.path\<close> that computing the version uses: stripping,
  splitting, searching, replacing, and reading a number.  A character is one of 256: of these
  only \<open>0\<close> to \<open>9\<close> match \<open>\d\<close>, and the white space is Python's.
\<close>

section \<open>Characters\<close>

definition is_space :: "char \<Rightarrow> bool" where
  "is_space c =
     (let n = of_char c :: nat
      in (9 \<le> n \<and> n \<le> 13) \<or> (28 \<le> n \<and> n \<le> 32) \<or> n = 133 \<or> n = 160)"

definition is_ascii_space :: "char \<Rightarrow> bool" where
  "is_ascii_space c = (let n = of_char c :: nat in (9 \<le> n \<and> n \<le> 13) \<or> n = 32)"

definition is_digit :: "char \<Rightarrow> bool" where
  "is_digit c = (let n = of_char c :: nat in 48 \<le> n \<and> n \<le> 57)"

definition is_hex :: "char \<Rightarrow> bool" where
  "is_hex c = (is_digit c \<or> (let n = of_char c :: nat in 97 \<le> n \<and> n \<le> 102))"

definition is_line_break :: "char \<Rightarrow> bool" where
  "is_line_break c =
     (let n = of_char c :: nat in (10 \<le> n \<and> n \<le> 13) \<or> (28 \<le> n \<and> n \<le> 30) \<or> n = 133)"

section \<open>Prefixes, suffixes and searching\<close>

definition has_prefix :: "string \<Rightarrow> string \<Rightarrow> bool" where
  "has_prefix p s = (take (length p) s = p)"

definition has_suffix :: "string \<Rightarrow> string \<Rightarrow> bool" where
  "has_suffix p s = has_prefix (rev p) (rev s)"

text \<open>\<open>s.rindex(p)\<close>, \<open>None\<close> for the \<open>ValueError\<close>.\<close>

definition rindex_str :: "string \<Rightarrow> string \<Rightarrow> nat option" where
  "rindex_str p s =
     (case filter (\<lambda>i. has_prefix p (drop i s)) (rev [0..<Suc (length s)]) of
        [] \<Rightarrow> None | i # _ \<Rightarrow> Some i)"

lemma has_prefix_append [simp]: "has_prefix p (p @ s)"
  by (simp add: has_prefix_def)

lemma has_prefix_Nil [simp]: "has_prefix [] s"
  by (simp add: has_prefix_def)

lemma has_prefixE:
  assumes "has_prefix p s"
  obtains r where "s = p @ r"
  using assms that[of "drop (length p) s"] by (metis append_take_drop_id has_prefix_def)

lemma has_suffix_append [simp]: "has_suffix p (s @ p)"
  by (simp add: has_suffix_def)

lemma has_suffix_last: "has_suffix p s \<Longrightarrow> p \<noteq> [] \<Longrightarrow> s \<noteq> [] \<and> last s = last p"
  unfolding has_suffix_def by (elim has_prefixE) (metis append_is_Nil_conv last_append rev_append rev_rev_ident)

lemma has_prefix_length: "has_prefix p s \<Longrightarrow> length p \<le> length s"
  by (elim has_prefixE) simp

lemma rindex_suffix: "p \<noteq> [] \<Longrightarrow> rindex_str p (s @ p) = Some (length s)"
proof -
  assume p: "p \<noteq> []"
  let ?n = "length s" and ?m = "length (s @ p)"
  have "[0..<Suc ?m] = [0..<Suc ?n] @ [Suc ?n..<Suc ?m]"
    using upt_add_eq_append[of 0 "Suc ?n" "length p"] by simp
  then have split: "rev [0..<Suc ?m] = rev [Suc ?n..<Suc ?m] @ rev [0..<Suc ?n]"
    by (simp only: rev_append)
  have "\<not> has_prefix p (drop i (s @ p))" if "i \<in> set (rev [Suc ?n..<Suc ?m])" for i
    using that p has_prefix_length[of p "drop i (s @ p)"] by (cases p) auto
  then have "filter (\<lambda>i. has_prefix p (drop i (s @ p))) (rev [Suc ?n..<Suc ?m]) = []"
    by (simp only: filter_empty_conv) blast
  moreover have "filter (\<lambda>i. has_prefix p (drop i (s @ p))) (rev [0..<Suc ?n]) =
      ?n # filter (\<lambda>i. has_prefix p (drop i (s @ p))) (rev [0..<?n])"
    using has_prefix_append[of p "[]"] by simp
  ultimately show ?thesis by (simp only: rindex_str_def split filter_append) simp
qed

section \<open>Stripping, splitting and replacing\<close>

definition rstrip_of :: "(char \<Rightarrow> bool) \<Rightarrow> string \<Rightarrow> string" where
  "rstrip_of P s = rev (dropWhile P (rev s))"

definition strip_of :: "(char \<Rightarrow> bool) \<Rightarrow> string \<Rightarrow> string" where
  "strip_of P s = rstrip_of P (dropWhile P s)"

abbreviation strip :: "string \<Rightarrow> string" where
  "strip \<equiv> strip_of is_space"

text \<open>\<open>s.splitlines()\<close>, \<open>s.split()\<close> and \<open>s.split(sep)\<close> for a separator that is not empty.\<close>

function splitlines_from :: "string \<Rightarrow> string \<Rightarrow> string list" where
  "splitlines_from cur [] = (if cur = [] then [] else [cur])"
| "splitlines_from cur (c # cs) =
     (if c = CHR 0x0D then cur # splitlines_from [] (if take 1 cs = [CHR 0x0A] then drop 1 cs else cs)
      else if is_line_break c then cur # splitlines_from [] cs
      else splitlines_from (cur @ [c]) cs)"
  by pat_completeness auto
termination by (relation "measure (\<lambda>(_, s). length s)") auto

definition splitlines :: "string \<Rightarrow> string list" where
  "splitlines s = splitlines_from [] s"

fun split_words_from :: "string \<Rightarrow> string \<Rightarrow> string list" where
  "split_words_from cur [] = (if cur = [] then [] else [cur])"
| "split_words_from cur (c # cs) =
     (if is_space c then (if cur = [] then split_words_from [] cs else cur # split_words_from [] cs)
      else split_words_from (cur @ [c]) cs)"

definition split_words :: "string \<Rightarrow> string list" where
  "split_words s = split_words_from [] s"

function split_str_from :: "string \<Rightarrow> string \<Rightarrow> string \<Rightarrow> string list" where
  "split_str_from sep cur [] = [cur]"
| "split_str_from sep cur (c # cs) =
     (if has_prefix sep (c # cs) then cur # split_str_from sep [] (drop (length sep - 1) cs)
      else split_str_from sep (cur @ [c]) cs)"
  by pat_completeness auto
termination by (relation "measure (\<lambda>(_, _, s). length s)") auto

definition split_str :: "string \<Rightarrow> string \<Rightarrow> string list" where
  "split_str sep s = split_str_from sep [] s"

text \<open>\<open>s.replace(c, r, 1)\<close> for a character \<open>c\<close>.\<close>

fun replace_first :: "char \<Rightarrow> string \<Rightarrow> string \<Rightarrow> string" where
  "replace_first c r [] = []"
| "replace_first c r (x # xs) = (if x = c then r @ xs else x # replace_first c r xs)"

lemma strip_id:
  assumes "\<And>c. c \<in> set s \<Longrightarrow> \<not> P c"
  shows "strip_of P s = s"
proof -
  have "dropWhile P s = s" "dropWhile P (rev s) = rev s"
    using assms by (auto simp: dropWhile_eq_self_iff hd_rev)
  then show ?thesis by (simp add: strip_of_def rstrip_of_def)
qed

lemma split_words_from_id:
  "(\<And>c. c \<in> set s \<Longrightarrow> \<not> is_space c) \<Longrightarrow> split_words_from cur s = (if cur @ s = [] then [] else [cur @ s])"
  by (induction s arbitrary: cur) auto

section \<open>Numbers\<close>

definition digit_value :: "char \<Rightarrow> nat" where
  "digit_value c = of_char c - 48"

text \<open>
  \<open>int(s)\<close>: white space around, a sign, digits with single underscores between them; \<open>None\<close> for
  the \<open>ValueError\<close>.  (Python refuses more than 4300 digits: not modelled.)
\<close>

fun int_digits :: "bool \<Rightarrow> nat \<Rightarrow> string \<Rightarrow> nat option" where
  "int_digits after_digit n [] = (if after_digit then Some n else None)"
| "int_digits after_digit n (c # cs) =
     (if is_digit c then int_digits True (n * 10 + digit_value c) cs
      else if c = CHR ''_'' \<and> after_digit then int_digits False n cs
      else None)"

definition py_int :: "string \<Rightarrow> int option" where
  "py_int s =
     (case strip s of
        [] \<Rightarrow> None
      | c # cs \<Rightarrow>
          if c = CHR ''-'' then map_option (\<lambda>n. - int n) (int_digits False 0 cs)
          else if c = CHR ''+'' then map_option int (int_digits False 0 cs)
          else map_option int (int_digits False 0 (c # cs)))"

lemma of_char_digit: "d < 10 \<Longrightarrow> (of_char (digit d) :: nat) = 48 + d"
  by (simp add: digit_def)

lemma is_digit_digit [simp]: "d < 10 \<Longrightarrow> is_digit (digit d)"
  by (simp add: is_digit_def of_char_digit)

lemma digit_value_digit [simp]: "d < 10 \<Longrightarrow> digit_value (digit d) = d"
  by (simp add: digit_value_def of_char_digit)

lemma dec_nat_digits: "c \<in> set (dec_nat n) \<Longrightarrow> is_digit c"
  by (induction n rule: dec_nat.induct) (subst (asm) (2) dec_nat.simps, auto split: if_splits)

lemma dec_nat_nonempty [simp]: "dec_nat n \<noteq> []"
  by (subst dec_nat.simps) simp

lemma int_digits_append:
  "(\<And>c. c \<in> set s \<Longrightarrow> is_digit c) \<Longrightarrow> s \<noteq> [] \<Longrightarrow>
   int_digits b n (s @ t) = int_digits True (fold (\<lambda>c m. m * 10 + digit_value c) s n) t"
  by (induction s arbitrary: b n) (auto, metis append_Nil fold_simps(1))

lemma fold_dec_nat: "fold (\<lambda>c m. m * 10 + digit_value c) (dec_nat n) 0 = n"
proof (induction n rule: dec_nat.induct)
  case (1 n)
  then show ?case by (cases "n < 10") (simp_all add: dec_nat.simps[of n])
qed

lemma int_digits_dec_nat [simp]: "int_digits False 0 (dec_nat n) = Some n"
  using int_digits_append[of "dec_nat n" False 0 "[]"] by (simp add: dec_nat_digits fold_dec_nat)

lemma is_digit_not_space: "is_digit c \<Longrightarrow> \<not> is_space c"
  by (auto simp: is_digit_def is_space_def Let_def)

lemma is_hex_not_space: "is_hex c \<Longrightarrow> \<not> is_space c"
  by (auto simp: is_hex_def is_digit_def is_space_def Let_def)

lemma py_int_dec_nat: "py_int (dec_nat n) = Some (int n)"
proof -
  obtain c cs where d: "dec_nat n = c # cs" by (cases "dec_nat n") auto
  have "strip (dec_nat n) = dec_nat n" by (rule strip_id) (metis dec_nat_digits is_digit_not_space)
  moreover have "c \<noteq> CHR ''-''" "c \<noteq> CHR ''+''"
    using dec_nat_digits[of c n] by (auto simp: d is_digit_def)
  ultimately show ?thesis using int_digits_dec_nat[of n] by (simp add: py_int_def d)
qed

lemma dec_nat_inject [simp]: "dec_nat m = dec_nat n \<longleftrightarrow> m = n"
  by (metis int_digits_dec_nat option.inject)

section \<open>Directories\<close>

definition path_basename :: "string \<Rightarrow> string" where
  "path_basename p = drop (nat (rfind SLASH p + 1)) p"

definition path_dirname :: "string \<Rightarrow> string" where
  "path_dirname p =
     (let head = take (nat (rfind SLASH p + 1)) p
      in if head \<noteq> [] \<and> head \<noteq> replicate (length head) SLASH then rstrip_of (\<lambda>c. c = SLASH) head else head)"

lemma path_basename_join: "SLASH \<notin> set b \<Longrightarrow> path_basename (a @ SLASH # b) = b"
  by (simp add: path_basename_def rfind_split nat_add_distrib)

lemma path_dirname_join:
  assumes "SLASH \<notin> set b" "a \<noteq> []" "last a \<noteq> SLASH"
  shows "path_dirname (a @ SLASH # b) = a"
proof -
  have "a @ [SLASH] \<noteq> replicate (length (a @ [SLASH])) SLASH"
    using assms(2,3) by (metis in_set_replicate last_in_set set_append UnI1)
  moreover have "rstrip_of (\<lambda>c. c = SLASH) (a @ [SLASH]) = a"
    using assms(2,3) by (cases a rule: rev_cases) (simp_all add: rstrip_of_def)
  ultimately show ?thesis
    using assms(1) by (simp add: path_dirname_def rfind_split nat_add_distrib Let_def)
qed

end
