(* ===== verification/Host_Output.thy ===== *)
theory Host_Output
  imports Commands Output_Lines RW_Buffer Py_Text
begin

text \<open>
  \<open>HostOutput\<close> of \<open>pssh/output.py\<close> as its users read it: the properties \<open>stdout\<close> and \<open>stderr\<close>, which
  iterate over the buffers through \<open>read_output\<close>, \<open>read_stderr\<close> and \<open>read_output_buffer\<close>, and reading
  on after a timeout.
\<close>

section \<open>The streams\<close>

datatype 'e stream_error = StreamTimeout | NotDecoded 'e

text \<open>
  A property access makes a new generator over what is in the buffer then.  The generator that decodes
  sits on the one that cuts the lines: a line that cannot be decoded ends both, and a timeout
  comes through after the lines before it.
\<close>

definition read_stream ::
  "find_eol \<Rightarrow> (bytes \<Rightarrow> 'e + string) \<Rightarrow> string \<Rightarrow> string \<Rightarrow> bytes list \<Rightarrow> bool
     \<Rightarrow> (string list \<times> string list \<times> ('e stream_error + unit)) option" where
  "read_stream f decode host prefix chunks timed_out =
     map_option (\<lambda>(ls, ended).
       (let log = read_output_buffer decode host prefix False ls in
        (outputs log, host_log log,
         (case failure log of
            Some e \<Rightarrow> Inl (NotDecoded e)
          | None \<Rightarrow> (case ended of Inl _ \<Rightarrow> Inl StreamTimeout | Inr _ \<Rightarrow> Inr ())))))
     (read_output_lines f chunks timed_out)"

definition err_prefix :: string where
  "err_prefix = [CHR 0x09] @ ''[err]''"

section \<open>The text of an output\<close>

text \<open>
  \<open>__repr__\<close> and \<open>__str__\<close>: the attributes in this order, each as \<open>str.format\<close> prints it, on a line of
  its own; asking for the text asks the channel for the exit code.
\<close>

definition repr_fields :: "(string \<times> pyval) list \<Rightarrow> string list" where
  "repr_fields xs = map (\<lambda>(name, v). CHR 0x09 # name @ ''='' @ py_str v) xs"

definition exit_value :: "int option \<Rightarrow> pyval" where
  "exit_value code = (case code of None \<Rightarrow> PNone | Some i \<Rightarrow> PInt i)"

definition output_repr ::
  "pyval \<Rightarrow> pyval \<Rightarrow> int option \<Rightarrow> pyval \<Rightarrow> pyval \<Rightarrow> pyval \<Rightarrow> pyval \<Rightarrow> pyval \<Rightarrow> string" where
  "output_repr h alias code channel exc encoding read_timeout command =
     join_with LF (repr_fields
       [(''host'', h), (''alias'', alias), (''exit_code'', exit_value code), (''channel'', channel),
        (''exception'', exc), (''encoding'', encoding), (''read_timeout'', read_timeout),
        (''fully_qualified_command'', command)])"

lemma repr_fields_no_LF:
  "list_all (\<lambda>(name, v). LF \<notin> set name \<and> LF \<notin> set (py_str v)) xs \<Longrightarrow> r \<in> set (repr_fields xs) \<Longrightarrow> LF \<notin> set r"
  unfolding repr_fields_def list_all_iff by fastforce

lemma repr_lines:
  assumes "\<And>v. v \<in> {h, alias, channel, exc, encoding, read_timeout, command} \<Longrightarrow> LF \<notin> set (py_str v)"
  shows "split_on LF (output_repr h alias code channel exc encoding read_timeout command) =
    repr_fields
       [(''host'', h), (''alias'', alias), (''exit_code'', exit_value code), (''channel'', channel),
        (''exception'', exc), (''encoding'', encoding), (''read_timeout'', read_timeout),
        (''fully_qualified_command'', command)]"
proof -
  have "LF \<notin> set (dec_nat n)" for n
    using dec_nat_digits[of LF n] by (auto simp: is_digit_def)
  then have "LF \<notin> set (py_str (exit_value code))"
    by (simp add: exit_value_def py_str_def dec_int_def split: option.split)
  with assms show ?thesis
    unfolding output_repr_def
    by (intro split_join, elim repr_fields_no_LF[rotated]) (simp_all add: repr_fields_def)
qed

section \<open>The streams of an output\<close>

text \<open>\<open>None\<close> is the property of an output that has no client.\<close>

definition host_stdout where
  "host_stdout f decode out chunks timed_out =
     (if \<not> ho_client out then None else Some (read_stream f decode (ho_host out) [] chunks timed_out))"

definition host_stderr where
  "host_stderr f decode out chunks timed_out =
     (if \<not> ho_client out then None else Some (read_stream f decode (ho_host out) err_prefix chunks timed_out))"

text \<open>
  The chunks that an iteration over the buffer gets, from the answers of its turns.
\<close>

fun chunks_of :: "buffer_answer list \<Rightarrow> bytes list" where
  "chunks_of [] = []"
| "chunks_of (GotNext (Yield d) # as) = d # chunks_of as"
| "chunks_of (_ # as) = chunks_of as"

text \<open>
  Reading twice: the bytes of \<open>first\<close> are in the buffer when the first iteration begins, which waits
  for more until it times out; those of \<open>later\<close> and the end come before the second iteration.
\<close>

definition before_timeout :: "bytes list \<Rightarrow> buffer_op list" where
  "before_timeout first = map OpWrite first @ [OpNext, OpNext]"

definition after_timeout :: "bytes list \<Rightarrow> buffer_op list" where
  "after_timeout later = map OpWrite later @ [OpEof, OpNext, OpNext]"

definition read_twice ::
  "find_eol \<Rightarrow> bytes list \<Rightarrow> bytes list \<Rightarrow> (bytes list \<times> (read_error + unit)) option \<times> (bytes list \<times> (read_error + unit)) option" where
  "read_twice f first later =
     (let (before, b) = run_ops buffer_step (before_timeout first) new_buffer;
          (after, b') = run_ops buffer_step (after_timeout later) b
      in (read_output_lines f (chunks_of before) True, read_output_lines f (chunks_of after) False))"

section \<open>Lines before and after a cut\<close>

lemma split_lf_snd_notin: "LF \<notin> set acc \<Longrightarrow> LF \<notin> set (snd (split_lf acc bs))"
  by (induction acc bs rule: split_lf.induct) auto

lemma split_lf_append:
  "split_lf acc (xs @ ys) =
     (fst (split_lf acc xs) @ fst (split_lf (snd (split_lf acc xs)) ys), snd (split_lf (snd (split_lf acc xs)) ys))"
  by (induction acc xs rule: split_lf.induct) auto

lemma split_lf_acc: "LF \<notin> set r \<Longrightarrow> split_lf r ys = split_lf [] (r @ ys)"
  by (simp add: split_lf_append split_lf_rest)

lemma lines_of_append:
  "lines_of (xs @ ys) = fst (split_lf [] xs) @ lines_of (snd (split_lf [] xs) @ ys)"
proof -
  have "LF \<notin> set (snd (split_lf [] xs))" by (rule split_lf_snd_notin) simp
  then have "split_lf [] (snd (split_lf [] xs) @ ys) = split_lf (snd (split_lf [] xs)) ys" by (rule split_lf_acc[symmetric])
  then show ?thesis by (simp add: lines_of_def split_lf_append with_rest_def split: prod.split)
qed

lemma concat_split_lf: "concat (fst (split_lf acc bs)) @ snd (split_lf acc bs) = acc @ filter (\<lambda>c. c \<noteq> LF) bs"
  by (induction acc bs rule: split_lf.induct) auto

lemma concat_lines_of: "concat (lines_of bs) = filter (\<lambda>c. c \<noteq> LF) bs"
  using concat_split_lf[of "[]" bs] by (auto simp: lines_of_def with_rest_def split: prod.split)

lemma lines_of_prefix:
  assumes "LF \<notin> set r" "r \<noteq> []"
  shows "lines_of ys \<noteq> lines_of (r @ ys)"
proof
  assume "lines_of ys = lines_of (r @ ys)"
  then have "length (concat (lines_of ys)) = length (concat (lines_of (r @ ys)))" by simp
  moreover have "filter (\<lambda>c. c \<noteq> LF) r = r" using assms(1) by (auto simp: filter_id_conv)
  ultimately show False using assms(2) by (simp add: concat_lines_of)
qed

lemma read_output_lines_timeout:
  assumes "finds_eol f" "CR \<notin> set (concat chunks)"
  shows "read_output_lines f chunks True = Some (fst (split_lf [] (concat chunks)), Inl ReadTimeout)"
proof -
  obtain ls r where c: "cuts (concat chunks) ls r" "read_output_lines f chunks True = Some (ls, Inl ReadTimeout)"
    by (rule read_output_lines_cuts[OF assms(1)])
  from cuts_split_lf[OF c(1) assms(2)] c(2) show ?thesis by simp
qed

section \<open>What the two iterations get\<close>

lemma run_ops_append:
  "run_ops step (xs @ ys) s =
     (case run_ops step xs s of (as, t) \<Rightarrow> apfst (\<lambda>bs. as @ bs) (run_ops step ys t))"
  by (induction xs arbitrary: s) (auto split: prod.splits simp: apfst_def map_prod_def)

lemma run_writes:
  "run_ops queue_step (map OpWrite ds) (q, ended) = (replicate (length ds) Silent, q @ concat ds, ended)"
  by (induction ds arbitrary: q) auto

lemma chunks_of_silent: "chunks_of (replicate n Silent @ as) = chunks_of as"
  by (induction n) auto

lemma queue_before:
  "run_ops queue_step (before_timeout first) ([], False) =
     (replicate (length first) Silent @ [GotNext (if concat first \<noteq> [] then Yield (concat first) else Wait), GotNext Wait], [], False)"
  by (simp add: before_timeout_def run_ops_append run_writes)

lemma queue_after:
  "run_ops queue_step (after_timeout later) ([], False) =
     (replicate (length later) Silent @
      [Silent, GotNext (if concat later \<noteq> [] then Yield (concat later) else Stop), GotNext Stop], [], True)"
  by (simp add: after_timeout_def run_ops_append run_writes)

lemma read_twice_queue:
  "read_twice f first later =
    (read_output_lines f (if concat first \<noteq> [] then [concat first] else []) True,
     read_output_lines f (if concat later \<noteq> [] then [concat later] else []) False)"
proof -
  obtain before b where b: "run_ops buffer_step (before_timeout first) new_buffer = (before, b)" by force
  obtain after b' where b': "run_ops buffer_step (after_timeout later) b = (after, b')" by force
  from b queue_before[of first] run_ops_new_buffer[of "before_timeout first"]
  have before: "before = replicate (length first) Silent @
      [GotNext (if concat first \<noteq> [] then Yield (concat first) else Wait), GotNext Wait]" "queue_of b = ([], False)"
    by simp_all
  have "run_ops queue_step (before_timeout first @ after_timeout later) ([], False) =
      map_prod id queue_of (run_ops buffer_step (before_timeout first @ after_timeout later) new_buffer)"
    by (rule run_ops_new_buffer)
  with b b' before queue_before[of first] queue_after[of later]
  have after: "after = replicate (length later) Silent @
      [Silent, GotNext (if concat later \<noteq> [] then Yield (concat later) else Stop), GotNext Stop]"
    by (simp add: run_ops_append)
  show ?thesis by (simp add: read_twice_def b b' before(1) after chunks_of_silent)
qed

section \<open>Properties\<close>

text \<open>
  C29: Reading on after a timeout loses what was read of the line that had begun: the lines of both
  iterations are the complete lines of what came before the timeout and the lines of what came
  after it, and when the timeout was inside a line, these are not the lines of the output.
\<close>
theorem timeout_loses_the_begun_line:
  assumes "finds_eol f" "CR \<notin> set (concat first @ concat later)"
  shows "\<exists>ls1 ls2. read_twice f first later = (Some (ls1, Inl ReadTimeout), Some (ls2, Inr ())) \<and>
    ls1 = fst (split_lf [] (concat first)) \<and> ls2 = lines_of (concat later) \<and>
    lines_of (concat first @ concat later) = ls1 @ lines_of (snd (split_lf [] (concat first)) @ concat later) \<and>
    (snd (split_lf [] (concat first)) \<noteq> [] \<longrightarrow> ls1 @ ls2 \<noteq> lines_of (concat first @ concat later))"
proof -
  let ?r = "snd (split_lf [] (concat first))"
  have r: "LF \<notin> set ?r" by (rule split_lf_snd_notin) simp
  note lost = lines_of_prefix[OF r, of "concat later"]
  have "read_output_lines f (if d \<noteq> [] then [d] else []) True = Some (fst (split_lf [] d), Inl ReadTimeout)"
    "read_output_lines f (if d \<noteq> [] then [d] else []) False = Some (lines_of d, Inr ())" if "CR \<notin> set d" for d
    using read_output_lines_timeout[OF assms(1), of "if d \<noteq> [] then [d] else []"]
      read_output_lines_lf[OF assms(1), of "if d \<noteq> [] then [d] else []"] that
    by (cases d; simp)+
  with assms(2) have "read_twice f first later =
      (Some (fst (split_lf [] (concat first)), Inl ReadTimeout), Some (lines_of (concat later), Inr ()))"
    unfolding read_twice_queue by (metis UnCI set_append)
  with lost show ?thesis unfolding lines_of_append[of "concat first" "concat later"] by simp
qed

theorem timeout_loses_the_begun_line_witness:
  "read_twice find_lf [''one'' @ [LF] @ ''tw''] [''o'' @ [LF]] = (Some ([''one''], Inl ReadTimeout), Some ([''o''], Inr ())) \<and>
   lines_of (''one'' @ [LF] @ ''two'' @ [LF]) = [''one'', ''two'']"
proof -
  have "split_lf [] (''one'' @ [LF] @ ''tw'') = ([''one''], ''tw'')" "lines_of (''o'' @ [LF]) = [''o'']"
    "lines_of (''one'' @ [LF] @ ''two'' @ [LF]) = [''one'', ''two'']" by code_simp+
  with timeout_loses_the_begun_line[OF finds_eol_find_lf, of "[''one'' @ [LF] @ ''tw'']" "[''o'' @ [LF]]"]
  show ?thesis by simp
qed

text \<open>
  The two properties of an output yield the decoded lines of their stream, and the complete lines
  when reading times out; both log every line they yield, the lines of the error stream with their
  mark.  An output without a client has neither.
\<close>
theorem streams_of_host_output:
  assumes "finds_eol f" "CR \<notin> set (concat chunks)" "\<And>l. decode l = Inr (g l)"
  shows "host_stdout f decode out chunks timed_out =
      (if \<not> ho_client out then None
       else let ls = (if timed_out then fst (split_lf [] (concat chunks)) else lines_of (concat chunks))
            in Some (Some (map g ls, map (\<lambda>l. ''['' @ ho_host out @ '']'' @ [CHR 0x09] @ g l) ls,
                     if timed_out then Inl StreamTimeout else Inr ()))) \<and>
    host_stderr f decode out chunks timed_out =
      (if \<not> ho_client out then None
       else let ls = (if timed_out then fst (split_lf [] (concat chunks)) else lines_of (concat chunks))
            in Some (Some (map g ls, map (\<lambda>l. ''['' @ ho_host out @ '']'' @ [CHR 0x09] @ ''[err]'' @ [CHR 0x09] @ g l) ls,
                     if timed_out then Inl StreamTimeout else Inr ())))"
  using read_output_lines_timeout[OF assms(1,2)] read_output_lines_lf[OF assms(1,2)] read_output_buffer_decoded[of _ decode g, OF assms(3)]
  by (simp add: host_stdout_def host_stderr_def read_stream_def err_prefix_def Let_def)

end
