(* ===== verification/Housekeeping.thy ===== *)
theory Housekeeping
  imports Polling
begin

text \<open>
  What runs beside the clients: the greenlet of \<open>KeepAlive\<close> in \<open>pssh/clients/native/single.py\<close>, and the
  loggers that \<open>pssh/__init__.py\<close> makes and \<open>pssh/utils.py\<close> enables.
\<close>

section \<open>Keep-alives\<close>

text \<open>
  \<open>_send_keepalive\<close>: \<open>gone\<close> is the test of the session and the socket, \<open>send\<close> the call of
  \<open>keepalive_send\<close> through \<open>eagain\<close>, which answers how long to sleep.
\<close>

partial_function (option) send_keepalive ::
  "('s \<Rightarrow> bool) \<Rightarrow> ('s \<Rightarrow> (('e + int) \<times> 's) option) \<Rightarrow> (int \<Rightarrow> 's \<Rightarrow> 's) \<Rightarrow> 's \<Rightarrow> (('e + unit) \<times> 's) option" where
  "send_keepalive gone send sleep s =
     (if gone s then Some (Inr (), s)
      else (case send s of
              None \<Rightarrow> None
            | Some (r, s1) \<Rightarrow>
                (case r of
                   Inl e \<Rightarrow> Some (Inl e, s1)
                 | Inr sleep_for \<Rightarrow> send_keepalive gone send sleep (sleep sleep_for s1))))"

text \<open>
  A session with a clock, whose interval is \<open>interval\<close> seconds and which asks for every call to be
  repeated \<open>busy\<close> times; the socket is closed at \<open>closes_at\<close>.
\<close>

record keep_state =
  now :: nat
  again :: nat
  sent_at :: "nat list"

definition keepalive_send :: "nat \<Rightarrow> nat \<Rightarrow> int \<Rightarrow> (keep_state, 'e, int) prog" where
  "keepalive_send interval busy eagain s =
     (if again s < busy then (Inr eagain, s\<lparr>again := Suc (again s)\<rparr>)
      else (Inr (int interval), s\<lparr>again := 0, sent_at := sent_at s @ [now s]\<rparr>))"

definition sleep_seconds :: "int \<Rightarrow> keep_state \<Rightarrow> keep_state" where
  "sleep_seconds n s = s\<lparr>now := now s + nat n\<rparr>"

definition keepalive_greenlet :: "nat \<Rightarrow> nat \<Rightarrow> int \<Rightarrow> nat \<Rightarrow> keep_state \<Rightarrow> (('e + unit) \<times> keep_state) option" where
  "keepalive_greenlet interval busy eagain closes_at =
     send_keepalive (\<lambda>s. closes_at \<le> now s)
       (eagain_errcode (keepalive_send interval busy eagain) eagain (return ()) (return ())) sleep_seconds"

section \<open>Loggers\<close>

text \<open>
  A handler of the logging module.  A \<open>FileHandler\<close> is a \<open>StreamHandler\<close> to \<open>isinstance\<close>; a
  \<open>StreamHandler\<close> made without a stream writes to the standard error.
\<close>

datatype stream = StdOut | StdErr

datatype handler = NullHandler | StreamHandler stream string | FileHandler string

definition is_stream_handler :: "handler \<Rightarrow> bool" where
  "is_stream_handler h \<longleftrightarrow> (case h of NullHandler \<Rightarrow> False | _ \<Rightarrow> True)"

record logger =
  level :: nat
  handlers :: "handler list"

definition INFO :: nat where "INFO = 20"
definition DEBUG :: nat where "DEBUG = 10"

definition log_format :: string where
  "log_format = ''%(asctime)s %(levelname)-8s %(name)-15s %(message)s''"

text \<open>The result says whether a warning is logged.\<close>

definition enable_logger :: "nat \<Rightarrow> logger \<Rightarrow> bool \<times> logger" where
  "enable_logger lvl lg =
     (let lg = lg\<lparr>level := lvl\<rparr>; stream_handlers = filter is_stream_handler (handlers lg) in
      if stream_handlers \<noteq> [] then (True, lg)
      else (False, lg\<lparr>handlers := handlers lg @ [StreamHandler StdErr log_format]\<rparr>))"

text \<open>The two loggers of the package; the host logger is a child of the other.\<close>

record loggers =
  pssh_logger :: logger
  host_logger :: logger

definition import_pssh :: loggers where
  "import_pssh = \<lparr>pssh_logger = \<lparr>level = 0, handlers = [NullHandler]\<rparr>, host_logger = \<lparr>level = 0, handlers = [NullHandler]\<rparr>\<rparr>"

definition enable_host_logger :: "loggers \<Rightarrow> loggers" where
  "enable_host_logger L = L\<lparr>host_logger := snd (enable_logger INFO (host_logger L))\<rparr>"

definition enable_debug_logger :: "loggers \<Rightarrow> loggers" where
  "enable_debug_logger L = L\<lparr>pssh_logger := snd (enable_logger DEBUG (pssh_logger L))\<rparr>"

text \<open>
  Where the logging module writes a record of the host logger: the level in force is the first that
  is set on the way to the root logger, and every handler on that way gets the record.  The root
  logger has the level \<open>root_level\<close> and the handlers \<open>root_handlers\<close>.
\<close>

definition host_record_goes_to :: "nat \<Rightarrow> handler list \<Rightarrow> loggers \<Rightarrow> nat \<Rightarrow> handler list" where
  "host_record_goes_to root_level root_handlers L lvl =
     (let in_force = (if level (host_logger L) \<noteq> 0 then level (host_logger L)
                      else if level (pssh_logger L) \<noteq> 0 then level (pssh_logger L) else root_level)
      in if in_force \<le> lvl
         then filter (\<lambda>h. h \<noteq> NullHandler) (handlers (host_logger L) @ handlers (pssh_logger L) @ root_handlers)
         else [])"

section \<open>The times of the keep-alives\<close>

lemma eagain_keepalive_loop:
  assumes "int interval \<noteq> eagain" "again s \<le> busy"
  shows "eagain_loop (keepalive_send interval busy eagain) eagain (return ()) (return ()) eagain s =
    Some (Inr (int interval), s\<lparr>again := 0, sent_at := sent_at s @ [now s]\<rparr>)"
  using assms(2)
proof (induction "busy - again s" arbitrary: s)
  case 0
  with assms(1) show ?case
    by (simp add: eagain_loop.simps keepalive_send_def)
next
  case (Suc n)
  then have "n = busy - again (s\<lparr>again := Suc (again s)\<rparr>)" "again (s\<lparr>again := Suc (again s)\<rparr>) \<le> busy" "again s < busy"
    by simp_all
  with Suc.hyps(1)[OF this(1,2)] show ?case
    by (subst eagain_loop.simps) (simp add: keepalive_send_def)
qed

lemma eagain_keepalive:
  assumes "int interval \<noteq> eagain" "again s = 0"
  shows "eagain_errcode (keepalive_send interval busy eagain) eagain (return ()) (return ()) s =
    Some (Inr (int interval), s\<lparr>sent_at := sent_at s @ [now s]\<rparr>)"
proof (cases busy)
  case 0
  with assms show ?thesis by (cases s) (simp add: eagain_errcode_def keepalive_send_def eagain_loop.simps)
next
  case (Suc b)
  with eagain_keepalive_loop[OF assms(1), of "s\<lparr>again := 1\<rparr>" busy] assms(2)
  show ?thesis by (cases s) (simp add: eagain_errcode_def keepalive_send_def)
qed

definition keepalives :: "nat \<Rightarrow> nat \<Rightarrow> nat" where
  "keepalives interval closes_at = (closes_at + interval - 1) div interval"

lemma before_close:
  assumes "0 < interval"
  shows "k * interval < closes_at \<longleftrightarrow> k < keepalives interval closes_at"
proof -
  have "k < keepalives interval closes_at \<longleftrightarrow> Suc k * interval \<le> closes_at + interval - 1"
    unfolding keepalives_def using assms by (metis Suc_le_eq less_eq_div_iff_mult_less_eq)
  also have "\<dots> \<longleftrightarrow> k * interval < closes_at" using assms by auto
  finally show ?thesis by simp
qed

lemma keepalive_greenlet_from:
  assumes "0 < interval" "int interval \<noteq> eagain" "again s = 0" "now s = k * interval"
    "n = keepalives interval closes_at" "k \<le> n"
  shows "(keepalive_greenlet interval busy eagain closes_at s :: (('e + unit) \<times> keep_state) option) =
    Some (Inr (), s\<lparr>now := n * interval, sent_at := sent_at s @ map (\<lambda>i. i * interval) [k..<n]\<rparr>)"
  using assms(3-)
proof (induction "n - k" arbitrary: s k)
  case 0
  then have "k = n" by simp
  with 0 assms(1) before_close[of interval n closes_at] show ?case
    unfolding keepalive_greenlet_def by (subst send_keepalive.simps) auto
next
  case (Suc m)
  let ?s = "s\<lparr>now := Suc k * interval, sent_at := sent_at s @ [k * interval]\<rparr>"
  from Suc have "k < n" and diff: "m = n - Suc k" by linarith+
  with Suc.prems assms(1) before_close[of interval k closes_at] have is_open: "\<not> closes_at \<le> now s" by simp
  have "(keepalive_greenlet interval busy eagain closes_at ?s :: (('e + unit) \<times> keep_state) option) =
      Some (Inr (), ?s\<lparr>now := n * interval, sent_at := sent_at ?s @ map (\<lambda>i. i * interval) [Suc k..<n]\<rparr>)"
    using Suc.hyps(1)[of "Suc k" ?s, OF diff] Suc.prems \<open>k < n\<close> by simp
  moreover have "(keepalive_greenlet interval busy eagain closes_at s :: (('e + unit) \<times> keep_state) option) =
      keepalive_greenlet interval busy eagain closes_at ?s"
    unfolding keepalive_greenlet_def using Suc.prems(1,2) is_open assms(2)
    by (cases s) (subst send_keepalive.simps, simp add: eagain_keepalive sleep_seconds_def add.commute)
  ultimately show ?case using \<open>k < n\<close> by (simp add: upt_conv_Cons)
qed

section \<open>Properties\<close>

text \<open>
  The keep-alive greenlet sends one keep-alive per interval from its start on, however often the
  session asks for the calls to be repeated, and it ends at the first turn after the socket was
  closed.
\<close>
theorem keepalives_until_closed:
  assumes "0 < interval" "int interval \<noteq> eagain"
  shows "\<exists>s. (keepalive_greenlet interval busy eagain closes_at \<lparr>now = 0, again = 0, sent_at = []\<rparr>
      :: (('e + unit) \<times> keep_state) option) = Some (Inr (), s) \<and>
    sent_at s = map (\<lambda>i. i * interval) [0..<keepalives interval closes_at] \<and>
    (\<forall>t \<in> set (sent_at s). t < closes_at) \<and> closes_at \<le> now s \<and> now s < closes_at + interval"
proof -
  let ?n = "keepalives interval closes_at"
  have "?n * interval < closes_at + interval"
  proof (cases ?n)
    case (Suc m)
    with before_close[OF assms(1), of m closes_at] show ?thesis by simp
  qed (use assms(1) in simp)
  moreover have "closes_at \<le> ?n * interval" using before_close[OF assms(1), of ?n closes_at] by simp
  moreover have "\<forall>t \<in> set (map (\<lambda>i. i * interval) [0..<?n]). t < closes_at"
    using before_close[OF assms(1), of _ closes_at] by auto
  moreover have "(keepalive_greenlet interval busy eagain closes_at \<lparr>now = 0, again = 0, sent_at = []\<rparr>
      :: (('e + unit) \<times> keep_state) option) =
      Some (Inr (), \<lparr>now = ?n * interval, again = 0, sent_at = map (\<lambda>i. i * interval) [0..<?n]\<rparr>)"
    using keepalive_greenlet_from[OF assms, of "\<lparr>now = 0, again = 0, sent_at = []\<rparr>" 0 ?n closes_at busy] by simp
  ultimately show ?thesis
    by (intro exI[of _ "\<lparr>now = ?n * interval, again = 0, sent_at = map (\<lambda>i. i * interval) [0..<?n]\<rparr>"]) simp
qed

theorem keepalives_until_closed_witness:
  "\<exists>s. (keepalive_greenlet 60 2 (-37) 130 \<lparr>now = 0, again = 0, sent_at = []\<rparr> :: ((unit + unit) \<times> keep_state) option) =
     Some (Inr (), s) \<and> sent_at s = [0, 60, 120]"
proof -
  have "keepalives 60 130 = 3" "[0..<3] = [0, 1, 2 :: nat]" by code_simp+
  then show ?thesis using keepalives_until_closed[of 60 "-37" 2 130] by auto
qed

text \<open>
  Enabling a logger again changes nothing but its level: it has one stream handler however often it
  is enabled, and a warning is logged each time but the first.
\<close>
theorem enabling_twice_adds_one_handler:
  "snd (enable_logger lvl2 (snd (enable_logger lvl1 lg))) = (snd (enable_logger lvl1 lg))\<lparr>level := lvl2\<rparr> \<and>
   fst (enable_logger lvl2 (snd (enable_logger lvl1 lg))) \<and>
   (filter is_stream_handler (handlers lg) = [] \<longrightarrow>
      filter is_stream_handler (handlers (snd (enable_logger lvl1 lg))) = [StreamHandler StdErr log_format])"
  by (auto simp: enable_logger_def Let_def is_stream_handler_def)

text \<open>
  With both loggers enabled every line of a host is written twice, and to the standard error: the
  host logger hands its records on to the logger of the package.
\<close>
theorem host_lines_are_written_twice:
  "host_record_goes_to root_level [] (enable_debug_logger (enable_host_logger import_pssh)) INFO =
     [StreamHandler StdErr log_format, StreamHandler StdErr log_format]"
  by (simp add: host_record_goes_to_def enable_debug_logger_def enable_host_logger_def import_pssh_def enable_logger_def
      is_stream_handler_def INFO_def DEBUG_def Let_def)

text \<open>A logger that writes to a file is not enabled: the file handler counts as a stream handler.\<close>

theorem file_handler_prevents_enabling:
  "enable_logger lvl \<lparr>level = l, handlers = [NullHandler, FileHandler f]\<rparr> =
     (True, \<lparr>level = lvl, handlers = [NullHandler, FileHandler f]\<rparr>)"
  by (simp add: enable_logger_def is_stream_handler_def)

end
