(* ===== verification/Channel_Locks.thy ===== *)
theory Channel_Locks
  imports Prelude
begin

text \<open>
  The two locks of the native client: \<open>_chan_stdout_lock\<close> and \<open>_chan_stderr_lock\<close>.  The readers of a
  channel (\<open>_read_output_to_buffer\<close>) hold one of them during each read, and \<open>close_channel\<close> holds
  both until the channel is closed, also while it waits for the socket between its attempts.

  A step is what a greenlet does between two points at which another one can run: a read never
  waits, so that it is one step with the taking and the giving back of its lock.
\<close>

section \<open>Data\<close>

text \<open>\<open>CloseCall j True\<close> is the last attempt of the greenlet \<open>j\<close>; after the others it waits and tries again.\<close>

datatype chan_op = ReadCall nat | CloseCall nat bool

datatype greenlet_at =
    Reader
  | ReaderPolls
  | Closer
  | HoldsFirst
  | HoldsBoth
  | Gone

datatype which_lock = StdoutLock | StderrLock

record chan_locks =
  at :: "nat \<Rightarrow> greenlet_at"
  owner :: "which_lock \<Rightarrow> nat option"
  ops :: "chan_op list"

definition start_locks :: "nat set \<Rightarrow> nat set \<Rightarrow> chan_locks" where
  "start_locks readers closers =
     \<lparr>at = (\<lambda>i. if i \<in> readers then Reader else if i \<in> closers then Closer else Gone),
      owner = (\<lambda>l. None), ops = []\<rparr>"

text \<open>
  The lock of a reader: \<open>is_stderr\<close> decides, and no caller passes it, so that both readers take the
  lock of the output stream.
\<close>

definition reader_lock :: "bool \<Rightarrow> which_lock" where
  "reader_lock is_stderr = (if is_stderr then StderrLock else StdoutLock)"

definition reads_with :: "nat \<Rightarrow> which_lock" where
  "reads_with i = reader_lock False"

section \<open>Steps\<close>

text \<open>\<open>lock_of\<close> says which lock a reader takes.\<close>

inductive lock_step :: "(nat \<Rightarrow> which_lock) \<Rightarrow> chan_locks \<Rightarrow> chan_locks \<Rightarrow> bool" for lock_of where
  read: "\<lbrakk>at s i = Reader; owner s (lock_of i) = None; pc \<in> {Reader, ReaderPolls, Gone}\<rbrakk>
    \<Longrightarrow> lock_step lock_of s (s\<lparr>at := (at s)(i := pc), ops := ops s @ [ReadCall i]\<rparr>)"
| polled: "at s i = ReaderPolls
    \<Longrightarrow> lock_step lock_of s (s\<lparr>at := (at s)(i := Reader)\<rparr>)"
| take_first: "\<lbrakk>at s i = Closer; owner s StdoutLock = None\<rbrakk>
    \<Longrightarrow> lock_step lock_of s (s\<lparr>at := (at s)(i := HoldsFirst), owner := (owner s)(StdoutLock := Some i)\<rparr>)"
| take_second: "\<lbrakk>at s i = HoldsFirst; owner s StderrLock = None\<rbrakk>
    \<Longrightarrow> lock_step lock_of s (s\<lparr>at := (at s)(i := HoldsBoth), owner := (owner s)(StderrLock := Some i)\<rparr>)"
| close_again: "at s i = HoldsBoth
    \<Longrightarrow> lock_step lock_of s (s\<lparr>ops := ops s @ [CloseCall i False]\<rparr>)"
| closed: "at s i = HoldsBoth
    \<Longrightarrow> lock_step lock_of s (s\<lparr>at := (at s)(i := Gone), owner := (\<lambda>l. None), ops := ops s @ [CloseCall i True]\<rparr>)"

inductive lock_runs :: "(nat \<Rightarrow> which_lock) \<Rightarrow> chan_locks \<Rightarrow> chan_locks \<Rightarrow> bool" for lock_of s where
  runs_refl: "lock_runs lock_of s s"
| runs_step: "\<lbrakk>lock_runs lock_of s t; lock_step lock_of t u\<rbrakk> \<Longrightarrow> lock_runs lock_of s u"

inductive_cases lock_stepE: "lock_step lock_of s t"

section \<open>Invariants\<close>

text \<open>Who holds the locks, and that only a greenlet that holds the first one holds the second.\<close>

definition locks_inv :: "chan_locks \<Rightarrow> bool" where
  "locks_inv s \<longleftrightarrow>
     (\<forall>i. owner s StdoutLock = Some i \<longleftrightarrow> at s i = HoldsFirst \<or> at s i = HoldsBoth) \<and>
     (\<forall>i. owner s StderrLock = Some i \<longleftrightarrow> at s i = HoldsBoth)"

text \<open>An attempt to close that has to be repeated is the last call on the channel, or the next one repeats it.\<close>

definition undisturbed :: "chan_locks \<Rightarrow> bool" where
  "undisturbed s \<longleftrightarrow> (\<forall>before i after. ops s = before @ CloseCall i False # after \<longrightarrow>
     (if after = [] then at s i = HoldsBoth else \<exists>done. hd after = CloseCall i done))"

lemma locks_inv_start: "locks_inv (start_locks readers closers)"
  by (auto simp: locks_inv_def start_locks_def)

lemma undisturbed_start: "undisturbed (start_locks readers closers)"
  by (simp add: undisturbed_def start_locks_def)

lemma holds_both_alone:
  "locks_inv s \<Longrightarrow> at s i = HoldsBoth \<Longrightarrow> owner s l = Some i"
  by (cases l) (auto simp: locks_inv_def)

lemma locks_inv_step: "lock_step lock_of s t \<Longrightarrow> locks_inv s \<Longrightarrow> locks_inv t"
proof (induction rule: lock_step.induct)
  case (closed s i)
  then have "owner s StdoutLock = Some i" "owner s StderrLock = Some i" by (simp_all add: locks_inv_def)
  with closed show ?case by (auto simp: locks_inv_def)
next
  case (take_second s i)
  then show ?case by (auto simp: locks_inv_def)
qed (auto simp: locks_inv_def)

lemma undisturbed_same_ops:
  assumes "undisturbed s" "ops t = ops s" "\<And>i. at s i = HoldsBoth \<Longrightarrow> at t i = HoldsBoth"
  shows "undisturbed t"
  using assms by (auto simp: undisturbed_def split: if_splits)

lemma undisturbed_new_op:
  assumes "undisturbed s" "ops t = ops s @ [ev]"
    "\<And>i. at s i = HoldsBoth \<Longrightarrow> \<exists>done. ev = CloseCall i done"
    "\<And>i. ev = CloseCall i False \<Longrightarrow> at t i = HoldsBoth"
  shows "undisturbed t"
  unfolding undisturbed_def
proof (intro allI impI)
  fix before i after assume "ops t = before @ CloseCall i False # after"
  with assms(2) have e: "ops s @ [ev] = before @ CloseCall i False # after" by simp
  show "if after = [] then at t i = HoldsBoth else \<exists>done. hd after = CloseCall i done"
  proof (cases after rule: rev_cases)
    case Nil
    with e assms(4) show ?thesis by simp
  next
    case (snoc rest x)
    with e have ev: "x = ev" and s: "ops s = before @ CloseCall i False # rest" by simp_all
    with assms(1) have r: "if rest = [] then at s i = HoldsBoth else \<exists>done. hd rest = CloseCall i done"
      by (simp add: undisturbed_def)
    show ?thesis
    proof (cases rest)
      case Nil
      with r assms(3)[of i] snoc ev show ?thesis by simp
    next
      case (Cons y ys)
      with r snoc show ?thesis by simp
    qed
  qed
qed

lemma undisturbed_step:
  assumes "lock_step lock_of s t" "locks_inv s" "undisturbed s"
  shows "undisturbed t"
proof -
  have alone: "i = j" if "at s i = HoldsBoth" "at s j = HoldsBoth" for i j
    using holds_both_alone[OF assms(2) that(1), of StdoutLock] holds_both_alone[OF assms(2) that(2), of StdoutLock] by simp
  from assms(1) show ?thesis
  proof cases
    case (read i pc)
    have "at s j \<noteq> HoldsBoth" for j
      using holds_both_alone[OF assms(2), of j "lock_of i"] read by auto
    with read show ?thesis by (intro undisturbed_new_op[OF assms(3), of _ "ReadCall i"]) auto
  next
    case (polled i)
    then show ?thesis by (intro undisturbed_same_ops[OF assms(3)]) auto
  next
    case (take_first i)
    then show ?thesis by (intro undisturbed_same_ops[OF assms(3)]) auto
  next
    case (take_second i)
    then show ?thesis by (intro undisturbed_same_ops[OF assms(3)]) auto
  next
    case (close_again i)
    with alone show ?thesis by (intro undisturbed_new_op[OF assms(3), of _ "CloseCall i False"]) auto
  next
    case (closed i)
    with alone show ?thesis by (intro undisturbed_new_op[OF assms(3), of _ "CloseCall i True"]) auto
  qed
qed

lemma lock_runs_inv:
  "lock_runs lock_of (start_locks readers closers) s \<Longrightarrow> locks_inv s \<and> undisturbed s"
  by (induction rule: lock_runs.induct)
    (auto intro: locks_inv_start undisturbed_start locks_inv_step undisturbed_step)

section \<open>Properties\<close>


definition one_of_each :: chan_locks where
  "one_of_each = start_locks {0} {2}"

definition closing :: chan_locks where
  "closing = one_of_each
     \<lparr>at := ((at one_of_each)(2 := HoldsFirst))(2 := HoldsBoth),
      owner := ((owner one_of_each)(StdoutLock := Some 2))(StderrLock := Some 2)\<rparr>"

lemma closing_runs: "lock_runs reads_with one_of_each closing"
proof -
  let ?s1 = "one_of_each\<lparr>at := (at one_of_each)(2 := HoldsFirst), owner := (owner one_of_each)(StdoutLock := Some 2)\<rparr>"
  have "lock_step reads_with one_of_each ?s1"
    by (rule lock_step.take_first) (simp_all add: one_of_each_def start_locks_def)
  from runs_step[OF runs_refl this] have "lock_runs reads_with one_of_each ?s1" .
  moreover have "lock_step reads_with ?s1 closing"
    using lock_step.take_second[of ?s1 2 reads_with] by (simp add: closing_def one_of_each_def start_locks_def)
  ultimately show ?thesis by (rule runs_step)
qed


text \<open>
  The locks are never a deadlock: while a greenlet has not come to its end, one of them can go on.
\<close>
theorem locks_never_deadlock:
  assumes "lock_runs lock_of (start_locks readers closers) s" "at s i \<noteq> Gone"
  shows "\<exists>t. lock_step lock_of s t"
proof (cases "\<exists>j. owner s StdoutLock = Some j")
  case True
  then obtain j where j: "owner s StdoutLock = Some j" by blast
  from lock_runs_inv[OF assms(1)] have inv: "locks_inv s" by simp
  with j consider "at s j = HoldsFirst" | "at s j = HoldsBoth" by (auto simp: locks_inv_def)
  then show ?thesis
  proof cases
    case 1
    have "owner s StderrLock = None"
    proof (rule ccontr)
      assume "owner s StderrLock \<noteq> None"
      then obtain k where "owner s StderrLock = Some k" by blast
      with inv have "at s k = HoldsBoth" unfolding locks_inv_def by blast
      with inv j have "j = k" by (auto simp: locks_inv_def)
      with 1 \<open>at s k = HoldsBoth\<close> show False by simp
    qed
    with 1 show ?thesis by (blast intro: lock_step.take_second)
  next
    case 2
    then show ?thesis by (blast intro: lock_step.closed)
  qed
next
  case False
  from lock_runs_inv[OF assms(1)] have inv: "locks_inv s" by simp
  with False have free: "owner s l = None" for l by (cases l) (auto simp: locks_inv_def)
  from False inv have "at s i \<noteq> HoldsFirst" "at s i \<noteq> HoldsBoth" by (auto simp: locks_inv_def)
  with assms(2) consider "at s i = Reader" | "at s i = ReaderPolls" | "at s i = Closer" by (cases "at s i") auto
  then show ?thesis
    using free by cases (blast intro: lock_step.intros)+
qed

theorem locks_never_deadlock_witness: "\<exists>t. lock_step reads_with closing t"
  by (rule locks_never_deadlock[of reads_with "{0}" "{2}" closing 0, folded one_of_each_def, OF closing_runs])
    (simp add: closing_def one_of_each_def start_locks_def)

end
