(* ===== verification/Pool_Results.thy ===== *)
theory Pool_Results
  imports Host_Tasks
begin

text \<open>
  What the greenlets of one call return.  \<open>Host_Tasks\<close> lets the network and the hosts answer
  anything; here \<open>construct\<close> says what making a client for a host comes to and \<open>operation\<close> what the
  \<open>i\<close>-th greenlet gets when it uses its client.  However the greenlets of the pool are interleaved,
  each then ends with the result that it would have had alone.
\<close>

section \<open>Runs with the results of the operations\<close>

inductive host_step ::
  "pkey_files \<Rightarrow> (host_config \<Rightarrow> host_config \<Rightarrow> pyval \<Rightarrow> host_config) \<Rightarrow> (string \<Rightarrow> host_config \<Rightarrow> par_error + 'c)
     \<Rightarrow> (nat \<Rightarrow> 'c \<Rightarrow> par_error + 'r) \<Rightarrow> nat \<Rightarrow> (nat \<times> string) list \<Rightarrow> ('c, 'r) pool_run \<Rightarrow> ('c, 'r) pool_run \<Rightarrow> bool"
  for F client_args construct operation pool_size keys where
  host_begins: "\<lbrakk>next_task s < length keys; length (filter busy (phases s)) < pool_size\<rbrakk>
    \<Longrightarrow> host_step F client_args construct operation pool_size keys s
          (set_phase (next_task s) (begin_task F client_args (keys ! next_task s) (shared s))
            (s\<lparr>next_task := Suc (next_task s)\<rparr>))"
| host_constructed: "\<lbrakk>i < length keys; phases s ! i = Making args; construct (snd (keys ! i)) args = Inr client\<rbrakk>
    \<Longrightarrow> host_step F client_args construct operation pool_size keys s
          (set_phase i (Using client)
            (s\<lparr>shared := keep_client (keys ! i) client (shared s), clients_made := clients_made s @ [(keys ! i, client)]\<rparr>))"
| host_raised: "\<lbrakk>i < length keys; phases s ! i = Making args; construct (snd (keys ! i)) args = Inl e\<rbrakk>
    \<Longrightarrow> host_step F client_args construct operation pool_size keys s (set_phase i (Ended (Inl e)) s)"
| host_ends: "\<lbrakk>i < length keys; phases s ! i = Using client\<rbrakk>
    \<Longrightarrow> host_step F client_args construct operation pool_size keys s (set_phase i (Ended (operation i client)) s)"

inductive host_run for F client_args construct operation pool_size keys s where
  host_run_refl: "host_run F client_args construct operation pool_size keys s s"
| host_run_step: "\<lbrakk>host_run F client_args construct operation pool_size keys s t;
      host_step F client_args construct operation pool_size keys t u\<rbrakk>
    \<Longrightarrow> host_run F client_args construct operation pool_size keys s u"

lemma host_step_task_step:
  "host_step F client_args construct operation pool_size keys s t \<Longrightarrow> task_step F client_args pool_size keys s t"
  by (induction rule: host_step.induct) (auto intro: task_step.intros)

lemma host_run_task_run:
  "host_run F client_args construct operation pool_size keys s t \<Longrightarrow> task_run F client_args pool_size keys s t"
  by (induction rule: host_run.induct) (auto intro: run_refl run_step host_step_task_step)

lemma host_step_total:
  assumes "task_step F client_args pool_size keys s t"
  shows "\<exists>u. host_step F client_args construct operation pool_size keys s u"
  using assms
proof cases
  case (constructed i args client)
  then show ?thesis
    by (cases "construct (snd (keys ! i)) args") (blast intro: host_raised host_constructed)+
next
  case (raised i args e)
  then show ?thesis
    by (cases "construct (snd (keys ! i)) args") (blast intro: host_raised host_constructed)+
qed (blast intro: host_begins host_ends)+

section \<open>Each greenlet as if alone\<close>

text \<open>What the \<open>i\<close>-th greenlet returns when it is run as one call on the client as it was.\<close>

definition alone where
  "alone F client_args construct operation keys c i =
     fst (on_client F client_args construct (operation i) (fst (keys ! i)) (snd (keys ! i)) c)"

definition same_but_cache :: "'c pclient \<Rightarrow> 'c pclient \<Rightarrow> bool" where
  "same_but_cache c d \<longleftrightarrow> phosts d = phosts c \<and> phost_config d = phost_config c \<and> pself d = pself c"

lemma get_host_config_cong: "same_but_cache c d \<Longrightarrow> get_host_config d i = get_host_config c i"
  by (simp only: same_but_cache_def get_host_config_def)

lemma request_client_cong:
  "same_but_cache c d \<Longrightarrow> host_clients d (i, host) = host_clients c (i, host) \<Longrightarrow>
   request_client F client_args i host d = request_client F client_args i host c"
  by (simp only: request_client_def get_host_config_cong) (simp add: same_but_cache_def split: option.split sum.split)

lemma same_but_cache_keep [simp]: "same_but_cache c (keep_client k client d) = same_but_cache c d"
  by (simp add: same_but_cache_def keep_client_def)

text \<open>What is known of a greenlet from its phase.\<close>

definition phase_ok where
  "phase_ok F client_args construct operation keys c i p \<longleftrightarrow>
     (case p of
        Waiting \<Rightarrow> True
      | Making args \<Rightarrow> request_client F client_args (fst (keys ! i)) (snd (keys ! i)) c = MakeClient args
      | Using client \<Rightarrow> fst (get_ssh_client F client_args construct (fst (keys ! i)) (snd (keys ! i)) c) = Inr client
      | Ended r \<Rightarrow> r = alone F client_args construct operation keys c i)"

lemma phase_ok_begin:
  assumes "same_but_cache c d" "host_clients d (keys ! i) = host_clients c (keys ! i)"
  shows "phase_ok F client_args construct operation keys c i (begin_task F client_args (keys ! i) d)"
proof -
  have "request_client F client_args (fst (keys ! i)) (snd (keys ! i)) d =
      request_client F client_args (fst (keys ! i)) (snd (keys ! i)) c"
    by (rule request_client_cong) (use assms in simp_all)
  then show ?thesis
    by (simp add: phase_ok_def begin_task_def alone_def on_client_def get_ssh_client_parts split: client_request.split)
qed

lemma phase_ok_make:
  assumes "phase_ok F client_args construct operation keys c i (Making args)"
  shows "construct (snd (keys ! i)) args = Inr client \<Longrightarrow>
           phase_ok F client_args construct operation keys c i (Using client)"
    and "construct (snd (keys ! i)) args = Inl e \<Longrightarrow>
           phase_ok F client_args construct operation keys c i (Ended (Inl e))"
  using assms by (simp_all add: phase_ok_def alone_def on_client_def get_ssh_client_parts)

lemma phase_ok_end:
  "phase_ok F client_args construct operation keys c i (Using client) \<Longrightarrow>
   phase_ok F client_args construct operation keys c i (Ended (operation i client))"
  by (auto simp: phase_ok_def alone_def on_client_def split: prod.split)

definition results_inv where
  "results_inv F client_args construct operation keys c s \<longleftrightarrow>
     same_but_cache c (shared s) \<and>
     (\<forall>i < length keys. phase_ok F client_args construct operation keys c i (phases s ! i))"

lemma results_inv_set_phase:
  assumes "results_inv F client_args construct operation keys c s" "length (phases s) = length keys" "i < length keys"
    "phase_ok F client_args construct operation keys c i p" "phases t = phases s" "same_but_cache c (shared t)"
  shows "results_inv F client_args construct operation keys c (set_phase i p t)"
  using assms by (auto simp: results_inv_def set_phase_def nth_list_update)

lemma results_inv_step:
  assumes "host_step F client_args construct operation pool_size keys s t"
    "results_inv F client_args construct operation keys c s" "one_client_inv c pool_size keys s"
  shows "results_inv F client_args construct operation keys c t"
proof -
  have len: "length (phases s) = length keys" and same: "same_but_cache c (shared s)"
    and ok: "\<And>i. i < length keys \<Longrightarrow> phase_ok F client_args construct operation keys c i (phases s ! i)"
    using assms(2,3) by (simp_all add: one_client_inv_def pool_inv_def results_inv_def)
  from assms(1) show ?thesis
  proof cases
    case host_begins
    have "phases s ! next_task s = Waiting"
      using assms(3) host_begins by (simp add: one_client_inv_def pool_inv_def)
    then have "keys ! next_task s \<notin> fst ` set (clients_made s)"
      using assms(3) host_begins(2) unfolding one_client_inv_def task_clients_def by force
    then have "host_clients (shared s) (keys ! next_task s) = host_clients c (keys ! next_task s)"
      using assms(3) by (intro cached_before) (simp_all add: one_client_inv_def)
    then show ?thesis
      unfolding host_begins(1)
      by (intro results_inv_set_phase[OF assms(2) len host_begins(2)] phase_ok_begin) (simp_all add: same)
  next
    case (host_constructed i args client)
    with phase_ok_make(1) ok[of i] show ?thesis
      unfolding host_constructed(1)
      by (intro results_inv_set_phase[OF assms(2) len host_constructed(2)]) (simp_all add: same)
  next
    case (host_raised i args e)
    with phase_ok_make(2) ok[of i] show ?thesis
      unfolding host_raised(1)
      by (intro results_inv_set_phase[OF assms(2) len host_raised(2)]) (simp_all add: same)
  next
    case (host_ends i client)
    with phase_ok_end ok[of i] show ?thesis
      unfolding host_ends(1)
      by (intro results_inv_set_phase[OF assms(2) len host_ends(2)]) (simp_all add: same)
  qed
qed

lemma results_inv_run:
  assumes "host_run F client_args construct operation pool_size keys (start_run c keys) s" "distinct keys"
  shows "results_inv F client_args construct operation keys c s"
  using assms(1)
proof (induction rule: host_run.induct)
  case host_run_refl
  then show ?case by (simp add: results_inv_def start_run_def same_but_cache_def phase_ok_def)
next
  case (host_run_step t u)
  then show ?case
    using results_inv_step one_client_inv_run[OF host_run_task_run assms(2)] by blast
qed

lemma host_run_ended:
  assumes "host_run F client_args construct operation pool_size keys (start_run c keys) s"
    "\<And>t. \<not> host_step F client_args construct operation pool_size keys s t" "0 < pool_size" "distinct keys"
    "i < length keys"
  shows "phases s ! i = Ended (alone F client_args construct operation keys c i)"
proof -
  have pool: "pool_inv pool_size keys s"
    by (rule pool_inv_run[OF host_run_task_run[OF assms(1)]])
  then have "phases s ! i \<in> set (phases s)" using assms(5) by (simp add: pool_inv_def)
  moreover have "\<not> task_step F client_args pool_size keys s t" for t
    using host_step_total assms(2) by blast
  ultimately obtain r where "phases s ! i = Ended r"
    using task_run_stuck[OF pool assms(3)] by blast
  with results_inv_run[OF assms(1,4)] assms(5) show ?thesis
    by (fastforce simp: results_inv_def phase_ok_def)
qed

text \<open>Every client that is made in a run is made from the arguments that its host has in the client as it was.\<close>

lemma made_clients_run:
  assumes "host_run F client_args construct operation pool_size keys (start_run c keys) s" "distinct keys"
    "(k, client) \<in> set (clients_made s)"
  shows "k \<in> set keys \<and> (\<exists>args. request_client F client_args (fst k) (snd k) c = MakeClient args \<and>
    construct (snd k) args = Inr client)"
  using assms(1,3)
proof (induction rule: host_run.induct)
  case host_run_refl
  then show ?case by (simp add: start_run_def)
next
  case (host_run_step t u)
  have inv: "results_inv F client_args construct operation keys c t"
    by (rule results_inv_run[OF host_run_step.hyps(1) assms(2)])
  from host_run_step.hyps(2) show ?case
  proof cases
    case (host_constructed i args new)
    with inv have "request_client F client_args (fst (keys ! i)) (snd (keys ! i)) c = MakeClient args"
      by (auto simp: results_inv_def phase_ok_def)
    with host_constructed host_run_step.prems host_run_step.IH show ?thesis
      by (auto simp: set_phase_def)
  qed (use host_run_step.prems host_run_step.IH in \<open>simp_all add: set_phase_def\<close>)
qed

section \<open>A run of two hosts\<close>

text \<open>A pool with one place; the first host can be connected to, the second cannot.\<close>

definition one_host_up :: "string \<Rightarrow> host_config \<Rightarrow> par_error + nat" where
  "one_host_up host args = (if host = ''a'' then Inr 7 else Inl (POther ''down''))"

definition echo_output :: "nat \<Rightarrow> string \<Rightarrow> par_error + host_output" where
  "echo_output client command = Inr \<lparr>ho_host = ''a'', ho_channel = True, ho_client = True, ho_exception = None,
     ho_read_timeout = None, ho_command = Some command\<rparr>"

definition ended_run :: "par_error + host_output \<Rightarrow> (nat, host_output) pool_run" where
  "ended_run r = \<lparr>shared = keep_client (0, ''a'') 7 two_hosts, phases = [Ended r, Ended (Inl (POther ''down''))],
     next_task = 2, clients_made = [((0, ''a''), 7)]\<rparr>"

lemma two_hosts_begin:
  "begin_task no_files native_client_args (0, ''a'') two_hosts = Making (native_client_args default_config default_config PNone)"
  "begin_task no_files native_client_args (1, ''b'') (keep_client (0, ''a'') 7 two_hosts) =
     Making (native_client_args default_config default_config PNone)"
  by (simp_all add: begin_task_def request_client_def keep_client_def two_hosts_def get_host_config_def
      load_pkey_data_def default_config_def)

lemma example_host_run:
  "host_run no_files native_client_args one_host_up operation 1 two_keys (start_run two_hosts two_keys)
     (ended_run (operation 0 7))"
proof -
  let ?step = "host_step no_files native_client_args one_host_up operation 1 two_keys"
  let ?s0 = "start_run two_hosts two_keys :: (nat, host_output) pool_run"
  let ?args = "native_client_args default_config default_config PNone"
  let ?c = "keep_client (0, ''a'') 7 two_hosts" let ?r = "operation 0 7"
  let ?s1 = "?s0\<lparr>phases := [Making ?args, Waiting], next_task := 1\<rparr>"
  let ?s2 = "?s1\<lparr>shared := ?c, phases := [Using 7, Waiting], clients_made := [((0, ''a''), 7)]\<rparr>"
  let ?s3 = "?s2\<lparr>phases := [Ended ?r, Waiting]\<rparr>"
  let ?s4 = "?s3\<lparr>phases := [Ended ?r, Making ?args], next_task := 2\<rparr>"
  note simps = start_run_def two_keys_def set_phase_def two_hosts_begin one_host_up_def numeral_2_eq_2
  have "?step ?s0 ?s1"
    using host_begins[of ?s0 two_keys 1 no_files native_client_args one_host_up operation] by (simp add: simps)
  moreover have "?step ?s1 ?s2"
    using host_constructed[of 0 two_keys ?s1 ?args one_host_up 7 no_files native_client_args operation 1]
    by (simp add: simps)
  moreover have "?step ?s2 ?s3"
    using host_ends[of 0 two_keys ?s2 7 no_files native_client_args one_host_up operation 1] by (simp add: simps)
  moreover have "?step ?s3 ?s4"
    using host_begins[of ?s3 two_keys 1 no_files native_client_args one_host_up operation]
    by (simp add: simps two_hosts_begin(2)[simplified])
  moreover have "?step ?s4 (ended_run ?r)"
    using host_raised[of 1 two_keys ?s4 ?args one_host_up "POther ''down''" no_files native_client_args operation 1]
    by (simp add: simps ended_run_def)
  ultimately show ?thesis
    by (meson host_run_refl host_run_step)
qed

lemma ended_run_stuck: "\<not> host_step F client_args construct operation pool_size two_keys (ended_run r) t"
proof
  assume "host_step F client_args construct operation pool_size two_keys (ended_run r) t"
  then show False
    by cases (auto simp: ended_run_def two_keys_def less_Suc_eq)
qed

section \<open>Properties\<close>

text \<open>
  However the greenlets of a call are interleaved, when none of them can go on each has ended with
  the result that it has when it runs alone: a host that is slow, fails or has no client changes
  nothing for the others.
\<close>

theorem pool_results_are_those_of_each_host_alone:
  assumes "keys = map (\<lambda>(host_i, host, a). (host_i, host)) (fst (spawn_each args (py_enumerate hs)))" "0 < pool_size"
    and "host_run F client_args construct operation pool_size keys (start_run c keys) s"
    and "\<And>t. \<not> host_step F client_args construct operation pool_size keys s t"
  shows "phases s = map (\<lambda>i. Ended (alone F client_args construct operation keys c i)) [0..<length keys]"
proof (rule nth_equalityI)
  have "pool_inv pool_size keys s" by (rule pool_inv_run[OF host_run_task_run[OF assms(3)]])
  then show len: "length (phases s) = length (map (\<lambda>i. Ended (alone F client_args construct operation keys c i)) [0..<length keys])"
    by (simp add: pool_inv_def)
  fix i assume "i < length (phases s)"
  moreover have "distinct keys" using spawned_keys_distinct[of args hs] assms(1) by simp
  ultimately show "phases s ! i = map (\<lambda>i. Ended (alone F client_args construct operation keys c i)) [0..<length keys] ! i"
    using host_run_ended[OF assms(3,4,2)] len by simp
qed

theorem pool_results_are_those_of_each_host_alone_witness:
  "phases (ended_run (echo_output 7 ''id'')) =
     map (\<lambda>i. Ended (alone no_files native_client_args one_host_up (\<lambda>i client. echo_output client ''id'') two_keys two_hosts i)) [0, 1]"
proof -
  have keys: "two_keys = map (\<lambda>(host_i, host, a). (host_i, host)) (fst (spawn_each (\<lambda>i h. Inr ()) (py_enumerate [''a'', ''b''])))"
    by (simp add: two_keys_def)
  show ?thesis
    using pool_results_are_those_of_each_host_alone[OF keys _ example_host_run[of "\<lambda>i client. echo_output client ''id''"] ended_run_stuck]
    by (simp add: two_keys_def numeral_2_eq_2)
qed

lemma configured_cong: "same_but_cache c d \<Longrightarrow> configured c \<Longrightarrow> configured d"
  by (simp add: configured_def get_host_config_cong) (simp add: same_but_cache_def)

lemma output_of_cong: "same_but_cache c d \<Longrightarrow> output_of d i r = output_of c i r"
  by (simp add: output_of_def alias_of_def get_host_config_cong split: sum.split) (simp add: same_but_cache_def)

lemma outputs_of_run:
  assumes "configured c" "same_but_cache c d" "set order \<subseteq> {..<length (phosts c)}"
  shows "get_output_from_cmds d False result order = Inr (map (\<lambda>i. output_of c i (result i)) order)"
  unfolding get_output_from_cmds_def
proof (rule join_all_ok)
  fix i assume "i \<in> set order"
  then have "i < length (phosts d)" using assms(2,3) by (auto simp: same_but_cache_def)
  with get_output_from_greenlet_configured[OF configured_cong[OF assms(2,1)]] output_of_cong[OF assms(2)]
  show "get_output_from_greenlet d False i (result i) = Inr (output_of c i (result i))" by simp
qed

text \<open>The tasks of a call that starts all of them, and their keys.\<close>

definition task_keys :: "'t task list \<Rightarrow> (nat \<times> string) list" where
  "task_keys tasks = map (\<lambda>(host_i, host, a). (host_i, host)) tasks"

lemma spawned_keys: "spawn_each args xs = (tasks, None) \<Longrightarrow> task_keys tasks = xs"
  by (induction args xs arbitrary: tasks rule: spawn_each.induct)
    (auto simp: task_keys_def split: sum.splits prod.splits)

lemma run_command_keys: "run_command_tasks hs command host_args = (tasks, None) \<Longrightarrow> task_keys tasks = py_enumerate hs"
  by (cases "host_args = []")
    (auto simp: run_command_tasks_def index_error_as_def split: prod.splits if_splits intro: spawned_keys)

lemma task_nth:
  assumes "i < length tasks"
  shows "fst (task_keys tasks ! i) = fst (tasks ! i)" "snd (task_keys tasks ! i) = fst (snd (tasks ! i))"
  using assms by (simp_all add: task_keys_def split: prod.split)

lemma run_command_alone:
  "i < length tasks \<Longrightarrow>
   alone F client_args construct (\<lambda>i client. run_command_of client (snd (snd (tasks ! i)))) (task_keys tasks) c i =
     fst (run_command_on F client_args construct run_command_of (tasks ! i) c)"
  by (simp add: alone_def run_command_on_def task_nth split: prod.split)

lemma parallel_run_outputs:
  assumes "configured c" "set order \<subseteq> {..<length (phosts c)}"
    and "run_command_tasks (phosts c) command host_args = (tasks, None)"
    and "host_run F client_args construct (\<lambda>i client. run_command_of client (snd (snd (tasks ! i)))) pool_size
           (task_keys tasks) (start_run c (task_keys tasks)) s"
    and "phases s = map (\<lambda>i. Ended (result i)) [0..<length tasks]"
  shows "get_output_from_cmds (shared s) False result order =
      Inr (map (\<lambda>i. output_of c i (fst (run_command_on F client_args construct run_command_of (tasks ! i) c))) order) \<and>
    snd (par_run_command c command host_args False
      (\<lambda>task. fst (run_command_on F client_args construct run_command_of task c)) order) =
      get_output_from_cmds (shared s) False result order"
proof -
  let ?run = "\<lambda>task. fst (run_command_on F client_args construct run_command_of task c)"
  note keys = run_command_keys[OF assms(3)]
  then have n: "length tasks = length (phosts c)" by (metis length_enumerate length_map task_keys_def)
  have inv: "results_inv F client_args construct (\<lambda>i client. run_command_of client (snd (snd (tasks ! i)))) (task_keys tasks) c s"
    using keys by (intro results_inv_run[OF assms(4)]) simp
  have "result i = ?run (tasks ! i)" if "i \<in> set order" for i
    using inv that assms(2,5) n
    by (auto simp: results_inv_def phase_ok_def run_command_alone task_keys_def)
      (fastforce simp: run_command_alone[unfolded task_keys_def])
  then have "map (\<lambda>i. output_of c i (result i)) order = map (\<lambda>i. output_of c i (?run (tasks ! i))) order" by simp
  moreover have "same_but_cache c (shared s)" "same_but_cache c c"
    using inv by (simp_all add: results_inv_def same_but_cache_def)
  ultimately show ?thesis
    using assms(1,2) by (simp add: par_run_command_def assms(3) outputs_of_run)
qed

text \<open>
  What \<open>run_command\<close> with \<open>stop_on_errors=False\<close> returns when the greenlets that it has started in its
  pool have ended: for each host the output that its client gives for its own command, with the
  host's arguments filled in, when the client is made and used alone, or the exception of that;
  whatever the size of the pool and the order in which things happen.
\<close>
theorem parallel_run_gives_each_hosts_own_output:
  assumes "configured c" "set order \<subseteq> {..<length (phosts c)}"
    and "run_command_tasks (phosts c) command host_args = (tasks, None)"
    and "host_run F client_args construct (\<lambda>i client. run_command_of client (snd (snd (tasks ! i)))) pool_size
           (task_keys tasks) (start_run c (task_keys tasks)) s"
    and "phases s = map (\<lambda>i. Ended (result i)) [0..<length tasks]"
  shows "get_output_from_cmds (shared s) False result order =
      Inr (map (\<lambda>i. output_of c i (fst (run_command_on F client_args construct run_command_of (tasks ! i) c))) order) \<and>
    snd (par_run_command c command host_args False
      (\<lambda>task. fst (run_command_on F client_args construct run_command_of task c)) order) =
      get_output_from_cmds (shared s) False result order"
  using assms by (rule parallel_run_outputs)

theorem parallel_run_gives_each_hosts_own_output_witness:
  "snd (par_run_command two_hosts ''id'' [] False
     (\<lambda>task. fst (run_command_on no_files native_client_args one_host_up echo_output task two_hosts)) [1, 0]) =
   get_output_from_cmds (shared (ended_run (echo_output 7 ''id''))) False
     (\<lambda>i. if i = 0 then echo_output 7 ''id'' else Inl (POther ''down'')) [1, 0]"
proof -
  let ?tasks = "[(0, ''a'', ''id''), (1, ''b'', ''id'')]"
  have tasks: "run_command_tasks (phosts two_hosts) ''id'' [] = (?tasks, None)"
    by (simp add: run_command_tasks_plain two_hosts_def)
  have keys: "task_keys ?tasks = two_keys" by (simp add: task_keys_def two_keys_def)
  have "phases (ended_run (echo_output 7 ''id'')) =
      map (\<lambda>i. Ended (if i = 0 then echo_output 7 ''id'' else Inl (POther ''down''))) [0..<length ?tasks]"
    by (simp add: ended_run_def)
  moreover have "set [1, 0] \<subseteq> {..<length (phosts two_hosts)}" by (simp add: two_hosts_def)
  moreover have "host_run no_files native_client_args one_host_up
      (\<lambda>i client. echo_output client (snd (snd (?tasks ! i)))) 1 (task_keys ?tasks)
      (start_run two_hosts (task_keys ?tasks)) (ended_run (echo_output 7 ''id''))"
    unfolding keys using example_host_run[of "\<lambda>i client. echo_output client (snd (snd (?tasks ! i)))"] by simp
  ultimately show ?thesis
    by (intro conjunct2[OF parallel_run_gives_each_hosts_own_output[OF two_hosts_configured _ tasks]])
qed

end
