(* ===== verification/Client_Scope.thy ===== *)
theory Client_Scope
  imports Setup Shells
begin

text \<open>
  Clients and interactive shells as context managers, and the end of a client: \<open>__enter__\<close>,
  \<open>__exit__\<close> and \<open>__del__\<close> of \<open>BaseSSHClient\<close>, \<open>InteractiveShell.__enter__\<close> and \<open>__exit__\<close>.  The body of
  a \<open>with\<close> statement is any program.
\<close>

section \<open>Clients\<close>

text \<open>
  \<open>_disconnect\<close> on the whole client.  The native one also lets go of its keep-alive greenlet and
  tells the forwarder when it has a client for a proxy: \<open>forwarder_told\<close>.
\<close>

record scoped_client =
  the_client :: client
  proxied :: bool
  forwarder_told :: bool

definition native_leave :: "net \<Rightarrow> scoped_client \<Rightarrow> scoped_client" where
  "native_leave N s =
     s\<lparr>the_client := (the_client s)\<lparr>conn_of := native_disconnect N (conn_of (the_client s)), keepalive_greenlet := False\<rparr>,
       forwarder_told := (forwarder_told s \<or> proxied s)\<rparr>"

definition ssh_leave :: "net \<Rightarrow> scoped_client \<Rightarrow> scoped_client" where
  "ssh_leave N s = s\<lparr>the_client := (the_client s)\<lparr>conn_of := ssh_disconnect N (conn_of (the_client s))\<rparr>\<rparr>"

definition with_client ::
  "(scoped_client \<Rightarrow> scoped_client) \<Rightarrow> (scoped_client, 'e, 'a) prog \<Rightarrow> (scoped_client, 'e, 'a) prog" where
  "with_client leave body = ensuring body (update leave)"

text \<open>
  \<open>__del__\<close> of a native client that was not left before.  The slot \<open>sock\<close> is unset until a socket
  is made, and asking for it raises \<open>AttributeError\<close>, which \<open>__del__\<close> drops together with what
  \<open>_disconnect\<close> had still to do.
\<close>

definition native_del :: "net \<Rightarrow> scoped_client \<Rightarrow> scoped_client" where
  "native_del N s =
     (if \<not> session (conn_of (the_client s)) \<and> sock (conn_of (the_client s)) = None
      then s\<lparr>the_client := (the_client s)\<lparr>keepalive_greenlet := False\<rparr>\<rparr>
      else native_leave N s)"

definition left :: "scoped_client \<Rightarrow> bool" where
  "left s \<longleftrightarrow> sock (conn_of (the_client s)) = None"

lemma native_leave_left: "left (native_leave N s) \<and> \<not> session (conn_of (the_client (native_leave N s)))"
proof -
  have s: "session (emit ev c) = session c" for ev c by (simp add: emit_def)
  show ?thesis
    by (simp add: left_def native_leave_def native_disconnect_def shut_quietly_def disconnect_eagain_def Let_def s)
qed

lemma ssh_leave_left: "left (ssh_leave N s)"
  by (simp add: left_def ssh_leave_def ssh_disconnect_def)

lemma native_leave_again: "native_leave N (native_leave N s) = native_leave N s"
  by (simp add: native_leave_def disconnect_again)

lemma native_del_after_leave: "native_del N (native_leave N s) = native_leave N s"
  using native_leave_left[of N s] by (simp add: native_del_def left_def native_leave_def)

lemma ssh_leave_again: "ssh_leave N (ssh_leave N s) = ssh_leave N s"
  by (simp add: ssh_leave_def disconnect_again)

lemma with_client_result: "with_client leave body s = (case body s of (r, t) \<Rightarrow> (r, leave t))"
  by (simp add: with_client_def ensuring_def split: prod.split)

section \<open>Interactive shells\<close>

definition with_shell ::
  "host_output chan_prog \<Rightarrow> (host_output option \<Rightarrow> unit chan_prog) \<Rightarrow> chan_env \<Rightarrow> (host_output \<Rightarrow> 'a chan_prog) \<Rightarrow> 'a chan_prog" where
  "with_shell open_shell wait R body =
     bind open_shell (\<lambda>out. ensuring (body out) (close_interactive_shell wait R True out))"

definition extends :: "'a chan_prog \<Rightarrow> bool" where
  "extends m \<longleftrightarrow> (\<forall>h. \<exists>evs. snd (m h) = h @ evs)"

lemma open_shell_output:
  assumes "open_interactive_shell open_session R host t h = (Inr out, h')"
  shows "ho_channel out"
  using assms unfolding open_interactive_shell_def init_interactive_shell_def make_host_output_def
  by (elim bind_InrE) auto

lemma follows_open_shell:
  assumes "follows op open_session"
  shows "follows (op @ [RequestShell, SpawnReaders]) (open_interactive_shell open_session R host t)"
  using follows_andthen[OF assms follows_andthen[OF follows_call follows_make_output]]
  by (simp add: open_interactive_shell_def init_interactive_shell_def)

lemma close_shell_events:
  assumes "follows evs (wait (Some out))" "close_interactive_shell wait R True out h = (c, h')"
  shows "\<exists>k \<le> length evs. h' = h @ SendEof # take k evs \<and> (\<not> isl c \<longrightarrow> k = length evs)"
proof (cases "R (h @ [SendEof])")
  case None
  with assms(2) have "wait (Some out) (h @ [SendEof]) = (c, h')"
    by (simp add: close_interactive_shell_def bind_def call_def)
  from followsE[OF assms(1) this] obtain k where
    "k \<le> length evs" "h' = (h @ [SendEof]) @ take k evs" "\<not> isl c \<longrightarrow> k = length evs" .
  then show ?thesis by (intro exI[of _ k]) simp
next
  case (Some e)
  then have "close_interactive_shell wait R True out h = (Inl e, h @ [SendEof])"
    by (simp add: close_interactive_shell_def bind_def call_def)
  with assms(2) have "c = Inl e" "h' = h @ [SendEof]" by simp_all
  then show ?thesis by (intro exI[of _ 0]) simp
qed

lemma follows_native_wait: "ho_channel out \<Longrightarrow> follows [WaitEof, Close, WaitClosed] (native_wait_finished R (Some out))"
  using follows_andthen[OF follows_call follows_andthen[OF follows_call follows_call]]
  by (simp add: native_wait_finished_def close_channel_def)

lemma follows_ssh_wait: "ho_channel out \<Longrightarrow> follows [SendEof, JoinReaders, Close] (ssh_wait_finished R (Some out))"
  using follows_andthen[OF follows_call follows_andthen[OF follows_call follows_call]]
  by (simp add: ssh_wait_finished_def ssh_close_channel_def)

text \<open>
  How the use of a shell can go: it cannot be opened, or its body runs and whatever comes of that the
  shell is closed; the outcome is the one of the body unless closing raises.
\<close>

definition shell_use ::
  "chan_event list \<Rightarrow> chan_event list \<Rightarrow> (host_output \<Rightarrow> unit chan_prog) \<Rightarrow> (host_output \<Rightarrow> 'a chan_prog)
     \<Rightarrow> chan_event list \<Rightarrow> chan_error + 'a \<Rightarrow> chan_event list \<Rightarrow> bool" where
  "shell_use opening closing close body h r h' \<longleftrightarrow>
     (\<exists>e k. r = Inl e \<and> k \<le> length opening \<and> h' = h @ take k opening) \<or>
     (\<exists>out b evs k. body out (h @ opening) = (b, h @ opening @ evs) \<and> k \<le> length closing \<and>
        h' = h @ opening @ evs @ SendEof # take k closing \<and>
        (r = b \<and> k = length closing \<or> (\<exists>e. r = Inl e \<and> fst (close out (h @ opening @ evs)) = Inl e)))"

lemma with_shell_closes:
  assumes open_shell: "follows opening open_shell" "\<And>h out h'. open_shell h = (Inr out, h') \<Longrightarrow> ho_channel out"
    and close: "\<And>out. ho_channel out \<Longrightarrow> follows closing (wait (Some out))"
    and body: "\<And>out. extends (body out)"
    and run: "with_shell open_shell wait R body h = (r, h')"
  shows "shell_use opening closing (close_interactive_shell wait R True) body h r h'"
proof (cases rule: bind_cases[of open_shell h "\<lambda>out. ensuring (body out) (close_interactive_shell wait R True out)"])
  case (1 e h1)
  then have "with_shell open_shell wait R body h = (Inl e, h1)" by (simp add: with_shell_def)
  with run have "r = Inl e" "h' = h1" by simp_all
  with followsE[OF open_shell(1) 1(1)] show ?thesis unfolding shell_use_def by metis
next
  case (2 out h1)
  then have h1: "h1 = h @ opening"
    using followsE[OF open_shell(1) 2(1)] by (metis (no_types) order_refl sum.disc(2) take_all)
  obtain b h2 where b: "body out h1 = (b, h2)" by force
  with body[of out] obtain evs where evs: "h2 = h1 @ evs" unfolding extends_def by (metis snd_conv)
  obtain c h3 where c: "close_interactive_shell wait R True out h2 = (c, h3)" by force
  from close_shell_events[OF close[OF open_shell(2)[OF 2(1)]] c] obtain k where
    k: "k \<le> length closing" "h3 = h2 @ SendEof # take k closing" "\<not> isl c \<longrightarrow> k = length closing" by blast
  have "with_shell open_shell wait R body h = (case c of Inl e \<Rightarrow> (Inl e, h3) | Inr _ \<Rightarrow> (b, h3))"
    using 2 b c by (simp add: with_shell_def ensuring_def)
  with run k b c h1 evs have "body out (h @ opening) = (b, h @ opening @ evs)"
      "h' = h @ opening @ evs @ SendEof # take k closing"
      "r = b \<and> k = length closing \<or> (\<exists>e. r = Inl e \<and> fst (close_interactive_shell wait R True out (h @ opening @ evs)) = Inl e)"
    by (cases c; force)+
  with k(1) show ?thesis unfolding shell_use_def by blast
qed

section \<open>An IPv6 client behind a proxy\<close>

text \<open>What \<open>127.0.0.1\<close> resolves to: IPv4 addresses only.\<close>

definition loopback_is_ipv4 :: "net \<Rightarrow> bool" where
  "loopback_is_ipv4 N \<longleftrightarrow>
     (\<forall>h port. \<exists>as. resolver N (h @ [Resolve ''127.0.0.1'' port]) = Resolved as \<and> list_all (\<lambda>a. addr_family a = AF_INET) as)"

lemma ipv6_only_loopback:
  assumes "loopback_is_ipv4 N" "ipv6_only P"
  shows "\<exists>as. connect P N ''127.0.0.1'' port retries s = (Inl (ENoIPv6 ''127.0.0.1'' as), emit (Resolve ''127.0.0.1'' port) s)"
proof -
  obtain as where as: "resolver N (history s @ [Resolve ''127.0.0.1'' port]) = Resolved as"
      "list_all (\<lambda>a. addr_family a = AF_INET) as"
    using assms(1) unfolding loopback_is_ipv4_def by blast
  then have "filter (\<lambda>a. addr_family a = AF_INET6) as = []" by (auto simp: list_all_iff filter_empty_conv)
  with as(1) assms(2) have "get_addr_info P N ''127.0.0.1'' port s =
      (Inl (ENoIPv6 ''127.0.0.1'' (map sockaddr as)), emit (Resolve ''127.0.0.1'' port) s)"
    by (simp add: get_addr_info_def emit_def Let_def)
  then show ?thesis by (subst connect.simps) simp
qed

section \<open>Properties\<close>

text \<open>
  C24: A shell that is used as a context manager is closed whatever happens in it: when it could be
  opened, the end of the input is sent after everything that the body did, the end of the output
  is waited for and the channel closed, also when the body raises, whose exception then goes on.
\<close>

theorem shell_scope_always_closes:
  assumes "\<And>out. extends (body out)"
    and "with_shell (open_interactive_shell (native_open_session R) R host t) (native_wait_finished R) R body h = (r, h')"
  shows "shell_use [OpenChannel, RequestShell, SpawnReaders] [WaitEof, Close, WaitClosed]
        (close_interactive_shell (native_wait_finished R) R True) body h r h'"
proof -
  have "follows [OpenChannel, RequestShell, SpawnReaders] (open_interactive_shell (native_open_session R) R host t)"
    using follows_open_shell[OF follows_open(1)] by (simp add: open_calls_def)
  from with_shell_closes[where wait = "native_wait_finished R", OF this open_shell_output follows_native_wait assms]
  show ?thesis .
qed

lemma ssh_shell_scope_closes:
  assumes "\<And>out. extends (body out)"
    and "with_shell (open_interactive_shell (ssh_open_session R) R host t) (ssh_wait_finished R) R body h = (r, h')"
  shows "shell_use [NewChannel, SetNonBlocking, OpenChannel, RequestShell, SpawnReaders] [SendEof, JoinReaders, Close]
        (close_interactive_shell (ssh_wait_finished R) R True) body h r h'"
proof -
  have "follows [NewChannel, SetNonBlocking, OpenChannel, RequestShell, SpawnReaders]
      (open_interactive_shell (ssh_open_session R) R host t)"
    using follows_open_shell[OF follows_open(2)] by (simp add: open_calls_def)
  from with_shell_closes[where wait = "ssh_wait_finished R", OF this open_shell_output follows_ssh_wait assms]
  show ?thesis .
qed

theorem shell_scope_always_closes_witness:
  "shell_use [OpenChannel, RequestShell, SpawnReaders] [WaitEof, Close, WaitClosed]
     (close_interactive_shell (native_wait_finished (\<lambda>h. None)) (\<lambda>h. None) True) (\<lambda>out. throw (ChanError ''x''))
     [] (Inl (ChanError ''x'') :: chan_error + unit)
     [OpenChannel, RequestShell, SpawnReaders, SendEof, WaitEof, Close, WaitClosed]"
proof -
  have "extends (throw (ChanError ''x'') :: unit chan_prog)" by (simp add: extends_def)
  moreover have "with_shell (open_interactive_shell (native_open_session (\<lambda>h. None)) (\<lambda>h. None) ''h'' None)
      (native_wait_finished (\<lambda>h. None)) (\<lambda>h. None) (\<lambda>out. throw (ChanError ''x'') :: unit chan_prog) [] =
    (Inl (ChanError ''x''), [OpenChannel, RequestShell, SpawnReaders, SendEof, WaitEof, Close, WaitClosed])"
    by code_simp
  ultimately show ?thesis by (rule shell_scope_always_closes)
qed



text \<open>
  C28: A client with \<open>ipv6_only\<close> and a proxy never connects: the end of its tunnel is \<open>127.0.0.1\<close>, for
  which it accepts no address.  Nothing is dialled, and as no socket was made the end of the client
  does not tell the forwarder, which goes on serving the tunnel.
\<close>

theorem ipv6_only_client_refuses_its_own_tunnel:
  assumes "arg_proxy_host A = Some proxy" "arg_ipv6_only A" "args_ok X A" "loopback_is_ipv4 N"
    and "native_constructor X N E NP EP fport A = (r, c, p)" "\<And>f. r \<noteq> Inl (ProxyFailed f)"
  shows "(\<exists>as. r = Inl (InitFailed (InitConn (ENoIPv6 ''127.0.0.1'' as)))) \<and>
    (\<forall>ev \<in> set (history (conn_of c)). \<not> is_dial ev) \<and>
    \<not> forwarder_told (native_del N \<lparr>the_client = c, proxied = True, forwarder_told = False\<rparr>)"
proof -
  obtain port where at: "native_client_at X N E A (''127.0.0.1'', port) new_client = (r, c)"
    using assms(1,5,6) by (auto simp: native_constructor_def connection_endpoint_def Let_def split: prod.splits sum.splits)
  obtain k where k: "native_client_at X N E A (''127.0.0.1'', port) new_client =
      (case native_client_init (conn_attributes A) N (auth_attributes X A k None) E (arg_keepalive_seconds A) ''127.0.0.1'' port new_client of
         (Inl e, d) \<Rightarrow> (Inl (InitFailed e), d) | (Inr _, d) \<Rightarrow> (Inr (), d))"
    unfolding native_client_at_def fst_conv snd_conv
    by (rule base_constructor_cases) (use assms(3) in auto)
  have "ipv6_only (conn_attributes A)" using assms(2) by (simp add: conn_attributes_def)
  from ipv6_only_loopback[OF assms(4) this, of port 1 "conn_of new_client"] obtain as where
    "connect (conn_attributes A) N ''127.0.0.1'' port 1 (conn_of new_client) =
       (Inl (ENoIPv6 ''127.0.0.1'' as), emit (Resolve ''127.0.0.1'' port) (conn_of new_client))" by blast
  then have r: "r = Inl (InitFailed (InitConn (ENoIPv6 ''127.0.0.1'' as)))"
      "c = new_client\<lparr>conn_of := emit (Resolve ''127.0.0.1'' port) (conn_of new_client)\<rparr>"
    using at k by (simp_all add: native_client_init_def client_init_def)
  then show ?thesis by (simp add: native_del_def emit_def new_client_def)
qed

definition loopback_net :: net where
  "loopback_net = shaky\<lparr>resolver := \<lambda>h. Resolved [\<lparr>addr_family = AF_INET, addr_type = 1, sockaddr = ''127.0.0.1''\<rparr>]\<rparr>"

theorem ipv6_only_client_refuses_its_own_tunnel_witness:
  "\<exists>as. fst (native_constructor example_home loopback_net example_server shaky example_server 5000
      (plain_args\<lparr>arg_proxy_host := Some ''gw'', arg_ipv6_only := True\<rparr>)) =
     Inl (InitFailed (InitConn (ENoIPv6 ''127.0.0.1'' as)))"
proof -
  let ?A = "plain_args\<lparr>arg_proxy_host := Some ''gw'', arg_ipv6_only := True\<rparr>"
  let ?r = "native_constructor example_home loopback_net example_server shaky example_server 5000 ?A"
  have "args_ok example_home ?A" "loopback_is_ipv4 loopback_net"
    by (simp_all add: args_ok_def key_ok_def plain_args_def loopback_is_ipv4_def loopback_net_def)
  moreover have "fst ?r \<noteq> Inl (ProxyFailed f)" for f
    by code_simp
  ultimately show ?thesis
    using ipv6_only_client_refuses_its_own_tunnel[of ?A "''gw''" example_home loopback_net example_server shaky example_server 5000
        "fst ?r" "fst (snd ?r)" "snd (snd ?r)"]
    by (auto simp: plain_args_def)
qed

end
