(* ===== verification/Version_Render.thy ===== *)
theory Version_Render
  imports Py_Text
begin

text \<open>
  The second half of \<open>pssh/_version.py\<close>: rendering the pieces of a version, which
  \<open>git_pieces_from_vcs\<close> collects, in one of eight styles.

  The dictionary of the pieces is a record.  When it has an error the code leaves the keys
  \<open>closest-tag\<close>, \<open>distance\<close> and \<open>date\<close> out: \<open>Unparsed\<close> is that dictionary, \<open>Parsed\<close> the one
  with \<open>error\<close> \<open>None\<close> and every key.
\<close>

section \<open>Data\<close>

datatype version_error =
    Not_this_method string
  | Version_value_error string
  | Version_type_error
  | Version_attribute_error
  | Version_index_error
  | Version_key_error string
  | Version_decode_error

record base_pieces =
  p_long :: string
  p_short :: string
  p_branch :: "string option"
  p_dirty :: bool

record vcs_pieces = base_pieces +
  p_closest_tag :: "string option"
  p_distance :: nat
  p_date :: string

datatype pieces = Unparsed base_pieces string | Parsed vcs_pieces

record version_info =
  v_version :: string
  v_full_revisionid :: "string option"
  v_dirty :: "bool option"
  v_error :: "string option"
  v_date :: "string option"

type_synonym 'a rendering = "version_error + 'a"

definition and_then :: "'e + 'a \<Rightarrow> ('a \<Rightarrow> 'e + 'b) \<Rightarrow> 'e + 'b" where
  "and_then m f = (case m of Inl e \<Rightarrow> Inl e | Inr x \<Rightarrow> f x)"

lemma and_then_simps [simp]: "and_then (Inl e) f = Inl e" "and_then (Inr x) f = f x"
  by (simp_all add: and_then_def)

definition quoted :: "string \<Rightarrow> string" where
  "quoted s = [CHR 0x27] @ s @ [CHR 0x27]"

text \<open>Whether \<open>pieces["closest-tag"]\<close> is true, and the tag when it is.\<close>

definition truthy_tag :: "vcs_pieces \<Rightarrow> string option" where
  "truthy_tag p = (case p_closest_tag p of None \<Rightarrow> None | Some t \<Rightarrow> if t = [] then None else Some t)"

section \<open>The styles\<close>

definition plus_or_dot :: "vcs_pieces \<Rightarrow> string rendering" where
  "plus_or_dot p =
     (case p_closest_tag p of
        None \<Rightarrow> Inl Version_type_error
      | Some t \<Rightarrow> Inr (if CHR ''+'' \<in> set t then ''.'' else ''+''))"

definition render_pep440 :: "vcs_pieces \<Rightarrow> string rendering" where
  "render_pep440 p =
     (case truthy_tag p of
        Some tag \<Rightarrow>
          if p_distance p \<noteq> 0 \<or> p_dirty p
          then and_then (plus_or_dot p) (\<lambda>sep.
                 Inr (tag @ sep @ dec_nat (p_distance p) @ ''.g'' @ p_short p
                      @ (if p_dirty p then ''.dirty'' else [])))
          else Inr tag
      | None \<Rightarrow> Inr (''0+untagged.'' @ dec_nat (p_distance p) @ ''.g'' @ p_short p
                      @ (if p_dirty p then ''.dirty'' else [])))"

definition render_pep440_branch :: "vcs_pieces \<Rightarrow> string rendering" where
  "render_pep440_branch p =
     (case truthy_tag p of
        Some tag \<Rightarrow>
          if p_distance p \<noteq> 0 \<or> p_dirty p
          then let rendered = tag @ (if p_branch p \<noteq> Some ''master'' then ''.dev0'' else [])
               in and_then (plus_or_dot p) (\<lambda>sep.
                    Inr (rendered @ sep @ dec_nat (p_distance p) @ ''.g'' @ p_short p
                         @ (if p_dirty p then ''.dirty'' else [])))
          else Inr tag
      | None \<Rightarrow> Inr (''0'' @ (if p_branch p \<noteq> Some ''master'' then ''.dev0'' else [])
                      @ ''+untagged.'' @ dec_nat (p_distance p) @ ''.g'' @ p_short p
                      @ (if p_dirty p then ''.dirty'' else [])))"

definition pep440_split_post :: "string \<Rightarrow> (string \<times> int option) rendering" where
  "pep440_split_post ver =
     (let vc = split_str ''.post'' ver in
      if length vc = 2
      then (case py_int (if vc ! 1 = [] then ''0'' else vc ! 1) of
              None \<Rightarrow> Inl (Version_value_error ''invalid literal for int()'')
            | Some n \<Rightarrow> Inr (vc ! 0, Some n))
      else Inr (vc ! 0, None))"

definition render_pep440_pre :: "vcs_pieces \<Rightarrow> string rendering" where
  "render_pep440_pre p =
     (case truthy_tag p of
        Some tag \<Rightarrow>
          if p_distance p \<noteq> 0
          then and_then (pep440_split_post tag) (\<lambda>(tag_version, post_version).
                 case post_version of
                   Some n \<Rightarrow> Inr (tag_version @ ''.post'' @ dec_int (n + 1) @ ''.dev'' @ dec_nat (p_distance p))
                 | None \<Rightarrow> Inr (tag_version @ ''.post0.dev'' @ dec_nat (p_distance p)))
          else Inr tag
      | None \<Rightarrow> Inr (''0.post0.dev'' @ dec_nat (p_distance p)))"

definition render_pep440_post :: "vcs_pieces \<Rightarrow> string rendering" where
  "render_pep440_post p =
     (case truthy_tag p of
        Some tag \<Rightarrow>
          if p_distance p \<noteq> 0 \<or> p_dirty p
          then let rendered = tag @ ''.post'' @ dec_nat (p_distance p) @ (if p_dirty p then ''.dev0'' else [])
               in and_then (plus_or_dot p) (\<lambda>sep. Inr (rendered @ sep @ ''g'' @ p_short p))
          else Inr tag
      | None \<Rightarrow> Inr (''0.post'' @ dec_nat (p_distance p) @ (if p_dirty p then ''.dev0'' else [])
                      @ ''+g'' @ p_short p))"

definition render_pep440_post_branch :: "vcs_pieces \<Rightarrow> string rendering" where
  "render_pep440_post_branch p =
     (case truthy_tag p of
        Some tag \<Rightarrow>
          if p_distance p \<noteq> 0 \<or> p_dirty p
          then let rendered = tag @ ''.post'' @ dec_nat (p_distance p)
                              @ (if p_branch p \<noteq> Some ''master'' then ''.dev0'' else [])
               in and_then (plus_or_dot p) (\<lambda>sep.
                    Inr (rendered @ sep @ ''g'' @ p_short p @ (if p_dirty p then ''.dirty'' else [])))
          else Inr tag
      | None \<Rightarrow> Inr (''0.post'' @ dec_nat (p_distance p)
                      @ (if p_branch p \<noteq> Some ''master'' then ''.dev0'' else [])
                      @ ''+g'' @ p_short p @ (if p_dirty p then ''.dirty'' else [])))"

definition render_pep440_old :: "vcs_pieces \<Rightarrow> string" where
  "render_pep440_old p =
     (case truthy_tag p of
        Some tag \<Rightarrow>
          if p_distance p \<noteq> 0 \<or> p_dirty p
          then tag @ ''.post'' @ dec_nat (p_distance p) @ (if p_dirty p then ''.dev0'' else [])
          else tag
      | None \<Rightarrow> ''0.post'' @ dec_nat (p_distance p) @ (if p_dirty p then ''.dev0'' else []))"

definition render_git_describe :: "vcs_pieces \<Rightarrow> string" where
  "render_git_describe p =
     (case truthy_tag p of
        Some tag \<Rightarrow> tag @ (if p_distance p \<noteq> 0 then ''-'' @ dec_nat (p_distance p) @ ''-g'' @ p_short p else [])
      | None \<Rightarrow> p_short p) @ (if p_dirty p then ''-dirty'' else [])"

definition render_git_describe_long :: "vcs_pieces \<Rightarrow> string" where
  "render_git_describe_long p =
     (case truthy_tag p of
        Some tag \<Rightarrow> tag @ ''-'' @ dec_nat (p_distance p) @ ''-g'' @ p_short p
      | None \<Rightarrow> p_short p) @ (if p_dirty p then ''-dirty'' else [])"

definition render_style :: "vcs_pieces \<Rightarrow> string \<Rightarrow> string rendering" where
  "render_style p style =
     (if style = ''pep440'' then render_pep440 p
      else if style = ''pep440-branch'' then render_pep440_branch p
      else if style = ''pep440-pre'' then render_pep440_pre p
      else if style = ''pep440-post'' then render_pep440_post p
      else if style = ''pep440-post-branch'' then render_pep440_post_branch p
      else if style = ''pep440-old'' then Inr (render_pep440_old p)
      else if style = ''git-describe'' then Inr (render_git_describe p)
      else if style = ''git-describe-long'' then Inr (render_git_describe_long p)
      else Inl (Version_value_error (''unknown style '' @ quoted style)))"

definition render :: "pieces \<Rightarrow> string \<Rightarrow> version_info rendering" where
  "render ps style =
     (case ps of
        Unparsed b err \<Rightarrow>
          Inr \<lparr>v_version = ''unknown'', v_full_revisionid = Some (p_long b), v_dirty = None,
               v_error = Some err, v_date = None\<rparr>
      | Parsed p \<Rightarrow>
          (let style = (if style = [] \<or> style = ''default'' then ''pep440'' else style) in
           and_then (render_style p style) (\<lambda>rendered.
             Inr \<lparr>v_version = rendered, v_full_revisionid = Some (p_long p), v_dirty = Some (p_dirty p),
                  v_error = None, v_date = Some (p_date p)\<rparr>)))"

section \<open>What the styles say\<close>

lemma truthy_tag_Some: "truthy_tag p = Some t \<longleftrightarrow> p_closest_tag p = Some t \<and> t \<noteq> []"
  by (auto simp: truthy_tag_def split: option.splits if_splits)

lemma plus_or_dot_tag:
  "truthy_tag p = Some t \<Longrightarrow> plus_or_dot p = Inr (if CHR ''+'' \<in> set t then ''.'' else ''+'')"
  by (simp add: truthy_tag_Some plus_or_dot_def)

section \<open>Reading a version back\<close>

text \<open>
  What a version in the style \<open>pep440\<close> is meant to say: the tag, the commit unless it is the
  tagged one and clean, and whether the tree was dirty.
\<close>

type_synonym version_identity = "string option \<times> (nat \<times> string) option \<times> bool"

definition identity_of :: "vcs_pieces \<Rightarrow> version_identity" where
  "identity_of p =
     (p_closest_tag p,
      (if p_closest_tag p \<noteq> None \<and> p_distance p = 0 \<and> \<not> p_dirty p then None
       else Some (p_distance p, p_short p)),
      p_dirty p)"

text \<open>Pieces as git gives them: a tag that is not empty and has no \<open>+\<close>, an abbreviated hash.\<close>

definition plain_pieces :: "vcs_pieces \<Rightarrow> bool" where
  "plain_pieces p \<longleftrightarrow>
     (case p_closest_tag p of None \<Rightarrow> True | Some t \<Rightarrow> t \<noteq> [] \<and> CHR ''+'' \<notin> set t)
     \<and> list_all is_hex (p_short p)"

definition read_commit :: "string list \<Rightarrow> ((nat \<times> string) \<times> bool) option" where
  "read_commit parts =
     (case parts of
        n # gh # rest \<Rightarrow>
          (case py_int n of
             None \<Rightarrow> None
           | Some d \<Rightarrow>
               if rest = [] then Some ((nat d, tl gh), False)
               else if rest = [''dirty''] then Some ((nat d, tl gh), True)
               else None)
      | _ \<Rightarrow> None)"

definition read_pep440 :: "string \<Rightarrow> version_identity option" where
  "read_pep440 v =
     (case split_on CHR ''+'' v of
        [t] \<Rightarrow> Some (Some t, None, False)
      | [t, l] \<Rightarrow>
          (case split_on CHR ''.'' l of
             [] \<Rightarrow> None
           | u # us \<Rightarrow>
               if u = ''untagged'' then map_option (\<lambda>(c, d). (None, Some c, d)) (read_commit us)
               else map_option (\<lambda>(c, d). (Some t, Some c, d)) (read_commit (u # us)))
      | _ \<Rightarrow> None)"

lemma hex_plain:
  assumes "list_all is_hex h"
  shows "CHR ''.'' \<notin> set h" "CHR ''+'' \<notin> set h" "CHR ''-'' \<notin> set h" "CHR 0x0A \<notin> set h"
  using assms by (auto simp: list_all_iff is_hex_def is_digit_def Let_def)

lemma dec_nat_plain:
  "CHR ''.'' \<notin> set (dec_nat n)" "CHR ''+'' \<notin> set (dec_nat n)" "CHR ''-'' \<notin> set (dec_nat n)"
  using dec_nat_digits[of "CHR ''.''" n] dec_nat_digits[of "CHR ''+''" n] dec_nat_digits[of "CHR ''-''" n]
  by (auto simp: is_digit_def Let_def)

text \<open>The part of a version that names a commit.\<close>

definition commit_part :: "nat \<Rightarrow> string \<Rightarrow> bool \<Rightarrow> string" where
  "commit_part n h d = dec_nat n @ ''.g'' @ h @ (if d then ''.dirty'' else [])"

lemma commit_part_no_plus: "list_all is_hex h \<Longrightarrow> CHR ''+'' \<notin> set (commit_part n h d)"
  using dec_nat_plain(2)[of n] hex_plain(2)[of h] by (auto simp: commit_part_def)

lemma split_commit_part:
  assumes "list_all is_hex h"
  shows "split_on CHR ''.'' (commit_part n h d) = dec_nat n # (CHR ''g'' # h) # (if d then [''dirty''] else [])"
proof -
  let ?g = "CHR ''g'' # h"
  have g: "CHR ''.'' \<notin> set ?g" using hex_plain(1)[OF assms] by simp
  have "split_on CHR ''.'' (?g @ (if d then ''.dirty'' else [])) = ?g # (if d then [''dirty''] else [])"
    using split_on_append_sep[OF g, of "''dirty''"] split_on_no_sep[OF g] by (cases d) simp_all
  moreover have "split_on CHR ''.'' (commit_part n h d) =
      dec_nat n # split_on CHR ''.'' (?g @ (if d then ''.dirty'' else []))"
    using split_on_append_sep[OF dec_nat_plain(1), of n "?g @ (if d then ''.dirty'' else [])"]
    by (simp add: commit_part_def)
  ultimately show ?thesis by simp
qed

lemma read_commit_part:
  "list_all is_hex h \<Longrightarrow> read_commit (split_on CHR ''.'' (commit_part n h d)) = Some ((n, h), d)"
  by (simp only: split_commit_part) (simp add: read_commit_def py_int_dec_nat)

lemma dec_nat_not_untagged: "dec_nat n \<noteq> ''untagged''"
  using dec_nat_digits[of "CHR ''u''" n] by (auto simp: is_digit_def)

lemma read_pep440_tagged:
  assumes "CHR ''+'' \<notin> set t" "list_all is_hex h"
  shows "read_pep440 (t @ ''+'' @ commit_part n h d) = Some (Some t, Some (n, h), d)"
proof -
  have "split_on CHR ''+'' (t @ ''+'' @ commit_part n h d) = [t, commit_part n h d]"
    using split_on_append_sep[OF assms(1), of "commit_part n h d"]
    by (simp add: split_on_no_sep commit_part_no_plus assms(2))
  moreover have "read_commit (dec_nat n # (CHR ''g'' # h) # (if d then [''dirty''] else [])) = Some ((n, h), d)"
    using read_commit_part[OF assms(2)] by (simp only: split_commit_part[OF assms(2)])
  ultimately show ?thesis
    by (simp add: read_pep440_def split_commit_part[OF assms(2)] dec_nat_not_untagged del: append.simps)
qed

lemma read_pep440_untagged:
  assumes "list_all is_hex h"
  shows "read_pep440 (''0+untagged.'' @ commit_part n h d) = Some (None, Some (n, h), d)"
proof -
  have "split_on CHR ''+'' (''0+untagged.'' @ commit_part n h d) = [''0'', ''untagged.'' @ commit_part n h d]"
    using split_on_append_sep[of "CHR ''+''" "''0''" "''untagged.'' @ commit_part n h d"]
    by (simp add: split_on_no_sep commit_part_no_plus assms)
  moreover have "split_on CHR ''.'' (''untagged.'' @ commit_part n h d) =
      ''untagged'' # split_on CHR ''.'' (commit_part n h d)"
    using split_on_append_sep[of "CHR ''.''" "''untagged''" "commit_part n h d"] by simp
  ultimately show ?thesis
    by (simp add: read_pep440_def read_commit_part[OF assms])
qed

lemma read_render_pep440:
  assumes "plain_pieces p" "render_pep440 p = Inr v"
  shows "read_pep440 v = Some (identity_of p)"
proof (cases "p_closest_tag p")
  case None
  then show ?thesis
    using assms read_pep440_untagged[of "p_short p" "p_distance p" "p_dirty p"]
    by (auto simp: render_pep440_def truthy_tag_def identity_of_def plain_pieces_def commit_part_def)
next
  case (Some t)
  with assms(1) have t: "truthy_tag p = Some t" "CHR ''+'' \<notin> set t" "list_all is_hex (p_short p)"
    by (simp_all add: truthy_tag_def plain_pieces_def)
  show ?thesis
  proof (cases "p_distance p \<noteq> 0 \<or> p_dirty p")
    case True
    then have "v = t @ ''+'' @ commit_part (p_distance p) (p_short p) (p_dirty p)"
      using assms(2) t by (auto simp: render_pep440_def plus_or_dot_tag commit_part_def)
    then show ?thesis
      using read_pep440_tagged[OF t(2,3), of "p_distance p" "p_dirty p"] True Some
      by (auto simp: identity_of_def)
  next
    case False
    then show ?thesis
      using assms(2) t Some split_on_no_sep[OF t(2)]
      by (auto simp: render_pep440_def identity_of_def read_pep440_def)
  qed
qed


lemma dec_nat_5: "dec_nat 5 = ''5''"
  by code_simp


end
