(* ===== verification/Version_Git.thy ===== *)
theory Version_Git
  imports Version_Render "HOL-Library.List_Lexorder" "HOL-Library.Char_ord"
begin

text \<open>
  The first half of \<open>pssh/_version.py\<close>: where the version of the package comes from.  Three
  sources are tried in turn: keywords that \<open>git archive\<close> expanded in the file, the git
  repository the file is in, and the name of a parent directory.

  Processes are not code of the repository: \<open>popen\<close> says what starting a command does, as a
  program over the state of the world, and \<open>decode\<close> is the decoding of its output.  What
  \<open>sys.platform\<close> decides is the value it has on POSIX, and what is printed when \<open>verbose\<close> is
  set (\<open>get_config\<close> never sets it) is left out.
\<close>

section \<open>The configuration\<close>

record versioneer_config =
  VCS :: string
  style :: string
  tag_prefix :: string
  parentdir_prefix :: string
  versionfile_source :: string
  verbose :: bool

definition get_config :: versioneer_config where
  "get_config = \<lparr>VCS = ''git'', style = ''pep440'', tag_prefix = [], parentdir_prefix = ''None'',
     versionfile_source = ''pssh/_version.py'', verbose = False\<rparr>"

definition get_keywords :: "string \<rightharpoonup> string" where
  "get_keywords = [''refnames'' \<mapsto> ''$Format:%d$'', ''full'' \<mapsto> ''$Format:%H$'', ''date'' \<mapsto> ''$Format:%ci$'']"

definition register_vcs_handler ::
  "(string \<rightharpoonup> (string \<rightharpoonup> 'f)) \<Rightarrow> string \<Rightarrow> string \<Rightarrow> 'f \<Rightarrow> (string \<rightharpoonup> (string \<rightharpoonup> 'f))" where
  "register_vcs_handler handlers vcs meth f =
     (let handlers = (if vcs \<notin> dom handlers then handlers(vcs \<mapsto> Map.empty) else handlers)
      in handlers(vcs \<mapsto> (the (handlers vcs))(meth \<mapsto> f)))"

section \<open>Running git\<close>

text \<open>What starting a command does: \<open>ENOENT\<close>, another \<open>OSError\<close>, or a process that ends.\<close>

datatype spawned = Command_not_found | Command_os_error | Process bytes int

type_synonym command_result = "string option \<times> int option"

fun run_vcs_command ::
  "(string list \<Rightarrow> string \<Rightarrow> ('s, version_error, spawned) prog) \<Rightarrow> (bytes \<Rightarrow> string option) \<Rightarrow>
   string list \<Rightarrow> string list \<Rightarrow> string \<Rightarrow> ('s, version_error, command_result) prog" where
  "run_vcs_command popen decode [] args cwd = return (None, None)"
| "run_vcs_command popen decode (command # commands) args cwd =
     bind (popen (command # args) cwd) (\<lambda>process.
       case process of
         Command_not_found \<Rightarrow> run_vcs_command popen decode commands args cwd
       | Command_os_error \<Rightarrow> return (None, None)
       | Process out rc \<Rightarrow>
           (case decode (strip_of is_ascii_space out) of
              None \<Rightarrow> throw Version_decode_error
            | Some stdout \<Rightarrow>
                if rc \<noteq> 0 then return (None, Some rc) else return (Some stdout, Some rc)))"

section \<open>The name of a parent directory\<close>

fun search_rootdirs :: "nat \<Rightarrow> string \<Rightarrow> string \<Rightarrow> version_info option" where
  "search_rootdirs 0 pre root = None"
| "search_rootdirs (Suc n) pre root =
     (let dirname = path_basename root in
      if has_prefix pre dirname
      then Some \<lparr>v_version = drop (length pre) dirname, v_full_revisionid = None,
                 v_dirty = Some False, v_error = None, v_date = None\<rparr>
      else search_rootdirs n pre (path_dirname root))"

definition versions_from_parentdir :: "string \<Rightarrow> string \<Rightarrow> version_info rendering" where
  "versions_from_parentdir pre root =
     (case search_rootdirs 3 pre root of
        Some info \<Rightarrow> Inr info
      | None \<Rightarrow> Inl (Not_this_method ''rootdir doesn't start with parentdir_prefix''))"

section \<open>Keywords that git expanded\<close>

text \<open>\<open>re.search(r'=\s*"(.*)"', line)\<close>, and the lines of the file, \<open>None\<close> when it cannot be read.\<close>

definition match_quoted :: "string \<Rightarrow> string option" where
  "match_quoted s =
     (case dropWhile is_space s of
        [] \<Rightarrow> None
      | c # rest \<Rightarrow>
          if c \<noteq> CHR 0x22 then None
          else let r = takeWhile (\<lambda>x. x \<noteq> CHR 0x0A) rest in
               if CHR 0x22 \<in> set r then Some (take (nat (rfind CHR 0x22 r)) r) else None)"

fun search_quoted :: "string \<Rightarrow> string option" where
  "search_quoted [] = None"
| "search_quoted (c # cs) =
     (if c = CHR ''='' then (case match_quoted cs of Some g \<Rightarrow> Some g | None \<Rightarrow> search_quoted cs)
      else search_quoted cs)"

definition keyword_line :: "string \<Rightarrow> string \<Rightarrow> string \<Rightarrow> (string \<rightharpoonup> string) \<Rightarrow> (string \<rightharpoonup> string)" where
  "keyword_line line start key keywords =
     (if has_prefix start (strip line)
      then (case search_quoted line of Some g \<Rightarrow> keywords(key \<mapsto> g) | None \<Rightarrow> keywords)
      else keywords)"

definition git_get_keywords :: "string list option \<Rightarrow> (string \<rightharpoonup> string)" where
  "git_get_keywords file =
     (case file of
        None \<Rightarrow> Map.empty
      | Some lines \<Rightarrow>
          fold (\<lambda>line keywords.
                  keyword_line line ''git_date ='' ''date''
                    (keyword_line line ''git_full ='' ''full''
                      (keyword_line line ''git_refnames ='' ''refnames'' keywords)))
               lines Map.empty)"

fun pick_tag :: "string \<Rightarrow> string list \<Rightarrow> string option" where
  "pick_tag pre [] = None"
| "pick_tag pre (ref # refs) =
     (if has_prefix pre ref
      then (let r = drop (length pre) ref in
            if \<not> (r \<noteq> [] \<and> is_digit (hd r)) then pick_tag pre refs else Some r)
      else pick_tag pre refs)"

text \<open>The last line of a date, made compliant with ISO 8601; an empty date has no last line.\<close>

definition iso_date :: "string \<Rightarrow> string rendering" where
  "iso_date date =
     (if splitlines date = [] then Inl Version_index_error
      else Inr (replace_first CHR '' '' [] (replace_first CHR '' '' ''T'' (strip (last (splitlines date))))))"

definition likely_tags :: "string list \<Rightarrow> string list" where
  "likely_tags refs =
     (let tags = map (drop (length ''tag: '')) (filter (has_prefix ''tag: '') refs)
      in if tags = [] then filter (\<lambda>r. \<exists>c\<in>set r. is_digit c) refs else tags)"

definition ref_names :: "string \<Rightarrow> string list" where
  "ref_names refnames =
     map strip (split_on CHR '','' (strip_of (\<lambda>c. c = CHR ''('' \<or> c = CHR '')'') refnames))"

definition git_versions_from_keywords :: "(string \<rightharpoonup> string) \<Rightarrow> string \<Rightarrow> version_info rendering" where
  "git_versions_from_keywords keywords pre =
     (case keywords ''refnames'' of
        None \<Rightarrow> Inl (Not_this_method ''Short version file found'')
      | Some refnames \<Rightarrow>
          and_then (case keywords ''date'' of
                      None \<Rightarrow> Inr None
                    | Some date \<Rightarrow> and_then (iso_date date) (\<lambda>d. Inr (Some d))) (\<lambda>date.
            let refnames = strip refnames in
            if has_prefix ''$Format'' refnames
            then Inl (Not_this_method ''unexpanded keywords, not a git-archive tarball'')
            else
              let tags = likely_tags (ref_names refnames)
              in (case keywords ''full'' of
                    None \<Rightarrow> Inl (Version_key_error ''full'')
                  | Some full \<Rightarrow>
                      (case pick_tag pre (sort (remdups tags)) of
                         Some r \<Rightarrow> Inr \<lparr>v_version = r, v_full_revisionid = Some (strip full),
                                        v_dirty = Some False, v_error = None, v_date = date\<rparr>
                       | None \<Rightarrow> Inr \<lparr>v_version = ''0+unknown'', v_full_revisionid = Some (strip full),
                                      v_dirty = Some False, v_error = Some ''no suitable tags'', v_date = None\<rparr>))))"

section \<open>The git repository\<close>

text \<open>
  \<open>runner\<close> is \<open>run_vcs_command\<close> with the names of git, the directory and the environment
  filled in, as \<open>functools.partial\<close> and the calls do.
\<close>

type_synonym 's runner = "string list \<Rightarrow> ('s, version_error, command_result) prog"

definition describe_args :: "string \<Rightarrow> string list" where
  "describe_args pre =
     [''describe'', ''--tags'', ''--dirty'', ''--always'', ''--long'', ''--match'', pre @ ''[[:digit:]]*'']"

text \<open>\<open>re.search(r'^(.+)-(\d+)-g([0-9a-f]+)$', s)\<close>: the last two hyphens part the groups.\<close>

definition match_describe :: "string \<Rightarrow> (string \<times> string \<times> string) option" where
  "match_describe s =
     (case rev (split_on CHR ''-'' s) of
        gh # num # t # ts \<Rightarrow>
          (let tag = join_with CHR ''-'' (rev (t # ts));
               hex = (if has_suffix [CHR 0x0A] gh then butlast gh else gh)
           in if tag \<noteq> [] \<and> CHR 0x0A \<notin> set tag
                 \<and> num \<noteq> [] \<and> list_all is_digit num
                 \<and> hex \<noteq> [] \<and> hd hex = CHR ''g'' \<and> tl hex \<noteq> [] \<and> list_all is_hex (tl hex)
              then Some (tag, num, tl hex) else None)
      | _ \<Rightarrow> None)"

definition split_dirty :: "string \<Rightarrow> bool \<times> string" where
  "split_dirty git_describe =
     (if has_suffix ''-dirty'' git_describe
      then (True, take (the (rindex_str ''-dirty'' git_describe)) git_describe)
      else (False, git_describe))"

definition branch_containing_head :: "'s runner \<Rightarrow> ('s, version_error, string option) prog" where
  "branch_containing_head runner =
     bind (runner [''branch'', ''--contains'']) (\<lambda>(branches, rc).
       case branches of
         None \<Rightarrow> throw (Not_this_method (quoted ''git branch --contains'' @ '' returned error''))
       | Some branches \<Rightarrow>
           if rc \<noteq> Some 0 then throw (Not_this_method (quoted ''git branch --contains'' @ '' returned error''))
           else let branches = split_on CHR 0x0A branches;
                    branches = (if CHR ''('' \<in> set (hd branches) then tl branches else branches);
                    branches = map (drop 2) branches
                in return (if ''master'' \<in> set branches then Some ''master''
                           else if branches = [] then None
                           else Some (hd branches)))"

definition commit_date :: "'s runner \<Rightarrow> ('s, version_error, string) prog" where
  "commit_date runner =
     bind (runner [''show'', ''-s'', ''--format=%ci'', ''HEAD'']) (\<lambda>(out, _).
       case out of
         None \<Rightarrow> throw Version_attribute_error
       | Some date \<Rightarrow> (case iso_date (strip date) of Inl e \<Rightarrow> throw e | Inr d \<Rightarrow> return d))"

text \<open>
  What is done with the output of \<open>git describe\<close>: the tag, the distance and the hash, or the
  number of commits when there is no tag; the date comes last.
\<close>

definition pieces_of_describe ::
  "string \<Rightarrow> 's runner \<Rightarrow> string \<Rightarrow> string \<Rightarrow> string option \<Rightarrow> ('s, version_error, pieces) prog" where
  "pieces_of_describe pre runner describe_out full_out branch_name =
     (let (dirty, git_describe) = split_dirty describe_out;
          base = \<lparr>p_long = full_out, p_short = take 7 full_out, p_branch = branch_name, p_dirty = dirty\<rparr>
      in if CHR ''-'' \<in> set git_describe
         then (case match_describe git_describe of
                 None \<Rightarrow> return (Unparsed base
                   (''unable to parse git-describe output: '' @ quoted describe_out))
               | Some (full_tag, num, hex) \<Rightarrow>
                   if \<not> has_prefix pre full_tag
                   then return (Unparsed base
                     (''tag '' @ quoted full_tag @ '' doesn't start with prefix ''
                      @ quoted pre))
                   else bind (commit_date runner) (\<lambda>date.
                          return (Parsed \<lparr>p_long = full_out, p_short = hex, p_branch = branch_name,
                            p_dirty = dirty, p_closest_tag = Some (drop (length pre) full_tag),
                            p_distance = nat (the (py_int num)), p_date = date\<rparr>)))
         else bind (runner [''rev-list'', ''HEAD'', ''--left-right'']) (\<lambda>(out, _).
                case out of
                  None \<Rightarrow> throw Version_attribute_error
                | Some out \<Rightarrow>
                    bind (commit_date runner) (\<lambda>date.
                      return (Parsed \<lparr>p_long = full_out, p_short = take 7 full_out, p_branch = branch_name,
                        p_dirty = dirty, p_closest_tag = None,
                        p_distance = length (split_words out), p_date = date\<rparr>))))"

definition git_pieces_from_vcs :: "string \<Rightarrow> 's runner \<Rightarrow> ('s, version_error, pieces) prog" where
  "git_pieces_from_vcs pre runner =
     bind (runner [''rev-parse'', ''--git-dir'']) (\<lambda>(_, rc).
       if rc \<noteq> Some 0 then throw (Not_this_method (quoted ''git rev-parse --git-dir'' @ '' returned error''))
       else bind (runner (describe_args pre)) (\<lambda>(describe_out, _).
         case describe_out of
           None \<Rightarrow> throw (Not_this_method (quoted ''git describe'' @ '' failed''))
         | Some describe_out \<Rightarrow>
             bind (runner [''rev-parse'', ''HEAD'']) (\<lambda>(full_out, _).
               case full_out of
                 None \<Rightarrow> throw (Not_this_method (quoted ''git rev-parse'' @ '' failed''))
               | Some full_out \<Rightarrow>
                   bind (runner [''rev-parse'', ''--abbrev-ref'', ''HEAD'']) (\<lambda>(branch_name, rc).
                     case branch_name of
                       None \<Rightarrow> throw (Not_this_method (quoted ''git rev-parse --abbrev-ref'' @ '' returned error''))
                     | Some branch_name \<Rightarrow>
                         if rc \<noteq> Some 0
                         then throw (Not_this_method (quoted ''git rev-parse --abbrev-ref'' @ '' returned error''))
                         else bind (if strip branch_name = ''HEAD'' then branch_containing_head runner
                                    else return (Some (strip branch_name))) (\<lambda>branch.
                                pieces_of_describe pre runner (strip describe_out) (strip full_out) branch)))))"

section \<open>The version of the package\<close>

definition unknown_version :: "string \<Rightarrow> version_info" where
  "unknown_version err = \<lparr>v_version = ''0+unknown'', v_full_revisionid = None, v_dirty = None,
     v_error = Some err, v_date = None\<rparr>"

definition root_of :: "string \<Rightarrow> string \<Rightarrow> string" where
  "root_of source realpath = fold (\<lambda>_ root. path_dirname root) (split_on SLASH source) realpath"

text \<open>
  \<open>keywords\<close> is what \<open>get_keywords\<close> answers, which \<open>git archive\<close> may have expanded; \<open>file\<close> the
  real path of the file, \<open>None\<close> when there is no \<open>__file__\<close>; \<open>runner\<close> runs git in the root.
\<close>

definition versions_by_name :: "versioneer_config \<Rightarrow> string \<Rightarrow> ('s, version_error, version_info) prog" where
  "versions_by_name cfg root =
     (case (if parentdir_prefix cfg \<noteq> [] then versions_from_parentdir (parentdir_prefix cfg) root
            else Inl (Not_this_method [])) of
        Inr info \<Rightarrow> return info
      | Inl (Not_this_method _) \<Rightarrow> return (unknown_version ''unable to compute version'')
      | Inl e \<Rightarrow> throw e)"

definition versions_from_git ::
  "versioneer_config \<Rightarrow> 's runner \<Rightarrow> ('s, version_error, version_info) prog" where
  "versions_from_git cfg runner =
     bind (git_pieces_from_vcs (tag_prefix cfg) runner) (\<lambda>pieces.
       case render pieces (style cfg) of Inl e \<Rightarrow> throw e | Inr info \<Rightarrow> return info)"

definition get_versions ::
  "(string \<rightharpoonup> string) \<Rightarrow> string option \<Rightarrow> (string \<Rightarrow> 's runner) \<Rightarrow> ('s, version_error, version_info) prog" where
  "get_versions keywords file runner =
     (let cfg = get_config in
      case git_versions_from_keywords keywords (tag_prefix cfg) of
        Inr info \<Rightarrow> return info
      | Inl (Not_this_method _) \<Rightarrow>
          (case file of
             None \<Rightarrow> return (unknown_version ''unable to find root of source tree'')
           | Some realpath \<Rightarrow>
               let root = root_of (versionfile_source cfg) realpath in
               attempt (versions_from_git cfg (runner root)) (\<lambda>e.
                 case e of
                   Not_this_method _ \<Rightarrow> versions_by_name cfg root
                 | _ \<Rightarrow> throw e))
      | Inl e \<Rightarrow> throw e)"

section \<open>Reading what git describe prints\<close>

lemma no_space_no_newline: "(\<And>c. c \<in> set t \<Longrightarrow> \<not> is_space c) \<Longrightarrow> CHR 0x0A \<notin> set t"
  by (force simp: is_space_def)

lemma match_describe_long:
  assumes t: "t \<noteq> []" "CHR 0x0A \<notin> set t" and h: "h \<noteq> []" "list_all is_hex h"
  shows "match_describe (t @ ''-'' @ dec_nat n @ ''-g'' @ h) = Some (t, dec_nat n, h)"
proof -
  let ?g = "CHR ''g'' # h"
  have "split_on CHR ''-'' (dec_nat n @ CHR ''-'' # ?g) = [dec_nat n, ?g]"
    using dec_nat_plain(3) hex_plain(3)[OF h(2)] by (simp add: split_on_append_sep split_on_no_sep)
  then have "split_on CHR ''-'' (t @ ''-'' @ dec_nat n @ ''-g'' @ h) =
      split_on CHR ''-'' t @ [dec_nat n, ?g]" by (simp add: split_on_at_sep)
  moreover obtain u us where r: "rev (split_on CHR ''-'' t) = u # us"
    by (metis list.exhaust rev_is_Nil_conv split_on_nonempty)
  moreover from r have "join_with CHR ''-'' (rev (u # us)) = t"
    by (metis join_split rev_rev_ident)
  moreover have "\<not> has_suffix [CHR 0x0A] ?g"
    using has_suffix_last[of "[CHR 0x0A]" ?g] hex_plain(4)[OF h(2)] h(1) by (metis last_ConsL last_ConsR last_in_set list.distinct(1))
  ultimately show ?thesis
    using t h by (simp add: match_describe_def list_all_iff dec_nat_digits)
qed

lemma split_dirty_suffix: "split_dirty (s @ ''-dirty'') = (True, s)"
  using rindex_suffix[of "''-dirty''" s] by (simp add: split_dirty_def)

lemma split_dirty_hex:
  assumes "h \<noteq> []" "list_all is_hex h"
  shows "split_dirty (s @ h) = (False, s @ h)"
proof -
  have "is_hex (last (s @ h))" using assms by (simp add: list_all_iff)
  then have "\<not> has_suffix ''-dirty'' (s @ h)"
    using has_suffix_last[of "''-dirty''" "s @ h"] by (auto simp: is_hex_def is_digit_def)
  then show ?thesis by (simp add: split_dirty_def)
qed

definition describe_tagged :: "vcs_pieces \<Rightarrow> string \<Rightarrow> bool" where
  "describe_tagged p t \<longleftrightarrow>
     p_closest_tag p = Some t \<and> t \<noteq> [] \<and> list_all (\<lambda>c. \<not> is_space c) t
     \<and> p_short p \<noteq> [] \<and> list_all is_hex (p_short p)"

lemma split_dirty_described:
  assumes "describe_tagged p t"
  shows "split_dirty (render_git_describe_long p) =
         (p_dirty p, t @ ''-'' @ dec_nat (p_distance p) @ ''-g'' @ p_short p)"
proof -
  let ?s = "t @ ''-'' @ dec_nat (p_distance p) @ ''-g'' @ p_short p"
  have "render_git_describe_long p = ?s @ (if p_dirty p then ''-dirty'' else [])"
    using assms by (simp add: describe_tagged_def render_git_describe_long_def truthy_tag_def)
  moreover have "split_dirty ?s = (False, ?s)"
    using split_dirty_hex[of "p_short p" "t @ ''-'' @ dec_nat (p_distance p) @ ''-g''"] assms
    by (simp add: describe_tagged_def)
  ultimately show ?thesis using split_dirty_suffix[of ?s] by (cases "p_dirty p") simp_all
qed

lemma described_no_space:
  assumes "describe_tagged p t"
  shows "strip (render_git_describe_long p) = render_git_describe_long p"
proof (rule strip_id)
  fix c
  have lit: "list_all (\<lambda>c. \<not> is_space c) ''-dirty''" "list_all (\<lambda>c. \<not> is_space c) ''-g''"
    by (simp_all add: is_space_def)
  have "list_all (\<lambda>c. \<not> is_space c) (dec_nat n)" for n
    using dec_nat_digits is_digit_not_space by (auto simp: list_all_iff)
  moreover have "list_all (\<lambda>c. \<not> is_space c) (p_short p)"
    using assms is_hex_not_space by (auto simp: list_all_iff describe_tagged_def)
  ultimately have "list_all (\<lambda>c. \<not> is_space c) (render_git_describe_long p)"
    using assms lit by (simp add: describe_tagged_def render_git_describe_long_def truthy_tag_def)
  then show "c \<in> set (render_git_describe_long p) \<Longrightarrow> \<not> is_space c"
    by (simp add: list_all_iff)
qed

lemma pieces_of_describe_tagged:
  assumes p: "describe_tagged p t"
    and date: "commit_date runner s = (Inr (p_date p), s')"
  shows "pieces_of_describe [] runner (render_git_describe_long p) (p_long p) (p_branch p) s = (Inr (Parsed p), s')"
proof -
  have "match_describe (t @ ''-'' @ dec_nat (p_distance p) @ ''-g'' @ p_short p) =
      Some (t, dec_nat (p_distance p), p_short p)"
    using p by (intro match_describe_long) (auto simp: describe_tagged_def list_all_iff intro!: no_space_no_newline)
  with p date show ?thesis
    by (simp add: pieces_of_describe_def split_dirty_described[OF p] describe_tagged_def py_int_dec_nat)
qed

section \<open>What the version of the package is\<close>

text \<open>A command that succeeds and prints \<open>out\<close>, and changes nothing.\<close>

definition answers :: "'s runner \<Rightarrow> string list \<Rightarrow> string \<Rightarrow> bool" where
  "answers runner args out \<longleftrightarrow> (\<forall>s. runner args s = (Inr (Some out, Some 0), s))"

lemma answersD: "answers runner args out \<Longrightarrow> runner args s = (Inr (Some out, Some 0), s)"
  by (simp add: answers_def)

lemma unexpanded_keywords:
  "git_versions_from_keywords get_keywords [] =
   Inl (Not_this_method ''unexpanded keywords, not a git-archive tarball'')"
  by code_simp

lemma tag_prefix_config: "tag_prefix get_config = []"
  by (simp add: get_config_def)

lemma root_of_version_file:
  assumes "root \<noteq> []" "last root \<noteq> SLASH"
  shows "root_of (versionfile_source get_config) (root @ ''/pssh/_version.py'') = root"
proof -
  have s: "split_on SLASH (versionfile_source get_config) = [''pssh'', ''_version.py'']"
    by (simp add: get_config_def)
  have "path_dirname ((root @ ''/pssh'') @ SLASH # ''_version.py'') = root @ ''/pssh''"
    by (rule path_dirname_join) simp_all
  moreover have "path_dirname (root @ SLASH # ''pssh'') = root"
    using assms by (intro path_dirname_join) simp_all
  ultimately show ?thesis by (simp add: root_of_def s)
qed

text \<open>A checkout of git, on a branch, at \<open>distance\<close> commits from a tag.\<close>

definition tagged_checkout :: "'s runner \<Rightarrow> vcs_pieces \<Rightarrow> string \<Rightarrow> bool" where
  "tagged_checkout git p t \<longleftrightarrow>
     describe_tagged p t
     \<and> (\<exists>dir. answers git [''rev-parse'', ''--git-dir''] dir)
     \<and> answers git (describe_args []) (render_git_describe_long p)
     \<and> answers git [''rev-parse'', ''HEAD''] (p_long p) \<and> strip (p_long p) = p_long p
     \<and> (\<exists>b. answers git [''rev-parse'', ''--abbrev-ref'', ''HEAD''] b \<and> strip b \<noteq> ''HEAD'' \<and> p_branch p = Some (strip b))
     \<and> (\<exists>d. answers git [''show'', ''-s'', ''--format=%ci'', ''HEAD''] d \<and> iso_date (strip d) = Inr (p_date p))"

lemma pieces_of_tagged_checkout:
  assumes "tagged_checkout git p t"
  shows "git_pieces_from_vcs [] git s = (Inr (Parsed p), s)"
proof -
  from assms obtain dir b d where p: "describe_tagged p t"
    and a: "answers git [''rev-parse'', ''--git-dir''] dir"
      "answers git (describe_args []) (render_git_describe_long p)"
      "answers git [''rev-parse'', ''HEAD''] (p_long p)"
      "answers git [''rev-parse'', ''--abbrev-ref'', ''HEAD''] b"
      "answers git [''show'', ''-s'', ''--format=%ci'', ''HEAD''] d"
    and e: "strip (p_long p) = p_long p" "strip b \<noteq> ''HEAD''" "p_branch p = Some (strip b)"
      "iso_date (strip d) = Inr (p_date p)"
    unfolding tagged_checkout_def by blast
  note run = answersD[OF a(1)] answersD[OF a(2)] answersD[OF a(3)] answersD[OF a(4)]
  have "commit_date git s = (Inr (p_date p), s)" for s
    by (simp add: commit_date_def bind_def answersD[OF a(5)] e(4))
  then show ?thesis
    using pieces_of_describe_tagged[OF p, of git s s]
    by (simp add: git_pieces_from_vcs_def bind_def run described_no_space[OF p] e)
qed

definition pep440_version :: "vcs_pieces \<Rightarrow> string \<Rightarrow> string" where
  "pep440_version p t =
     (if p_distance p = 0 \<and> \<not> p_dirty p then t
      else t @ (if CHR ''+'' \<in> set t then ''.'' else ''+'') @ commit_part (p_distance p) (p_short p) (p_dirty p))"

lemma version_in_checkout:
  assumes git: "tagged_checkout (git root) p t" and root: "root \<noteq> []" "last root \<noteq> SLASH"
  shows "get_versions get_keywords (Some (root @ ''/pssh/_version.py'')) git s =
    (Inr \<lparr>v_version = pep440_version p t, v_full_revisionid = Some (p_long p), v_dirty = Some (p_dirty p),
          v_error = None, v_date = Some (p_date p)\<rparr>, s)"
proof -
  from git have "truthy_tag p = Some t"
    by (simp add: tagged_checkout_def describe_tagged_def truthy_tag_def)
  then have "render_pep440 p = Inr (pep440_version p t)"
    by (simp add: render_pep440_def plus_or_dot_tag pep440_version_def commit_part_def)
  then have "versions_from_git get_config (git root) s =
      (Inr \<lparr>v_version = pep440_version p t, v_full_revisionid = Some (p_long p), v_dirty = Some (p_dirty p),
            v_error = None, v_date = Some (p_date p)\<rparr>, s)"
    using pieces_of_tagged_checkout[OF git, of s]
    by (simp add: versions_from_git_def get_config_def render_def render_style_def bind_def)
  moreover have "tag_prefix get_config = []" by (simp add: get_config_def)
  ultimately show ?thesis
    using root_of_version_file[OF root] by (simp add: get_versions_def unexpanded_keywords attempt_def Let_def)
qed

text \<open>
  C17: In a checkout on a branch, the version is the tag that \<open>git describe\<close> names, followed unless
  the tagged commit is checked out clean by the distance and the hash, and by \<open>.dirty\<close> for a
  tree with changes: what git printed is taken apart correctly, tags with hyphens included, and
  nothing else is tried.
\<close>

theorem checkout_gives_its_describe_version:
  assumes "tagged_checkout (git root) p t" "root \<noteq> []" "last root \<noteq> SLASH"
  shows "\<exists>info. get_versions get_keywords (Some (root @ ''/pssh/_version.py'')) git s = (Inr info, s)
    \<and> v_version info = pep440_version p t \<and> v_full_revisionid info = Some (p_long p)
    \<and> v_dirty info = Some (p_dirty p) \<and> v_error info = None"
  by (simp add: version_in_checkout[where git = git and root = root, OF assms])

definition example_git :: "string \<Rightarrow> unit runner" where
  "example_git cwd args =
     return (Some (if args = describe_args [] then ''2.12-rc-5-gabc1234''
                   else if args = [''rev-parse'', ''--abbrev-ref'', ''HEAD''] then ''master''
                   else if args = [''show'', ''-s'', ''--format=%ci'', ''HEAD''] then ''2021-01-02 03:04:05 +0000''
                   else ''abc1234567''), Some 0)"

definition example_pieces :: vcs_pieces where
  "example_pieces = \<lparr>p_long = ''abc1234567'', p_short = ''abc1234'', p_branch = Some ''master'',
     p_dirty = False, p_closest_tag = Some ''2.12-rc'', p_distance = 5, p_date = ''2021-01-02T03:04:05+0000''\<rparr>"

lemma example_checkout: "tagged_checkout (example_git root) example_pieces ''2.12-rc''"
proof -
  have "describe_tagged example_pieces ''2.12-rc''"
    by (simp add: describe_tagged_def example_pieces_def is_space_def is_hex_def is_digit_def)
  moreover have "render_git_describe_long example_pieces = ''2.12-rc-5-gabc1234''"
    by code_simp
  moreover have "strip ''abc1234567'' = ''abc1234567''" "strip ''master'' = ''master''"
    "iso_date (strip ''2021-01-02 03:04:05 +0000'') = Inr ''2021-01-02T03:04:05+0000''"
    by code_simp+
  ultimately show ?thesis
    by (auto simp: tagged_checkout_def answers_def example_git_def describe_args_def example_pieces_def)
qed

theorem checkout_gives_its_describe_version_witness:
  "\<exists>info. get_versions get_keywords (Some ''/src/pssh/_version.py'') example_git () = (Inr info, ())
     \<and> v_version info = pep440_version example_pieces ''2.12-rc''
     \<and> pep440_version example_pieces ''2.12-rc'' = ''2.12-rc+5.gabc1234''"
proof -
  have "pep440_version example_pieces ''2.12-rc'' = ''2.12-rc+5.gabc1234''" by code_simp
  then show ?thesis
    using checkout_gives_its_describe_version[where git = example_git and root = "''/src''" and s = "()",
        OF example_checkout] by auto
qed

section \<open>The other sources\<close>

lemma version_from_parents:
  "versions_by_name get_config root =
   return (case search_rootdirs 3 ''None'' root of
             Some info \<Rightarrow> info | None \<Rightarrow> unknown_version ''unable to compute version'')"
  by (simp add: versions_by_name_def versions_from_parentdir_def get_config_def split: option.split)

lemma not_a_repository:
  assumes "runner [''rev-parse'', ''--git-dir''] s = (Inr (out, rc), s')" "rc \<noteq> Some 0"
  shows "\<exists>m. versions_from_git cfg runner s = (Inl (Not_this_method m), s')"
  using assms by (simp add: versions_from_git_def git_pieces_from_vcs_def bind_def)

text \<open>
  Without git there is always a version, and never an exception: that of a parent directory
  whose name starts with the prefix, or \<open>0+unknown\<close>.
\<close>

lemma get_versions_no_git:
  assumes "\<And>args cwd s. popen args cwd s = (Inr Command_not_found, s)"
  shows "get_versions get_keywords located (\<lambda>cwd args. run_vcs_command popen decode [''git''] args cwd) s =
    (Inr (case located of
            None \<Rightarrow> unknown_version ''unable to find root of source tree''
          | Some f \<Rightarrow>
              (case search_rootdirs 3 ''None'' (root_of (versionfile_source get_config) f) of
                 Some info \<Rightarrow> info | None \<Rightarrow> unknown_version ''unable to compute version'')), s)"
proof (cases located)
  case None
  then show ?thesis
    by (simp add: get_versions_def get_config_def unexpanded_keywords)
next
  case (Some f)
  let ?root = "root_of (versionfile_source get_config) f"
  let ?git = "\<lambda>cwd args. run_vcs_command popen decode [''git''] args cwd"
  have "?git ?root [''rev-parse'', ''--git-dir''] s = (Inr (None, None), s)"
    by (simp add: bind_def assms)
  from not_a_repository[where cfg = get_config and runner = "?git ?root", OF this] obtain m
    where "versions_from_git get_config (?git ?root) s = (Inl (Not_this_method m), s)" by auto
  moreover have "tag_prefix get_config = []" by (simp add: get_config_def)
  ultimately show ?thesis
    by (simp add: Some get_versions_def Let_def unexpanded_keywords attempt_def version_from_parents
        del: run_vcs_command.simps)
qed

theorem without_git_there_is_a_version:
  assumes "\<And>args cwd s. popen args cwd s = (Inr Command_not_found, s)"
  shows "get_versions get_keywords located (\<lambda>cwd args. run_vcs_command popen decode [''git''] args cwd) s =
    (Inr (case located of
            None \<Rightarrow> unknown_version ''unable to find root of source tree''
          | Some f \<Rightarrow>
              (case search_rootdirs 3 ''None'' (root_of (versionfile_source get_config) f) of
                 Some info \<Rightarrow> info | None \<Rightarrow> unknown_version ''unable to compute version'')), s)"
  by (rule get_versions_no_git[OF assms])

theorem without_git_there_is_a_version_witness:
  "get_versions get_keywords (Some ''/opt/None2.0/pssh/_version.py'')
     (\<lambda>cwd args. run_vcs_command (\<lambda>args cwd s. (Inr Command_not_found, s)) Some [''git''] args cwd) ()
   = (Inr \<lparr>v_version = ''2.0'', v_full_revisionid = None, v_dirty = Some False, v_error = None, v_date = None\<rparr>, ())"
proof -
  have "search_rootdirs 3 ''None'' (root_of (versionfile_source get_config) ''/opt/None2.0/pssh/_version.py'') =
      Some \<lparr>v_version = ''2.0'', v_full_revisionid = None, v_dirty = Some False, v_error = None, v_date = None\<rparr>"
    by code_simp
  then show ?thesis
    using without_git_there_is_a_version[where popen = "\<lambda>args cwd s. (Inr Command_not_found, s)" and s = "()"
        and decode = Some and located = "Some ''/opt/None2.0/pssh/_version.py''"]
    by (simp del: run_vcs_command.simps)
qed

subsection \<open>Which exceptions get out\<close>

definition raises_within :: "('e \<Rightarrow> bool) \<Rightarrow> ('s, 'e, 'a) prog \<Rightarrow> bool" where
  "raises_within P m \<longleftrightarrow> (\<forall>s e s'. m s = (Inl e, s') \<longrightarrow> P e)"

lemma raises_within_return [intro!]: "raises_within P (return x)"
  by (simp add: raises_within_def)

lemma raises_within_throw [intro!]: "P e \<Longrightarrow> raises_within P (throw e)"
  by (simp add: raises_within_def)

lemma raises_within_bind [intro!]:
  "raises_within P m \<Longrightarrow> (\<And>x. raises_within P (f x)) \<Longrightarrow> raises_within P (bind m f)"
  unfolding raises_within_def by (metis bind_Inl bind_cases)

lemma raises_within_mono: "raises_within P m \<Longrightarrow> (\<And>e. P e \<Longrightarrow> Q e) \<Longrightarrow> raises_within Q m"
  by (auto simp: raises_within_def)

lemma raises_within_attempt:
  "raises_within P m \<Longrightarrow> (\<And>e. P e \<Longrightarrow> raises_within Q (h e)) \<Longrightarrow> raises_within Q (attempt m h)"
  unfolding raises_within_def attempt_def by (fastforce split: prod.splits sum.splits)

text \<open>\<open>NotThisMethod\<close>, or an exception of using the output of git that is not there.\<close>

definition git_error :: "version_error \<Rightarrow> bool" where
  "git_error e \<longleftrightarrow> (\<exists>m. e = Not_this_method m) \<or> e = Version_attribute_error \<or> e = Version_index_error"

lemma git_error_simps [simp]:
  "git_error (Not_this_method m)" "git_error Version_attribute_error" "git_error Version_index_error"
  by (simp_all add: git_error_def)

lemma iso_date_raises: "iso_date d = Inl e \<Longrightarrow> e = Version_index_error"
  by (simp add: iso_date_def split: if_splits)

lemma render_pep440_returns: "\<exists>v. render_pep440 p = Inr v"
  by (cases "truthy_tag p") (simp_all add: render_pep440_def plus_or_dot_tag)

lemma render_pep440_total: "\<exists>info. render ps ''pep440'' = Inr info"
proof (cases ps)
  case (Parsed p)
  obtain v where "render_pep440 p = Inr v" using render_pep440_returns by blast
  then show ?thesis by (simp add: Parsed render_def render_style_def)
qed (simp add: render_def)

locale quiet_runner =
  fixes runner :: "'s runner"
  assumes runner_quiet: "raises_within (\<lambda>_. False) (runner args)"
begin

lemma runner_git: "raises_within git_error (runner args)"
  by (rule raises_within_mono[OF runner_quiet]) simp

lemma commit_date_raises: "raises_within git_error (commit_date runner)"
  unfolding commit_date_def
  by (rule raises_within_bind[OF runner_git])
    (auto split: prod.split option.split sum.split dest: iso_date_raises)

lemma branch_raises: "raises_within git_error (branch_containing_head runner)"
  unfolding branch_containing_head_def Let_def
  by (rule raises_within_bind[OF runner_git]) (auto split: prod.split option.split)

lemma describe_raises: "raises_within git_error (pieces_of_describe pre runner out full branch)"
  unfolding pieces_of_describe_def Let_def
  by (auto split: prod.split option.split intro!: commit_date_raises runner_git)

lemma pieces_raise: "raises_within git_error (git_pieces_from_vcs pre runner)"
  unfolding git_pieces_from_vcs_def
  by (intro raises_within_bind[OF runner_git])
    (auto split: prod.split option.split intro!: runner_git branch_raises describe_raises)

lemma versions_raise: "raises_within git_error (versions_from_git get_config runner)"
proof -
  have "style get_config = ''pep440''" by (simp add: get_config_def)
  with render_pep440_total show ?thesis
    unfolding versions_from_git_def
    by (intro raises_within_bind[OF pieces_raise]) (metis (no_types, lifting) old.sum.simps(6) raises_within_return)
qed

end

text \<open>An operating system that starts processes without raising, and output that decodes.\<close>

definition spawns :: "(string list \<Rightarrow> string \<Rightarrow> 's \<Rightarrow> spawned \<times> 's) \<Rightarrow> string list \<Rightarrow> string \<Rightarrow>
    ('s, version_error, spawned) prog" where
  "spawns f args cwd = (\<lambda>s. case f args cwd s of (r, s') \<Rightarrow> (Inr r, s'))"

lemma run_vcs_command_quiet:
  "raises_within (\<lambda>_. False) (run_vcs_command (spawns f) (\<lambda>b. Some (g b)) commands args cwd)"
proof (induction commands)
  case (Cons c cs)
  have "raises_within (\<lambda>_. False) (spawns f (c # args) cwd)"
    by (simp add: raises_within_def spawns_def split: prod.split)
  then show ?case by (auto split: spawned.split intro: Cons.IH)
qed (simp add: raises_within_def)

interpretation os: quiet_runner "\<lambda>args. run_vcs_command (spawns f) (\<lambda>b. Some (g b)) commands args cwd"
  for f :: "string list \<Rightarrow> string \<Rightarrow> 's \<Rightarrow> spawned \<times> 's" and g commands cwd
  by unfold_locales (rule run_vcs_command_quiet)

lemma get_versions_raises:
  assumes "\<And>root. quiet_runner (git root)"
  shows "raises_within (\<lambda>e. e = Version_attribute_error \<or> e = Version_index_error)
           (get_versions get_keywords located git)"
proof (cases located)
  case None
  then show ?thesis by (auto simp: get_versions_def unexpanded_keywords get_config_def)
next
  case (Some f)
  let ?root = "root_of (versionfile_source get_config) f"
  have git: "raises_within git_error (versions_from_git get_config (git ?root))"
    by (rule quiet_runner.versions_raise[OF assms])
  have "get_versions get_keywords located git =
      attempt (versions_from_git get_config (git ?root))
        (\<lambda>e. case e of Not_this_method _ \<Rightarrow> versions_by_name get_config ?root | _ \<Rightarrow> throw e)"
    using unexpanded_keywords tag_prefix_config
    by (simp add: Some get_versions_def Let_def)
  moreover have "raises_within Q (versions_by_name get_config ?root)" for Q
    by (auto simp: version_from_parents)
  ultimately show ?thesis
    by (auto simp: git_error_def intro!: raises_within_attempt[OF git])
qed

text \<open>
  Looking for the version raises only when git named a commit and then failed on it: no
  repository, no git, output that does not parse, an unknown branch all end in a version.
\<close>

theorem version_lookup_raises_only_for_a_broken_git:
  assumes "get_versions get_keywords located
             (\<lambda>cwd args. run_vcs_command (spawns f) (\<lambda>b. Some (g b)) [''git''] args cwd) s = (Inl e, s')"
  shows "e = Version_attribute_error \<or> e = Version_index_error"
proof -
  have "quiet_runner (\<lambda>args. run_vcs_command (spawns f) (\<lambda>b. Some (g b)) [''git''] args cwd)" for cwd
    by (rule os.quiet_runner_axioms)
  note get_versions_raises[where located = located
      and git = "\<lambda>cwd args. run_vcs_command (spawns f) (\<lambda>b. Some (g b)) [''git''] args cwd", OF this]
  then show ?thesis using assms unfolding raises_within_def by blast
qed

definition mute_git :: "string list \<Rightarrow> string \<Rightarrow> unit \<Rightarrow> spawned \<times> unit" where
  "mute_git args cwd s = (Process (if args = ''git'' # describe_args [] then ''2.12-0-gabc'' else []) 0, s)"

theorem version_lookup_raises_only_for_a_broken_git_witness:
  "\<exists>e. get_versions get_keywords (Some ''/src/pssh/_version.py'')
      (\<lambda>cwd args. run_vcs_command (spawns mute_git) (\<lambda>b. Some (id b)) [''git''] args cwd) () = (Inl e, ())
    \<and> (e = Version_attribute_error \<or> e = Version_index_error)"
proof -
  have "get_versions get_keywords (Some ''/src/pssh/_version.py'')
      (\<lambda>cwd args. run_vcs_command (spawns mute_git) (\<lambda>b. Some (id b)) [''git''] args cwd) ()
      = (Inl Version_index_error, ())"
    by code_simp
  from this version_lookup_raises_only_for_a_broken_git[OF this] show ?thesis by blast
qed

subsection \<open>The tag that expanded keywords name\<close>

text \<open>A reference that can be a version, and the version it gives.\<close>

definition version_ref :: "string \<Rightarrow> string \<Rightarrow> bool" where
  "version_ref pre ref \<longleftrightarrow>
     has_prefix pre ref \<and> drop (length pre) ref \<noteq> [] \<and> is_digit (hd (drop (length pre) ref))"

lemma pick_tag_find: "pick_tag pre refs = map_option (drop (length pre)) (find (version_ref pre) refs)"
  by (induction refs) (simp_all add: version_ref_def Let_def)

lemma find_sorted_least:
  assumes "find P (sort xs) = Some x"
  shows "x \<in> set xs \<and> P x \<and> (\<forall>y\<in>set xs. P y \<longrightarrow> x \<le> (y :: string))"
proof -
  from assms obtain i where i: "i < length xs" "P (sort xs ! i)" "x = sort xs ! i"
      "\<forall>j<i. \<not> P (sort xs ! j)"
    by (auto simp: find_Some_iff)
  have "x \<le> y" if y: "y \<in> set xs" "P y" for y
  proof -
    from y obtain j where j: "j < length xs" "y = sort xs ! j"
      by (metis in_set_conv_nth length_sort set_sort)
    with i y have "i \<le> j" using not_le by blast
    then show ?thesis using sorted_nth_mono[of "sort xs" i j] i j by simp
  qed
  with i show ?thesis by (metis length_sort nth_mem set_sort)
qed

text \<open>
  Of the tags that \<open>git archive\<close> listed the least one that looks like a version is taken, so a
  release comes before its release candidates; the revision is the one that was archived.
\<close>

theorem archive_version_is_the_least_tag:
  assumes "git_versions_from_keywords keywords pre = Inr info" "v_error info = None"
  shows "\<exists>refnames ref. keywords ''refnames'' = Some refnames
    \<and> ref \<in> set (likely_tags (ref_names (strip refnames))) \<and> version_ref pre ref
    \<and> v_version info = drop (length pre) ref
    \<and> (\<forall>r\<in>set (likely_tags (ref_names (strip refnames))). version_ref pre r \<longrightarrow> ref \<le> r)
    \<and> v_full_revisionid info = map_option strip (keywords ''full'')"
proof -
  obtain refnames where n: "keywords ''refnames'' = Some refnames"
    using assms(1) by (cases "keywords ''refnames''") (simp_all add: git_versions_from_keywords_def)
  let ?tags = "likely_tags (ref_names (strip refnames))"
  from assms n obtain ref full where
      "find (version_ref pre) (sort (remdups ?tags)) = Some ref" "keywords ''full'' = Some full"
      "v_version info = drop (length pre) ref" "v_full_revisionid info = Some (strip full)"
    by (auto simp: git_versions_from_keywords_def Let_def pick_tag_find and_then_def
        split: option.splits sum.splits if_splits)
  with n find_sorted_least[of "version_ref pre" "remdups ?tags" ref] show ?thesis by auto
qed

definition archive_keywords :: "string \<rightharpoonup> string" where
  "archive_keywords =
     [''refnames'' \<mapsto> '' (HEAD -> master, tag: 2.0rc1, tag: 2.0, origin/master)'', ''full'' \<mapsto> ''abc1234567'']"

theorem archive_version_is_the_least_tag_witness:
  "\<exists>refnames ref. archive_keywords ''refnames'' = Some refnames
    \<and> ref \<in> set (likely_tags (ref_names (strip refnames))) \<and> version_ref [] ref \<and> ''2.0'' = ref
    \<and> (\<forall>r\<in>set (likely_tags (ref_names (strip refnames))). version_ref [] r \<longrightarrow> ref \<le> r)
    \<and> Some ''abc1234567'' = map_option strip (archive_keywords ''full'')"
proof -
  have "git_versions_from_keywords archive_keywords [] =
      Inr \<lparr>v_version = ''2.0'', v_full_revisionid = Some ''abc1234567'', v_dirty = Some False,
           v_error = None, v_date = None\<rparr>"
    by code_simp
  from archive_version_is_the_least_tag[OF this] show ?thesis by simp
qed

end
