(* ===== verification/Py_Json.thy ===== *)
theory Py_Json
  imports Py_Values Py_Text "HOL-Library.AList" "HOL-Library.List_Lexorder" "HOL-Library.Char_ord"
begin

text \<open>
  The part of Python's \<open>json\<close> that the version file of the package uses: \<open>dumps\<close> of a dictionary of
  strings, booleans and \<open>None\<close> with sorted keys and an indentation of one, and \<open>loads\<close> of such texts;
  and the string literals between three quotes that the text is put into.

  Values that are not of this kind (numbers, lists, objects in objects) and characters beyond the
  eight bits of \<open>char\<close> are reported as not modelled, and never as an error of Python.
\<close>

section \<open>Writing\<close>

datatype json_value = JNull | JBool bool | JStr string

definition json_char :: "char \<Rightarrow> string" where
  "json_char c =
     (let n = of_char c :: nat in
      if c = CHR 0x22 \<or> c = CHR 0x5C then [CHR 0x5C, c]
      else if n = 10 then [CHR 0x5C, CHR ''n'']
      else if n = 13 then [CHR 0x5C, CHR ''r'']
      else if n = 9 then [CHR 0x5C, CHR ''t'']
      else if n = 12 then [CHR 0x5C, CHR ''f'']
      else if n = 8 then [CHR 0x5C, CHR ''b'']
      else if 32 \<le> n \<and> n \<le> 126 then [c]
      else [CHR 0x5C, CHR ''u'', CHR ''0'', CHR ''0'', hex_digit (n div 16), hex_digit (n mod 16)])"

definition json_string :: "string \<Rightarrow> string" where
  "json_string s = CHR 0x22 # concat (map json_char s) @ [CHR 0x22]"

primrec json_scalar :: "json_value \<Rightarrow> string" where
  "json_scalar JNull = ''null''"
| "json_scalar (JBool b) = (if b then ''true'' else ''false'')"
| "json_scalar (JStr s) = json_string s"

definition json_member :: "string \<times> json_value \<Rightarrow> string" where
  "json_member m = '' '' @ json_string (fst m) @ '': '' @ json_scalar (snd m)"

fun json_members :: "(string \<times> json_value) list \<Rightarrow> string list" where
  "json_members [] = []"
| "json_members [m] = [json_member m]"
| "json_members (m # n # ms) = (json_member m @ '','') # json_members (n # ms)"

definition json_lines :: "(string \<times> json_value) list \<Rightarrow> string list" where
  "json_lines ms = (if ms = [] then [''{}''] else [''{''] @ json_members (sort_key fst ms) @ [''}''])"

definition json_dumps :: "(string \<times> json_value) list \<Rightarrow> string" where
  "json_dumps ms = join_with CHR 0x0A (json_lines ms)"

section \<open>Reading\<close>

datatype json_error = Json_decode_error | Json_not_modelled

definition json_space :: "char \<Rightarrow> bool" where
  "json_space c \<longleftrightarrow> c \<in> {CHR '' '', CHR 0x09, CHR 0x0A, CHR 0x0D}"

definition json_skip :: "string \<Rightarrow> string" where
  "json_skip s = dropWhile json_space s"

definition hex_value :: "char \<Rightarrow> nat option" where
  "hex_value c =
     (let n = of_char c :: nat in
      if 48 \<le> n \<and> n \<le> 57 then Some (n - 48)
      else if 97 \<le> n \<and> n \<le> 102 then Some (n - 87)
      else if 65 \<le> n \<and> n \<le> 70 then Some (n - 55)
      else None)"

definition hex_char :: "char \<Rightarrow> char \<Rightarrow> char \<Rightarrow> char \<Rightarrow> json_error + char" where
  "hex_char a b c d =
     (case (hex_value a, hex_value b, hex_value c, hex_value d) of
        (Some p, Some q, Some r, Some s) \<Rightarrow>
          (if p = 0 \<and> q = 0 then Inr (char_of (16 * r + s)) else Inl Json_not_modelled)
      | _ \<Rightarrow> Inl Json_decode_error)"

text \<open>What stands for itself after a backslash.\<close>

definition json_escape :: "char \<Rightarrow> char option" where
  "json_escape e =
     map_of [(CHR 0x22, CHR 0x22), (CHR 0x5C, CHR 0x5C), (CHR ''/'', CHR ''/''), (CHR ''b'', CHR 0x08),
             (CHR ''f'', CHR 0x0C), (CHR ''n'', CHR 0x0A), (CHR ''r'', CHR 0x0D), (CHR ''t'', CHR 0x09)] e"

text \<open>A string after its opening quote: the string and what follows its closing quote.\<close>

definition prepend :: "char \<Rightarrow> 'e + string \<times> string \<Rightarrow> 'e + string \<times> string" where
  "prepend c r = map_sum id (\<lambda>(s, rest). (c # s, rest)) r"

fun scan_string :: "string \<Rightarrow> json_error + string \<times> string" where
  "scan_string [] = Inl Json_decode_error"
| "scan_string (c # cs) =
     (if c = CHR 0x22 then Inr ([], cs)
      else if c = CHR 0x5C then
        (case cs of
           [] \<Rightarrow> Inl Json_decode_error
         | e # r \<Rightarrow>
            (if e = CHR ''u'' then
               (case r of
                  h1 # h2 # h3 # h4 # r' \<Rightarrow>
                    (case hex_char h1 h2 h3 h4 of Inl err \<Rightarrow> Inl err | Inr x \<Rightarrow> prepend x (scan_string r'))
                | _ \<Rightarrow> Inl Json_decode_error)
             else (case json_escape e of None \<Rightarrow> Inl Json_decode_error | Some x \<Rightarrow> prepend x (scan_string r))))
      else if (of_char c :: nat) < 32 then Inl Json_decode_error
      else prepend c (scan_string cs))"

definition scan_value :: "string \<Rightarrow> json_error + json_value \<times> string" where
  "scan_value s =
     (if has_prefix ''null'' s then Inr (JNull, drop 4 s)
      else if has_prefix ''true'' s then Inr (JBool True, drop 4 s)
      else if has_prefix ''false'' s then Inr (JBool False, drop 5 s)
      else (case s of
              [] \<Rightarrow> Inl Json_decode_error
            | c # cs \<Rightarrow>
                if c = CHR 0x22 then map_sum id (\<lambda>(t, r). (JStr t, r)) (scan_string cs)
                else if c \<in> set ''[{-NI'' \<or> is_digit c then Inl Json_not_modelled
                else Inl Json_decode_error))"

text \<open>A key with its value, from the opening quote of the key.\<close>

definition scan_member :: "string \<Rightarrow> json_error + (string \<times> json_value) \<times> string" where
  "scan_member s =
     (case s of
        [] \<Rightarrow> Inl Json_decode_error
      | c # cs \<Rightarrow>
          if c \<noteq> CHR 0x22 then Inl Json_decode_error
          else (case scan_string cs of
                  Inl e \<Rightarrow> Inl e
                | Inr (k, r) \<Rightarrow>
                    (case json_skip r of
                       [] \<Rightarrow> Inl Json_decode_error
                     | d # ds \<Rightarrow>
                         if d \<noteq> CHR '':'' then Inl Json_decode_error
                         else map_sum id (\<lambda>(v, r'). ((k, v), r')) (scan_value (json_skip ds)))))"

lemma prependD: "prepend c x = Inr (s, r) \<Longrightarrow> \<exists>t. x = Inr (t, r)"
  by (cases x) (auto simp: prepend_def)

lemma scan_string_length: "scan_string s = Inr (t, r) \<Longrightarrow> length r < length s"
proof (induction s arbitrary: t r rule: scan_string.induct)
  case (2 c cs)
  then show ?case
    by (fastforce split: if_splits list.splits option.splits sum.splits dest!: prependD)
qed simp

lemma json_skip_length: "length (json_skip s) \<le> length s"
  by (simp add: json_skip_def length_dropWhile_le)

lemma map_sum_InrD: "map_sum f g x = Inr y \<Longrightarrow> \<exists>z. x = Inr z \<and> y = g z"
  by (cases x) auto

lemma scan_value_length: "scan_value s = Inr (v, r) \<Longrightarrow> length r \<le> length s"
  by (auto simp: scan_value_def split: if_splits list.splits dest!: map_sum_InrD scan_string_length)

lemma scan_member_length: "scan_member s = Inr (m, r) \<Longrightarrow> length r < length s"
proof -
  assume "scan_member s = Inr (m, r)"
  then obtain cs k t d ds v where 1: "s = CHR 0x22 # cs" "scan_string cs = Inr (k, t)" "json_skip t = d # ds"
      and 2: "scan_value (json_skip ds) = Inr (v, r)"
    by (auto simp: scan_member_def split: list.splits if_splits sum.splits prod.splits dest!: map_sum_InrD)
  show ?thesis
    using scan_string_length[OF 1(2)] scan_value_length[OF 2] json_skip_length[of t] json_skip_length[of ds] 1 by simp
qed

text \<open>The members of an object after its brace, and what follows its closing brace.\<close>

function scan_members :: "string \<Rightarrow> json_error + (string \<times> json_value) list \<times> string" where
  "scan_members s =
     (case scan_member s of
        Inl e \<Rightarrow> Inl e
      | Inr (m, r) \<Rightarrow>
          (case json_skip r of
             [] \<Rightarrow> Inl Json_decode_error
           | c # cs \<Rightarrow>
               if c = CHR ''}'' then Inr ([m], cs)
               else if c = CHR '','' then map_sum id (\<lambda>(ms, r'). (m # ms, r')) (scan_members (json_skip cs))
               else Inl Json_decode_error))"
  by pat_completeness auto

termination
proof (relation "measure length")
  fix s m r c cs and x :: "(string \<times> json_value) \<times> string"
  assume "scan_member s = Inr x" "(m, r) = x" "json_skip r = c # cs"
  then show "(json_skip cs, s) \<in> measure length"
    using scan_member_length[of s m r] json_skip_length[of r] json_skip_length[of cs] by simp
qed simp

declare scan_members.simps [simp del]

text \<open>\<open>loads\<close>: a dictionary, in its order of insertion; of several members with one key the last counts.\<close>

definition dict_of :: "(string \<times> json_value) list \<Rightarrow> (string \<times> json_value) list" where
  "dict_of ms = fold (\<lambda>(k, v). AList.update k v) ms []"

definition json_loads :: "string \<Rightarrow> json_error + (string \<times> json_value) list" where
  "json_loads s =
     (case json_skip s of
        [] \<Rightarrow> Inl Json_decode_error
      | c # cs \<Rightarrow>
          if c = CHR ''{'' then
            (case (if has_prefix ''}'' (json_skip cs) then Inr ([], drop 1 (json_skip cs)) else scan_members (json_skip cs)) of
               Inl e \<Rightarrow> Inl e
             | Inr (ms, rest) \<Rightarrow> if json_skip rest = [] then Inr (dict_of ms) else Inl Json_decode_error)
          else if c \<in> set ''[-NI\"tfn'' \<or> is_digit c then Inl Json_not_modelled
          else Inl Json_decode_error)"

section \<open>Reading what was written\<close>

lemma hex_value_digit: "d < 16 \<Longrightarrow> hex_value (hex_digit d) = Some d"
  by (auto simp: hex_value_def hex_digit_def)

lemma hex_char_digits:
  assumes "n = of_char c" "(n :: nat) < 256"
  shows "hex_char (CHR ''0'') (CHR ''0'') (hex_digit (n div 16)) (hex_digit (n mod 16)) = Inr c"
proof -
  have "hex_value (hex_digit (n div 16)) = Some (n div 16)" "hex_value (hex_digit (n mod 16)) = Some (n mod 16)"
    using assms(2) by (simp_all add: hex_value_digit)
  moreover have "hex_value (CHR ''0'') = Some 0" by (simp add: hex_value_def)
  ultimately show ?thesis by (simp add: hex_char_def assms(1))
qed

lemma char_eq_of_char: "(of_char c :: nat) = of_char d \<Longrightarrow> c = d"
  by simp

lemma scan_json_char: "scan_string (json_char c @ r) = prepend c (scan_string r)"
proof -
  let ?n = "of_char c :: nat"
  have eqs: "?n = 10 \<Longrightarrow> c = CHR 0x0A" "?n = 13 \<Longrightarrow> c = CHR 0x0D" "?n = 9 \<Longrightarrow> c = CHR 0x09"
    "?n = 12 \<Longrightarrow> c = CHR 0x0C" "?n = 8 \<Longrightarrow> c = CHR 0x08"
    by (rule char_eq_of_char; simp)+
  have h: "hex_char (CHR ''0'') (CHR ''0'') (hex_digit (?n div 16)) (hex_digit (?n mod 16)) = Inr c"
    by (rule hex_char_digits) simp_all
  show ?thesis
    using eqs h by (auto simp: json_char_def Let_def json_escape_def)
qed

lemma scan_json_chars: "scan_string (concat (map json_char s) @ CHR 0x22 # r) = Inr (s, r)"
  by (induction s) (simp_all add: scan_json_char prepend_def)

lemma scan_value_scalar: "scan_value (json_scalar v @ r) = Inr (v, r)"
  by (cases v) (auto simp: scan_value_def has_prefix_def json_string_def scan_json_chars)

lemma json_skip_scalar: "json_skip (json_scalar v @ r) = json_scalar v @ r"
  by (cases v) (simp_all add: json_skip_def json_space_def json_string_def)

lemma scan_written_member: "scan_member (json_string k @ '': '' @ json_scalar v @ r) = Inr ((k, v), r)"
proof -
  have "scan_string (concat (map json_char k) @ CHR 0x22 # '': '' @ json_scalar v @ r) = Inr (k, '': '' @ json_scalar v @ r)"
    by (rule scan_json_chars)
  moreover have "json_skip ('': '' @ x) = '': '' @ x" for x by (simp add: json_skip_def json_space_def)
  moreover have "json_skip ('' '' @ json_scalar v @ r) = json_scalar v @ r"
    using json_skip_scalar[of v r] by (simp add: json_skip_def json_space_def)
  ultimately show ?thesis by (simp add: scan_member_def json_string_def scan_value_scalar)
qed

lemma skip_member: "json_skip (json_member m @ r) = json_string (fst m) @ '': '' @ json_scalar (snd m) @ r"
  by (simp add: json_member_def json_skip_def json_space_def json_string_def)

lemma skip_line_break: "json_skip (CHR 0x0A # s) = json_skip s"
  by (simp add: json_skip_def json_space_def)

lemma scan_written_members:
  "scan_members (json_skip (join_with CHR 0x0A (json_members (m # ms) @ [''}'']) @ rest)) = Inr (m # ms, rest)"
proof (induction ms arbitrary: m)
  case Nil
  have whole: "join_with CHR 0x0A (json_members [m] @ [''}'']) @ rest = json_member m @ CHR 0x0A # ''}'' @ rest" by simp
  have "json_skip (CHR 0x0A # ''}'' @ rest) = ''}'' @ rest" by (simp add: json_skip_def json_space_def)
  then show ?case
    unfolding whole skip_member scan_members.simps[of "json_string _ @ _"] scan_written_member by simp
next
  case (Cons n ms)
  let ?next = "join_with CHR 0x0A (json_members (n # ms) @ [''}'']) @ rest"
  obtain l ls where ls: "json_members (n # ms) @ [''}''] = l # ls" by (cases "json_members (n # ms)") auto
  have whole: "join_with CHR 0x0A (json_members (m # n # ms) @ [''}'']) @ rest = json_member m @ '','' @ CHR 0x0A # ?next"
    by (simp add: ls)
  have "json_skip ('','' @ x) = '','' @ x" for x by (simp add: json_skip_def json_space_def)
  then show ?case
    unfolding whole skip_member scan_members.simps[of "json_string _ @ _"] scan_written_member
    using Cons.IH[of n] by (simp add: skip_line_break del: json_members.simps)
qed

lemma skip_brace: "json_skip (CHR ''{'' # s) = CHR ''{'' # s"
  by (simp add: json_skip_def json_space_def)

lemma join_with_members: "\<exists>r. join_with c (json_members (m # ns) @ [x]) = json_member m @ r"
proof (cases ns)
  case (Cons n ms)
  then obtain l ls where "json_members (n # ms) @ [x] = l # ls" by (cases "json_members (n # ms)") auto
  with Cons show ?thesis by simp
qed simp

lemma update_new: "k \<notin> fst ` set ms \<Longrightarrow> AList.update k v ms = ms @ [(k, v)]"
  by (induction ms) auto

lemma dict_of_distinct: "distinct (map fst ms) \<Longrightarrow> dict_of ms = ms"
proof -
  have "fold (\<lambda>(k, v). AList.update k v) ms acc = acc @ ms" if "distinct (map fst (acc @ ms))" for acc
    using that by (induction ms arbitrary: acc) (auto simp: update_new)
  then show "distinct (map fst ms) \<Longrightarrow> dict_of ms = ms" by (simp add: dict_of_def)
qed

text \<open>Reading what was written gives back the dictionary.\<close>

lemma json_loads_dumps:
  assumes "distinct (map fst ms)" "list_all json_space trail"
  shows "json_loads (json_dumps ms @ trail) = Inr (sort_key fst ms)"
proof (cases "sort_key fst ms")
  case Nil
  then have "ms = []" by (metis length_0_conv length_sort)
  then show ?thesis
    using assms(2)
    by (simp add: json_loads_def json_dumps_def json_lines_def json_skip_def json_space_def has_prefix_def list_all_iff dict_of_def)
next
  case (Cons m ns)
  then have ms: "ms \<noteq> []" by auto
  obtain l ls where ls: "json_members (m # ns) @ [''}''] = l # ls" by (cases "json_members (m # ns)") auto
  let ?body = "join_with CHR 0x0A (json_members (m # ns) @ [''}'']) @ trail"
  have whole: "json_dumps ms @ trail = ''{'' @ CHR 0x0A # ?body"
    by (simp add: json_dumps_def json_lines_def ms Cons ls)
  have body: "json_skip (CHR 0x0A # ?body) = json_skip ?body" by (rule skip_line_break)
  obtain r where "?body = json_member m @ r" using join_with_members[of "CHR 0x0A" m ns "''}''"] by auto
  then have starts: "\<exists>x. json_skip ?body = CHR 0x22 # x"
    using skip_member[of m r] by (simp add: json_string_def)
  have "json_skip trail = []" using assms(2) by (simp add: json_skip_def list_all_iff)
  moreover have "dict_of (m # ns) = sort_key fst ms"
    using dict_of_distinct[of "sort_key fst ms"] assms(1) by (simp add: distinct_map Cons[symmetric])
  ultimately show ?thesis
    unfolding whole
    using starts scan_written_members[of m ns trail] body
    by (auto simp: json_loads_def skip_brace has_prefix_def)
qed

section \<open>String literals between three quotes\<close>

text \<open>
  The text after the opening quotes: the string that the literal denotes, and what follows its closing
  quotes.  A backslash that no escape begins with stays.
\<close>

datatype literal_error = Literal_syntax_error | Literal_not_modelled

abbreviation three_quotes :: string where
  "three_quotes \<equiv> [CHR 0x27, CHR 0x27, CHR 0x27]"

definition literal_escape :: "char \<Rightarrow> char option" where
  "literal_escape e =
     map_of [(CHR 0x5C, CHR 0x5C), (CHR 0x27, CHR 0x27), (CHR 0x22, CHR 0x22), (CHR ''a'', CHR 0x07), (CHR ''b'', CHR 0x08),
             (CHR ''f'', CHR 0x0C), (CHR ''n'', CHR 0x0A), (CHR ''r'', CHR 0x0D), (CHR ''t'', CHR 0x09),
             (CHR ''v'', CHR 0x0B)] e"

fun triple_quoted :: "string \<Rightarrow> literal_error + string \<times> string" where
  "triple_quoted [] = Inl Literal_syntax_error"
| "triple_quoted (c # cs) =
     (if has_prefix three_quotes (c # cs) then Inr ([], drop 2 cs)
      else if c \<noteq> CHR 0x5C then prepend c (triple_quoted cs)
      else (case cs of
              [] \<Rightarrow> Inl Literal_syntax_error
            | e # r \<Rightarrow>
               (case literal_escape e of
                  Some x \<Rightarrow> prepend x (triple_quoted r)
                | None \<Rightarrow>
                   (if e = CHR 0x0A then triple_quoted r
                    else if e = CHR ''u'' then
                      (case r of
                         h1 # h2 # h3 # h4 # r' \<Rightarrow>
                           (case hex_char h1 h2 h3 h4 of
                              Inl Json_decode_error \<Rightarrow> Inl Literal_syntax_error
                            | Inl Json_not_modelled \<Rightarrow> Inl Literal_not_modelled
                            | Inr x \<Rightarrow> prepend x (triple_quoted r'))
                       | _ \<Rightarrow> Inl Literal_syntax_error)
                    else if e \<in> set ''xUN01234567'' then Inl Literal_not_modelled
                    else prepend c (prepend e (triple_quoted r))))))"

lemma triple_quoted_plain:
  "CHR 0x27 \<notin> set s \<Longrightarrow> CHR 0x5C \<notin> set s \<Longrightarrow> triple_quoted (s @ three_quotes @ r) = Inr (s, r)"
  by (induction s) (auto simp: has_prefix_def prepend_def)

text \<open>Characters that neither the JSON text nor the literal changes.\<close>

definition plain_char :: "char \<Rightarrow> bool" where
  "plain_char c \<longleftrightarrow> 32 \<le> (of_char c :: nat) \<and> (of_char c :: nat) \<le> 126 \<and> c \<notin> {CHR 0x22, CHR 0x27, CHR 0x5C}"

primrec plain_value :: "json_value \<Rightarrow> bool" where
  "plain_value JNull = True"
| "plain_value (JBool b) = True"
| "plain_value (JStr s) = list_all plain_char s"

lemma json_char_plain: "plain_char c \<Longrightarrow> json_char c = [c]"
  by (auto simp: plain_char_def json_char_def Let_def)

lemma json_string_plain: "list_all plain_char s \<Longrightarrow> json_string s = CHR 0x22 # s @ [CHR 0x22]"
  by (induction s) (simp_all add: json_string_def json_char_plain)

lemma json_member_plain:
  assumes "list_all plain_char (fst m)" "plain_value (snd m)" "c \<in> {CHR 0x27, CHR 0x5C}"
  shows "c \<notin> set (json_member m)"
proof -
  have "c \<notin> set s" if "list_all plain_char s" for s using that assms(3) by (auto simp: list_all_iff plain_char_def)
  with assms show ?thesis
    by (cases "snd m") (auto simp: json_member_def json_string_plain)
qed

lemma json_members_chars:
  "l \<in> set (json_members ms) \<Longrightarrow> c \<in> set l \<Longrightarrow> c = CHR '','' \<or> (\<exists>m\<in>set ms. c \<in> set (json_member m))"
  by (induction ms rule: json_members.induct) auto

lemma join_with_chars: "c \<in> set (join_with d ls) \<Longrightarrow> c = d \<or> (\<exists>l\<in>set ls. c \<in> set l)"
  by (induction d ls rule: join_with.induct) auto

lemma json_dumps_plain:
  assumes "\<And>m. m \<in> set ms \<Longrightarrow> list_all plain_char (fst m) \<and> plain_value (snd m)" "c \<in> {CHR 0x27, CHR 0x5C}"
  shows "c \<notin> set (json_dumps ms)"
proof
  assume "c \<in> set (json_dumps ms)"
  then have "c = CHR 0x0A \<or> (\<exists>l\<in>set (json_lines ms). c \<in> set l)" by (simp add: json_dumps_def join_with_chars)
  with assms(2) have "\<exists>m\<in>set ms. c \<in> set (json_member m)"
    by (auto simp: json_lines_def split: if_splits dest!: json_members_chars)
  with json_member_plain assms show False by blast
qed

text \<open>A line of the text has no line break, whatever the strings hold.\<close>

lemma json_char_no_break: "CHR 0x0A \<notin> set (json_char c)"
proof -
  have "hex_digit d \<noteq> CHR 0x0A" if "d < 16" for d
    using that hex_value_digit[of d] by (auto simp: hex_value_def)
  moreover have "(of_char c :: nat) < 256" by simp
  then have "(of_char c :: nat) div 16 < 16" by linarith
  ultimately show ?thesis by (auto simp: json_char_def Let_def dest!: sym[of "CHR 0x0A"])
qed

lemma json_string_no_break: "CHR 0x0A \<notin> set (json_string s)"
  using json_char_no_break by (auto simp: json_string_def)

lemma json_lines_no_break: "l \<in> set (json_lines ms) \<Longrightarrow> CHR 0x0A \<notin> set l"
proof -
  have "CHR 0x0A \<notin> set (json_member m)" for m
    using json_string_no_break by (cases "snd m") (auto simp: json_member_def)
  then show "l \<in> set (json_lines ms) \<Longrightarrow> CHR 0x0A \<notin> set l"
    by (auto simp: json_lines_def split: if_splits dest!: json_members_chars)
qed

end
