(* ===== verification/Version_Build.thy ===== *)
theory Version_Build
  imports Version_Git Py_Json
begin

text \<open>
  How the package is given its version when it is built (\<open>versioneer.py\<close>, called by \<open>setup.py\<close>): the
  configuration from \<open>setup.cfg\<close>, the four places a version is looked for in, the file that replaces
  \<open>pssh/_version.py\<close> in a release, and the two commands of setuptools that write it.  The functions of
  \<open>versioneer.py\<close> for git, for parent directories and for rendering are those of \<open>pssh/_version.py\<close>
  (\<open>Version_Git\<close>, \<open>Version_Render\<close>), of which it holds a second copy.

  What \<open>configparser\<close> has read is a parameter, the section \<open>[versioneer]\<close> as a function of the option;
  there is no \<open>pyproject.toml\<close>.  A file is the text that is read from it, \<open>None\<close> if it cannot be.
\<close>

section \<open>The configuration\<close>

datatype build_error =
    Version_error version_error
  | Json_error json_error
  | Literal_error literal_error
  | Assertion_error string
  | No_option_error string
  | Value_error
  | Bad_root_error

record build_config =
  b_vcs :: string
  b_style :: string
  b_versionfile_source :: "string option"
  b_versionfile_build :: "string option"
  b_tag_prefix :: string
  b_parentdir_prefix :: "string option"
  b_verbose :: "bool option"

definition project_root :: "(string \<Rightarrow> bool) \<Rightarrow> string \<Rightarrow> bool" where
  "project_root path_exists d \<longleftrightarrow>
     path_exists (path_join d ''setup.py'') \<or> path_exists (path_join d ''pyproject.toml'') \<or>
     path_exists (path_join d ''versioneer.py'')"

text \<open>\<open>cwd\<close> and \<open>script\<close> are the current directory and \<open>sys.argv[0]\<close> after \<open>realpath\<close>.\<close>

definition get_root :: "(string \<Rightarrow> bool) \<Rightarrow> string \<Rightarrow> string \<Rightarrow> build_error + string" where
  "get_root path_exists cwd script =
     (if project_root path_exists cwd then Inr cwd
      else if project_root path_exists (path_dirname script) then Inr (path_dirname script)
      else Inl Bad_root_error)"

definition lower :: "string \<Rightarrow> string" where
  "lower s = map (\<lambda>c. let n = of_char c :: nat in if 65 \<le> n \<and> n \<le> 90 then char_of (n + 32) else c) s"

definition getboolean :: "string \<Rightarrow> build_error + bool" where
  "getboolean s =
     (if lower s \<in> {''1'', ''yes'', ''true'', ''on''} then Inr True
      else if lower s \<in> {''0'', ''no'', ''false'', ''off''} then Inr False
      else Inl Value_error)"

definition get_config_from_section :: "(string \<Rightarrow> string option) \<Rightarrow> build_error + build_config" where
  "get_config_from_section section =
     (case section ''VCS'' of
        None \<Rightarrow> Inl (No_option_error ''VCS'')
      | Some vcs \<Rightarrow>
          let pre = (case section ''tag_prefix'' of None \<Rightarrow> [] | Some p \<Rightarrow>
                       if p = [CHR 0x27, CHR 0x27] \<or> p = [CHR 0x22, CHR 0x22] then [] else p);
              cfg = (\<lambda>verb. \<lparr>b_vcs = vcs, b_style = (case section ''style'' of None \<Rightarrow> [] | Some s \<Rightarrow> s),
                       b_versionfile_source = section ''versionfile_source'',
                       b_versionfile_build = section ''versionfile_build'', b_tag_prefix = pre,
                       b_parentdir_prefix = section ''parentdir_prefix'', b_verbose = verb\<rparr>)
          in (case section ''verbose'' of
                None \<Rightarrow> Inr (cfg None)
              | Some v \<Rightarrow> (case getboolean v of Inl e \<Rightarrow> Inl e | Inr b \<Rightarrow> Inr (cfg (Some b)))))"

section \<open>The version file\<close>

text \<open>\<open>SHORT_VERSION_PY\<close>, before and after its placeholder.\<close>

definition version_py_head :: string where
  "version_py_head = join_with CHR 0x0A
     ['''', ''# This file was generated by 'versioneer.py' (0.29) from'',
      ''# revision-control system data, or from the parent directory name of an'',
      ''# unpacked source archive. Distribution tarballs contain a pre-generated copy'',
      ''# of this file.'', '''', ''import json'', '''', ''version_json = '' @ three_quotes, '''']"

definition version_py_tail :: string where
  "version_py_tail = join_with CHR 0x0A
     ['''', three_quotes @ ''  # END VERSION_JSON'', '''', '''', ''def get_versions():'',
      ''    return json.loads(version_json)'', '''']"

type_synonym versions = "(string \<times> json_value) list"

definition write_to_version_file :: "versions \<Rightarrow> string" where
  "write_to_version_file vs = version_py_head @ json_dumps vs @ version_py_tail"

text \<open>
  \<open>re.search\<close> for \<open>start(.*)stop\<close>, where the dot matches line breaks: from the first \<open>start\<close> to the
  last \<open>stop\<close> after it.
\<close>

fun after_first :: "string \<Rightarrow> string \<Rightarrow> string option" where
  "after_first p [] = (if p = [] then Some [] else None)"
| "after_first p (c # cs) = (if has_prefix p (c # cs) then Some (drop (length p) (c # cs)) else after_first p cs)"

fun before_last :: "string \<Rightarrow> string \<Rightarrow> string option" where
  "before_last p [] = (if p = [] then Some [] else None)"
| "before_last p (c # cs) =
     (case before_last p cs of
        Some u \<Rightarrow> Some (c # u)
      | None \<Rightarrow> if has_prefix p (c # cs) then Some [] else None)"

definition search_between :: "string \<Rightarrow> string \<Rightarrow> string \<Rightarrow> string option" where
  "search_between start stop s = (case after_first start s of None \<Rightarrow> None | Some r \<Rightarrow> before_last stop r)"

definition version_start :: string where
  "version_start = ''version_json = '' @ three_quotes"

definition version_stop :: string where
  "version_stop = three_quotes @ ''  # END VERSION_JSON''"

definition loads :: "string \<Rightarrow> build_error + versions" where
  "loads s = map_sum Json_error id (json_loads s)"

definition versions_from_file :: "string option \<Rightarrow> build_error + versions" where
  "versions_from_file contents =
     (case contents of
        None \<Rightarrow> Inl (Version_error (Not_this_method ''unable to read _version.py''))
      | Some s \<Rightarrow>
          (case search_between (version_start @ [CHR 0x0A]) version_stop s of
             Some g \<Rightarrow> loads g
           | None \<Rightarrow>
              (case search_between (version_start @ [CHR 0x0D, CHR 0x0A]) version_stop s of
                 Some g \<Rightarrow> loads g
               | None \<Rightarrow> Inl (Version_error (Not_this_method ''no version_json in _version.py'')))))"

text \<open>
  \<open>get_versions\<close> of the file that was written: \<open>json.loads\<close> of the literal that is assigned to
  \<open>version_json\<close>.  Where the literal does not end at its closing quotes, what follows is not looked at.
\<close>

definition generated_get_versions :: "string \<Rightarrow> build_error + versions" where
  "generated_get_versions contents =
     (case after_first version_start contents of
        None \<Rightarrow> Inl (Literal_error Literal_not_modelled)
      | Some r \<Rightarrow>
          (case triple_quoted r of
             Inl e \<Rightarrow> Inl (Literal_error e)
           | Inr (version_json, rest) \<Rightarrow>
               if has_prefix ''  # END VERSION_JSON'' rest then loads version_json
               else Inl (Literal_error Literal_not_modelled)))"

section \<open>Where the version is looked for\<close>

definition version_dict :: "version_info \<Rightarrow> versions" where
  "version_dict v =
     (let str = (\<lambda>s. case s of None \<Rightarrow> JNull | Some t \<Rightarrow> JStr t) in
      [(''version'', JStr (v_version v)), (''full-revisionid'', str (v_full_revisionid v)),
       (''dirty'', (case v_dirty v of None \<Rightarrow> JNull | Some b \<Rightarrow> JBool b)), (''error'', str (v_error v)),
       (''date'', str (v_date v))])"

text \<open>The lines that iterating over an open text file gives, each with its line break.\<close>

definition file_lines :: "string \<Rightarrow> string list" where
  "file_lines s =
     (let ls = split_on CHR 0x0A s in
      map (\<lambda>l. l @ [CHR 0x0A]) (butlast ls) @ (if last ls = [] then [] else [last ls]))"

definition lift_version :: "('s, version_error, 'a) prog \<Rightarrow> ('s, build_error, 'a) prog" where
  "lift_version m = (\<lambda>s. map_prod (map_sum Version_error id) id (m s))"

definition build_from_git :: "build_config \<Rightarrow> 's runner \<Rightarrow> ('s, version_error, version_info) prog" where
  "build_from_git cfg runner =
     bind (git_pieces_from_vcs (b_tag_prefix cfg) runner) (\<lambda>pieces.
       case render pieces (b_style cfg) of Inl e \<Rightarrow> throw e | Inr info \<Rightarrow> return info)"

definition build_by_name :: "build_config \<Rightarrow> string \<Rightarrow> version_info rendering" where
  "build_by_name cfg root =
     (case (case b_parentdir_prefix cfg of
              Some (c # cs) \<Rightarrow> versions_from_parentdir (c # cs) root
            | _ \<Rightarrow> Inl (Not_this_method [])) of
        Inl (Not_this_method _) \<Rightarrow> Inr (unknown_version ''unable to compute version'')
      | r \<Rightarrow> r)"

definition build_versions ::
  "build_config \<Rightarrow> string \<Rightarrow> string option \<Rightarrow> 's runner \<Rightarrow> ('s, build_error, versions) prog" where
  "build_versions cfg root file runner =
     (if b_vcs cfg \<noteq> ''git'' then throw (Assertion_error (''unrecognized VCS '' @ quoted (b_vcs cfg)))
      else if b_versionfile_source cfg = None then throw (Assertion_error ''please set versioneer.versionfile_source'')
      else (case git_versions_from_keywords (git_get_keywords (map_option file_lines file)) (b_tag_prefix cfg) of
              Inr info \<Rightarrow> return (version_dict info)
            | Inl (Not_this_method _) \<Rightarrow>
               (case versions_from_file file of
                  Inr vs \<Rightarrow> return vs
                | Inl (Version_error (Not_this_method _)) \<Rightarrow>
                    bind (lift_version
                      (attempt (build_from_git cfg runner) (\<lambda>e.
                         case e of
                           Not_this_method _ \<Rightarrow> (case build_by_name cfg root of Inl e' \<Rightarrow> throw e' | Inr info \<Rightarrow> return info)
                         | _ \<Rightarrow> throw e)))
                      (\<lambda>info. return (version_dict info))
                | Inl e \<Rightarrow> throw e)
            | Inl e \<Rightarrow> throw (Version_error e)))"

text \<open>\<open>get_version\<close>, the value that \<open>setup.py\<close> gives to setuptools.\<close>

definition version_of :: "versions \<Rightarrow> string option" where
  "version_of vs = (case map_of vs ''version'' of Some (JStr v) \<Rightarrow> Some v | _ \<Rightarrow> None)"

definition get_version ::
  "build_config \<Rightarrow> string \<Rightarrow> string option \<Rightarrow> 's runner \<Rightarrow> ('s, build_error, string option) prog" where
  "get_version cfg root file runner = bind (build_versions cfg root file runner) (\<lambda>vs. return (version_of vs))"

section \<open>The commands\<close>

text \<open>
  The file that a command writes: its name and its text.  \<open>build_py\<close> copies the sources to \<open>build_lib\<close>
  and then replaces the version file there; \<open>sdist\<close> replaces that of the tree it makes.
\<close>

definition build_py_writes :: "build_config \<Rightarrow> bool \<Rightarrow> string \<Rightarrow> versions \<Rightarrow> (string \<times> string) option" where
  "build_py_writes cfg editable_mode build_lib vs =
     (if editable_mode then None
      else (case b_versionfile_build cfg of
              None \<Rightarrow> None
            | Some f \<Rightarrow> if f = [] then None else Some (path_join build_lib f, write_to_version_file vs)))"

definition build_ext_writes ::
  "build_config \<Rightarrow> bool \<Rightarrow> (string \<Rightarrow> bool) \<Rightarrow> string \<Rightarrow> versions \<Rightarrow> (string \<times> string) option" where
  "build_ext_writes cfg inplace path_exists build_lib vs =
     (if inplace then None
      else (case b_versionfile_build cfg of
              None \<Rightarrow> None
            | Some f \<Rightarrow>
                if f = [] then None
                else if \<not> path_exists (path_join build_lib f) then None
                else Some (path_join build_lib f, write_to_version_file vs)))"

definition sdist_writes :: "build_config \<Rightarrow> string \<Rightarrow> versions \<Rightarrow> (string \<times> string) option" where
  "sdist_writes cfg base_dir vs =
     map_option (\<lambda>f. (path_join base_dir f, write_to_version_file vs)) (b_versionfile_source cfg)"

section \<open>What is written is read back\<close>

lemma after_first_length: "after_first p s = Some r \<Longrightarrow> length p \<le> length s"
proof (induction s)
  case (Cons c cs)
  then show ?case
    using has_prefix_length[of p "c # cs"] by (cases "has_prefix p (c # cs)") simp_all
qed (simp split: if_splits)

lemma after_first_append: "after_first p y = Some [] \<Longrightarrow> after_first p (y @ x) = Some x"
proof (induction y)
  case (Cons c cs)
  show ?case
  proof (cases "has_prefix p (c # cs)")
    case True
    then have "p = c # cs" using Cons.prems by (auto simp: has_prefix_def)
    then show ?thesis by (simp add: has_prefix_def)
  next
    case False
    then have tl: "after_first p cs = Some []" using Cons.prems by simp
    have "take (length p) ((c # cs) @ x) = take (length p) (c # cs)"
      using after_first_length[OF tl] by (subst take_append) simp
    with False have "\<not> has_prefix p (c # cs @ x)" by (simp add: has_prefix_def)
    then show ?thesis using Cons.IH[OF tl] by simp
  qed
next
  case Nil
  then have "p = []" by (simp split: if_splits)
  then show ?case by (cases x) (simp_all add: has_prefix_def)
qed

lemma before_last_append: "before_last p x = Some u \<Longrightarrow> before_last p (a @ x) = Some (a @ u)"
  by (induction a) simp_all

lemma head_ends_at_the_literal: "after_first (version_start @ [CHR 0x0A]) version_py_head = Some []"
  by code_simp

lemma head_opens_the_literal: "after_first version_start (butlast version_py_head) = Some []"
  by code_simp

lemma head_line: "version_py_head = butlast version_py_head @ [CHR 0x0A]"
  by code_simp

lemma tail_closes_the_literal: "before_last version_stop version_py_tail = Some [CHR 0x0A]"
  by code_simp

lemma tail_parts:
  "version_py_tail = CHR 0x0A # three_quotes @ ''  # END VERSION_JSON'' @ drop 24 version_py_tail"
  by code_simp

lemma written_literal:
  "search_between (version_start @ [CHR 0x0A]) version_stop (write_to_version_file vs) =
   Some (json_dumps vs @ [CHR 0x0A])"
  by (simp add: search_between_def write_to_version_file_def
      after_first_append[OF head_ends_at_the_literal] before_last_append[OF tail_closes_the_literal])

lemma loads_dumps:
  "distinct (map fst vs) \<Longrightarrow> list_all json_space trail \<Longrightarrow> loads (json_dumps vs @ trail) = Inr (sort_key fst vs)"
  by (simp add: loads_def json_loads_dumps)

lemma line_break_is_space [simp]: "list_all json_space [CHR 0x0A]"
  by (simp add: json_space_def)

lemma version_file_read_back:
  assumes "distinct (map fst vs)"
  shows "versions_from_file (Some (write_to_version_file vs)) = Inr (sort_key fst vs)"
  using loads_dumps[OF assms line_break_is_space] by (simp add: versions_from_file_def written_literal)

lemma json_loads_line_break: "json_loads (CHR 0x0A # s) = json_loads s"
  by (simp add: json_loads_def skip_line_break)

definition plain_versions :: "versions \<Rightarrow> bool" where
  "plain_versions vs \<longleftrightarrow> (\<forall>m\<in>set vs. list_all plain_char (fst m) \<and> plain_value (snd m))"

lemma version_file_imported:
  assumes "distinct (map fst vs)" "plain_versions vs"
  shows "generated_get_versions (write_to_version_file vs) = Inr (sort_key fst vs)"
proof -
  let ?text = "CHR 0x0A # json_dumps vs @ [CHR 0x0A]"
  have "CHR 0x27 \<notin> set (json_dumps vs)" "CHR 0x5C \<notin> set (json_dumps vs)"
    using assms(2) by (simp_all add: plain_versions_def json_dumps_plain)
  then have "triple_quoted (?text @ three_quotes @ r) = Inr (?text, r)" for r
    by (intro triple_quoted_plain) simp_all
  moreover have "after_first version_start (write_to_version_file vs) = Some (CHR 0x0A # json_dumps vs @ version_py_tail)"
    unfolding write_to_version_file_def
    by (subst head_line) (simp only: append_assoc after_first_append[OF head_opens_the_literal] append.simps)
  ultimately show ?thesis
    using loads_dumps[OF assms(1) line_break_is_space]
    by (subst (asm) tail_parts) (simp add: generated_get_versions_def loads_def json_loads_line_break has_prefix_def)
qed

section \<open>A release is built again\<close>

text \<open>The lines of a file that has no keyword for \<open>git_get_keywords\<close> to find.\<close>

definition keyword_free :: "string \<Rightarrow> bool" where
  "keyword_free line \<longleftrightarrow> \<not> has_prefix ''git_'' (dropWhile is_space line)"

lemma rstrip_of_rest: "\<exists>rest. s = rstrip_of P s @ rest"
  by (metis rev_append rev_rev_ident rstrip_of_def takeWhile_dropWhile_id)

lemma strip_has_prefix: "has_prefix p (strip s) \<Longrightarrow> has_prefix p (dropWhile is_space s)"
  using rstrip_of_rest[of "dropWhile is_space s" is_space]
  by (metis append_assoc has_prefixE has_prefix_append strip_of_def)

lemma keyword_line_free:
  assumes "keyword_free line" "has_prefix ''git_'' start"
  shows "keyword_line line start key kw = kw"
proof -
  have "\<not> has_prefix start (strip line)"
  proof
    assume "has_prefix start (strip line)"
    then have "has_prefix start (dropWhile is_space line)" by (rule strip_has_prefix)
    with assms show False unfolding keyword_free_def by (metis append_assoc has_prefixE has_prefix_append)
  qed
  then show ?thesis by (simp add: keyword_line_def)
qed

lemma no_keywords: "list_all keyword_free lines \<Longrightarrow> git_get_keywords (Some lines) = Map.empty"
proof -
  have "list_all keyword_free lines \<Longrightarrow> fold (\<lambda>line keywords.
      keyword_line line ''git_date ='' ''date'' (keyword_line line ''git_full ='' ''full''
        (keyword_line line ''git_refnames ='' ''refnames'' keywords))) lines kw = kw" for kw
    by (induction lines arbitrary: kw) (simp_all add: keyword_line_free has_prefix_def[of "''git_''"])
  then show "list_all keyword_free lines \<Longrightarrow> ?thesis" by (simp add: git_get_keywords_def)
qed

lemma joined_at_breaks:
  "h = hb @ [CHR 0x0A] \<Longrightarrow> t = CHR 0x0A # r \<Longrightarrow> h @ j @ t = hb @ CHR 0x0A # j @ CHR 0x0A # r"
  by simp

lemma lines_of_written_file:
  "split_on CHR 0x0A (write_to_version_file vs) =
   split_on CHR 0x0A (butlast version_py_head) @ json_lines vs @ split_on CHR 0x0A (tl version_py_tail)"
proof -
  have "version_py_tail = CHR 0x0A # tl version_py_tail" by code_simp
  then have "write_to_version_file vs = butlast version_py_head @ CHR 0x0A # json_dumps vs @ CHR 0x0A # tl version_py_tail"
    unfolding write_to_version_file_def by (rule joined_at_breaks[OF head_line])
  moreover have "split_on CHR 0x0A (json_dumps vs) = json_lines vs"
    unfolding json_dumps_def by (rule split_join) (simp_all add: json_lines_no_break json_lines_def)
  ultimately show ?thesis by (simp only: split_on_at_sep)
qed

lemma has_prefix_line: "has_prefix ''git_'' (x @ [CHR 0x0A]) \<Longrightarrow> has_prefix ''git_'' x"
proof (elim has_prefixE)
  fix r assume r: "x @ [CHR 0x0A] = ''git_'' @ r"
  then show ?thesis
  proof (cases r rule: rev_cases)
    case Nil
    with r have "last (x @ [CHR 0x0A]) = last ''git_''" by simp
    then show ?thesis by simp
  next
    case (snoc r' c)
    with r have "x = ''git_'' @ r'" by (simp only: append_assoc[symmetric] append1_eq_conv)
    then show ?thesis by (simp only: has_prefix_append)
  qed
qed

lemma keyword_free_line: "keyword_free l \<Longrightarrow> keyword_free (l @ [CHR 0x0A])"
proof (cases "\<forall>c\<in>set l. is_space c")
  case True
  have "\<not> has_prefix ''git_'' (dropWhile is_space [CHR 0x0A])" by code_simp
  with True show ?thesis by (simp only: keyword_free_def dropWhile_append2 not_False_eq_True)
next
  case False
  then obtain c where "c \<in> set l" "\<not> is_space c" by blast
  then have "dropWhile is_space (l @ [CHR 0x0A]) = dropWhile is_space l @ [CHR 0x0A]" by (rule dropWhile_append1)
  then show "keyword_free l \<Longrightarrow> ?thesis" using has_prefix_line unfolding keyword_free_def by metis
qed

lemma file_lines_free: "list_all keyword_free (split_on CHR 0x0A s) \<Longrightarrow> list_all keyword_free (file_lines s)"
  using in_set_butlastD last_in_set[OF split_on_nonempty[of "CHR 0x0A" s]]
  by (fastforce simp: file_lines_def Let_def list_all_iff keyword_free_line)

lemma json_lines_free: "list_all keyword_free (json_lines vs)"
proof -
  have "keyword_free (json_member m @ r)" for m r
    by (simp add: keyword_free_def json_member_def json_string_def is_space_def has_prefix_def)
  from this this[of _ "[]"] have "list_all keyword_free (json_members ms)" for ms
    by (induction ms rule: json_members.induct) simp_all
  moreover have "keyword_free ''{}''" "keyword_free ''{''" "keyword_free ''}''" by code_simp+
  ultimately show ?thesis by (simp add: json_lines_def)
qed

lemma written_file_has_no_keywords: "git_get_keywords (Some (file_lines (write_to_version_file vs))) = Map.empty"
proof (intro no_keywords file_lines_free)
  have "list_all keyword_free (split_on CHR 0x0A (butlast version_py_head))"
    "list_all keyword_free (split_on CHR 0x0A (tl version_py_tail))"
    by code_simp+
  then show "list_all keyword_free (split_on CHR 0x0A (write_to_version_file vs))"
    by (simp add: lines_of_written_file json_lines_free)
qed

text \<open>
  The version file of a release says which version it is: whoever builds it again asks neither git nor
  the names of the directories it is in.
\<close>

lemma rebuilt_release:
  assumes "b_vcs cfg = ''git''" "b_versionfile_source cfg \<noteq> None" "distinct (map fst vs)"
  shows "build_versions cfg root (Some (write_to_version_file vs)) runner s = (Inr (sort_key fst vs), s)"
  using assms
  by (simp add: build_versions_def written_file_has_no_keywords git_versions_from_keywords_def version_file_read_back)

section \<open>Releases of the repository\<close>

text \<open>The section \<open>[versioneer]\<close> of \<open>setup.cfg\<close>.\<close>

definition setup_cfg :: "string \<Rightarrow> string option" where
  "setup_cfg = map_of
     [(''VCS'', ''git''), (''style'', ''pep440''), (''versionfile_source'', ''pssh/_version.py''),
      (''tag_prefix'', [CHR 0x27, CHR 0x27])]"

definition repo_config :: build_config where
  "repo_config = \<lparr>b_vcs = ''git'', b_style = ''pep440'', b_versionfile_source = Some ''pssh/_version.py'',
     b_versionfile_build = None, b_tag_prefix = [], b_parentdir_prefix = None, b_verbose = None\<rparr>"

lemma setup_cfg_is_read: "get_config_from_section setup_cfg = Inr repo_config"
  by code_simp

lemma version_dict_keys: "distinct (map fst (version_dict v))"
  by (simp add: version_dict_def Let_def)

lemma version_of_dict: "version_of (version_dict v) = Some (v_version v)"
  by (simp add: version_of_def version_dict_def Let_def)

lemma version_of_sorted:
  assumes "distinct (map fst vs)"
  shows "version_of (sort_key fst vs) = version_of vs"
proof -
  have "map_of (sort_key fst vs) = map_of vs"
    using assms by (subst map_of_inject_set) (simp_all add: distinct_map)
  then show ?thesis by (simp add: version_of_def)
qed

text \<open>The source tree as it is committed: keywords that are not expanded, and no written version.\<close>

definition template_file :: "string \<Rightarrow> bool" where
  "template_file f \<longleftrightarrow> git_get_keywords (Some (file_lines f)) = get_keywords \<and>
     (\<exists>m. versions_from_file (Some f) = Inl (Version_error (Not_this_method m)))"

definition tagged_info :: "vcs_pieces \<Rightarrow> string \<Rightarrow> version_info" where
  "tagged_info p t = \<lparr>v_version = pep440_version p t, v_full_revisionid = Some (p_long p), v_dirty = Some (p_dirty p),
     v_error = None, v_date = Some (p_date p)\<rparr>"

lemma render_tagged: "tagged_checkout git p t \<Longrightarrow> render (Parsed p) ''pep440'' = Inr (tagged_info p t)"
proof -
  assume "tagged_checkout git p t"
  then have "truthy_tag p = Some t"
    by (simp add: tagged_checkout_def describe_tagged_def truthy_tag_def)
  then have "render_pep440 p = Inr (pep440_version p t)"
    by (simp add: render_pep440_def plus_or_dot_tag pep440_version_def commit_part_def)
  then show ?thesis by (simp add: render_def render_style_def tagged_info_def)
qed

lemma build_in_checkout:
  assumes "template_file f" "tagged_checkout git p t"
  shows "build_versions repo_config root (Some f) git s = (Inr (version_dict (tagged_info p t)), s)"
proof -
  obtain m where f: "git_get_keywords (Some (file_lines f)) = get_keywords"
      "versions_from_file (Some f) = Inl (Version_error (Not_this_method m))"
    using assms(1) by (auto simp: template_file_def)
  have cfg: "b_tag_prefix repo_config = []" "b_style repo_config = ''pep440''" "b_vcs repo_config = ''git''"
      "b_versionfile_source repo_config = Some ''pssh/_version.py''"
    by (simp_all add: repo_config_def)
  have "build_from_git repo_config git s = (Inr (tagged_info p t), s)"
    using pieces_of_tagged_checkout[OF assms(2), of s] render_tagged[OF assms(2)]
    by (simp add: build_from_git_def bind_def cfg)
  then show ?thesis
    by (simp add: build_versions_def f cfg unexpanded_keywords bind_def lift_version_def attempt_def)
qed


text \<open>\<open>__version__\<close> of the package that is imported.\<close>

definition package_version ::
  "(string \<rightharpoonup> string) \<Rightarrow> string option \<Rightarrow> (string \<Rightarrow> 's runner) \<Rightarrow> ('s, version_error, string) prog" where
  "package_version keywords file runner = bind (get_versions keywords file runner) (\<lambda>info. return (v_version info))"


text \<open>The three lines of \<open>pssh/_version.py\<close> with the keywords.\<close>

definition keyword_lines :: string where
  "keyword_lines = join_with CHR 0x0A
     [''    git_refnames = \"$Format:%d$\"'', ''    git_full = \"$Format:%H$\"'', ''    git_date = \"$Format:%ci$\"'', '''']"

lemma eq_by_keys: "map f ks = map g ks \<Longrightarrow> (\<And>k. k \<notin> set ks \<Longrightarrow> f k = g k) \<Longrightarrow> f = g"
  by (rule ext) (metis map_eq_conv)

lemma other_keys:
  assumes "k \<notin> set [''refnames'', ''full'', ''date'']"
  shows "git_get_keywords (Some ls) k = get_keywords k"
proof -
  have "kw k = None \<Longrightarrow> fold (\<lambda>line keywords.
      keyword_line line ''git_date ='' ''date'' (keyword_line line ''git_full ='' ''full''
        (keyword_line line ''git_refnames ='' ''refnames'' keywords))) ls kw k = None" for kw
    using assms by (induction ls arbitrary: kw) (auto simp: keyword_line_def split: option.split)
  with assms show ?thesis by (simp add: git_get_keywords_def get_keywords_def)
qed

lemma keyword_lines_template: "template_file keyword_lines"
proof -
  have "map (git_get_keywords (Some (file_lines keyword_lines))) [''refnames'', ''full'', ''date''] =
      map get_keywords [''refnames'', ''full'', ''date'']" by code_simp
  then have "git_get_keywords (Some (file_lines keyword_lines)) = get_keywords"
    by (rule eq_by_keys) (rule other_keys)
  moreover have "versions_from_file (Some keyword_lines) = Inl (Version_error (Not_this_method ''no version_json in _version.py''))"
    by code_simp
  ultimately show ?thesis by (auto simp: template_file_def)
qed

lemma example_version: "pep440_version example_pieces ''2.12-rc'' = ''2.12-rc+5.gabc1234''"
  by code_simp



end
