(* ===== verification/Version_Install.thy ===== *)
theory Version_Install
  imports Version_Build
begin

text \<open>
  \<open>python versioneer.py setup\<close>, which put versioneer into the repository: the version file with the
  configuration filled in, the lines of \<open>pssh/__init__.py\<close> that import it, the attribute by which
  \<open>git archive\<close> expands its keywords, and the check of \<open>setup.py\<close>.  What is printed and \<open>git add\<close> are
  left out; a file is its text, \<open>None\<close> if there is none.
\<close>

section \<open>The version file and the package\<close>

text \<open>
  The configuration in the version file that is written: the template is filled in with \<open>%\<close>, by which an
  option that is not set becomes the string \<open>None\<close>.  The values have no quotes of their own.
\<close>

definition filled_in :: "string option \<Rightarrow> string" where
  "filled_in v = (case v of None \<Rightarrow> ''None'' | Some s \<Rightarrow> s)"

definition generated_config :: "build_config \<Rightarrow> versioneer_config" where
  "generated_config cfg = \<lparr>VCS = ''git'', style = b_style cfg, tag_prefix = b_tag_prefix cfg,
     parentdir_prefix = filled_in (b_parentdir_prefix cfg), versionfile_source = filled_in (b_versionfile_source cfg),
     verbose = False\<rparr>"

definition contains_str :: "string \<Rightarrow> string \<Rightarrow> bool" where
  "contains_str p s \<longleftrightarrow> after_first p s \<noteq> None"

text \<open>\<open>s.replace(p, r)\<close>.\<close>

definition replace_all :: "string \<Rightarrow> string \<Rightarrow> string \<Rightarrow> string" where
  "replace_all p r s = hd (split_str p s) @ concat (map (\<lambda>x. r @ x) (tl (split_str p s)))"

definition splitext_root :: "string \<Rightarrow> string" where
  "splitext_root base =
     (let i = rfind CHR ''.'' base in
      if i \<le> 0 \<or> list_all (\<lambda>c. c = CHR ''.'') (take (nat i) base) then base else take (nat i) base)"

definition OLD_SNIPPET :: string where
  "OLD_SNIPPET = join_with CHR 0x0A
     ['''', ''from ._version import get_versions'',
      ''__version__ = get_versions()['' @ [CHR 0x27] @ ''version'' @ [CHR 0x27] @ '']'', ''del get_versions'', '''']"

definition init_snippet :: "string \<Rightarrow> string" where
  "init_snippet module = join_with CHR 0x0A
     ['''', ''from . import '' @ module,
      ''__version__ = '' @ module @ ''.get_versions()['' @ [CHR 0x27] @ ''version'' @ [CHR 0x27] @ '']'', '''']"

definition update_init :: "string \<Rightarrow> string \<Rightarrow> string" where
  "update_init source old =
     (let snippet = init_snippet (splitext_root (path_basename source)) in
      if contains_str OLD_SNIPPET old then replace_all OLD_SNIPPET snippet old
      else if \<not> contains_str snippet old then old @ snippet
      else old)"

section \<open>The attributes of git\<close>

definition attribute_line :: "string \<Rightarrow> string \<Rightarrow> bool" where
  "attribute_line source line \<longleftrightarrow>
     has_prefix source (strip line) \<and> ''export-subst'' \<in> set (drop 1 (split_words (strip line)))"

definition do_vcs_install :: "string \<Rightarrow> string option \<Rightarrow> string option" where
  "do_vcs_install source attributes =
     (let present = (case attributes of None \<Rightarrow> False | Some s \<Rightarrow> list_ex (attribute_line source) (file_lines s))
      in if present then attributes
         else Some ((case attributes of None \<Rightarrow> [] | Some s \<Rightarrow> s) @ source @ '' export-subst'' @ [CHR 0x0A]))"

section \<open>The setup\<close>

definition scan_line :: "string \<Rightarrow> string set \<times> bool \<Rightarrow> string set \<times> bool" where
  "scan_line line st =
     (let found = fst st;
          found = (if contains_str ''import versioneer'' line then insert ''import'' found else found);
          found = (if contains_str ''versioneer.get_cmdclass()'' line then insert ''cmdclass'' found else found);
          found = (if contains_str ''versioneer.get_version()'' line then insert ''get_version'' found else found)
      in (found, snd st \<or> contains_str ''versioneer.VCS'' line \<or> contains_str ''versioneer.versionfile_source'' line))"

definition scan_setup_py :: "string list \<Rightarrow> nat" where
  "scan_setup_py lines =
     (case fold scan_line lines ({}, False) of
        (found, setters) \<Rightarrow> (if card found \<noteq> 3 then 1 else 0) + (if setters then 1 else 0))"

text \<open>
  The files that the setup reads and writes: the section of \<open>setup.cfg\<close>, the configuration in
  \<open>_version.py\<close>, \<open>__init__.py\<close> beside it and \<open>.gitattributes\<close>.  Where there is no section a sample is
  appended, in which every option is commented out, and nothing else is done.  The version file is
  opened for writing before the template of the version control system is looked up.
\<close>

record installed =
  cfg_section :: "(string \<Rightarrow> string option) option"
  version_file :: "versioneer_config option"
  init_py :: "string option"
  gitattributes :: "string option"

datatype setup_failure = Setup_config build_error | Setup_type_error | Setup_key_error

definition do_setup :: "installed \<Rightarrow> (setup_failure + nat) \<times> installed" where
  "do_setup t =
     (case cfg_section t of
        None \<Rightarrow> (Inr 1, t\<lparr>cfg_section := Some (\<lambda>opt. None)\<rparr>)
      | Some options \<Rightarrow>
         (case get_config_from_section options of
            Inl (No_option_error opt) \<Rightarrow> (Inr 1, t)
          | Inl e \<Rightarrow> (Inl (Setup_config e), t)
          | Inr cfg \<Rightarrow>
              (case b_versionfile_source cfg of
                 None \<Rightarrow> (Inl Setup_type_error, t)
               | Some source \<Rightarrow>
                   if b_vcs cfg \<noteq> ''git'' then (Inl Setup_key_error, t\<lparr>version_file := None\<rparr>)
                   else (Inr 0, t\<lparr>version_file := Some (generated_config cfg),
                                  init_py := map_option (update_init source) (init_py t),
                                  gitattributes := do_vcs_install source (gitattributes t)\<rparr>))))"

definition setup_command :: "string list \<Rightarrow> installed \<Rightarrow> (setup_failure + nat) \<times> installed" where
  "setup_command setup_py t =
     (case do_setup t of
        (Inl e, t') \<Rightarrow> (Inl e, t')
      | (Inr errors, t') \<Rightarrow> (Inr (if errors + scan_setup_py setup_py \<noteq> 0 then 1 else 0), t'))"

section \<open>The repository is set up\<close>

text \<open>The lines of \<open>setup.py\<close> that name versioneer, and of \<open>pssh/__init__.py\<close> around the version.\<close>

definition setup_py_lines :: "string list" where
  "setup_py_lines = [''import versioneer'' @ [CHR 0x0A], ''cmdclass = versioneer.get_cmdclass()'' @ [CHR 0x0A],
     ''      version=versioneer.get_version(),'' @ [CHR 0x0A]]"

definition init_lines :: string where
  "init_lines = join_with CHR 0x0A
     [''from logging import getLogger, NullHandler'', ''from . import _version'',
      ''__version__ = _version.get_versions()['' @ [CHR 0x27] @ ''version'' @ [CHR 0x27] @ '']'', ''del _version'', '''']"

definition repository :: installed where
  "repository = \<lparr>cfg_section = Some setup_cfg, version_file = Some get_config, init_py = Some init_lines,
     gitattributes = Some (''pssh/_version.py export-subst'' @ [CHR 0x0A])\<rparr>"

text \<open>
  The setup changes nothing in the repository and finds no error: its version file has the configuration
  that \<open>setup.cfg\<close> gives, the prefix \<open>None\<close> for the option that is not set included.
\<close>

theorem repository_is_set_up: "setup_command setup_py_lines repository = (Inr 0, repository)"
proof -
  have "b_vcs repo_config = ''git''" "b_versionfile_source repo_config = Some ''pssh/_version.py''"
    "generated_config repo_config = get_config" "update_init ''pssh/_version.py'' init_lines = init_lines"
    "do_vcs_install ''pssh/_version.py'' (Some (''pssh/_version.py export-subst'' @ [CHR 0x0A])) =
       Some (''pssh/_version.py export-subst'' @ [CHR 0x0A])" "scan_setup_py setup_py_lines = 0"
    by code_simp+
  then show ?thesis
    by (simp add: setup_command_def do_setup_def setup_cfg_is_read repository_def)
qed

text \<open>
  The check of \<open>setup.py\<close> passes exactly when each of the three texts is in a line and none of the two
  settings of older versions is.
\<close>

lemma scan_lines:
  "fold scan_line lines (found, setters) =
     (found \<union> (if list_ex (contains_str ''import versioneer'') lines then {''import''} else {})
        \<union> (if list_ex (contains_str ''versioneer.get_cmdclass()'') lines then {''cmdclass''} else {})
        \<union> (if list_ex (contains_str ''versioneer.get_version()'') lines then {''get_version''} else {}),
      setters \<or> list_ex (\<lambda>l. contains_str ''versioneer.VCS'' l \<or> contains_str ''versioneer.versionfile_source'' l) lines)"
  by (induction lines arbitrary: found setters) (auto simp: scan_line_def Let_def)

theorem scan_passes_iff:
  "scan_setup_py lines = 0 \<longleftrightarrow>
     list_ex (contains_str ''import versioneer'') lines \<and> list_ex (contains_str ''versioneer.get_cmdclass()'') lines \<and>
     list_ex (contains_str ''versioneer.get_version()'') lines \<and>
     \<not> list_ex (\<lambda>l. contains_str ''versioneer.VCS'' l \<or> contains_str ''versioneer.versionfile_source'' l) lines"
  by (simp add: scan_setup_py_def scan_lines)

text \<open>
  The attribute is appended once, for a file that ends with a line break; without one it is glued to
  the last line, has no effect there, and is appended again by the next setup.
\<close>

lemma file_lines_append:
  "file_lines (s @ [CHR 0x0A] @ l @ [CHR 0x0A]) = file_lines (s @ [CHR 0x0A]) @ file_lines (l @ [CHR 0x0A])"
  by (simp add: file_lines_def split_on_at_sep Let_def butlast_append)

theorem attribute_is_appended_once:
  assumes "attribute_line source (source @ '' export-subst'' @ [CHR 0x0A])" "CHR 0x0A \<notin> set source"
    "attributes = None \<or> attributes = Some [] \<or> (\<exists>s. attributes = Some (s @ [CHR 0x0A]))"
  shows "do_vcs_install source (do_vcs_install source attributes) = do_vcs_install source attributes"
proof -
  let ?l = "source @ '' export-subst''"
  have l: "file_lines (?l @ [CHR 0x0A]) = [?l @ [CHR 0x0A]]"
    using assms(2) split_on_append_sep[of "CHR 0x0A" ?l "[]"] by (simp add: file_lines_def)
  let ?s = "case attributes of None \<Rightarrow> [] | Some s \<Rightarrow> s"
  from assms(3) have "?s = [] \<or> (\<exists>r. ?s = r @ [CHR 0x0A])" by auto
  then have "list_ex (attribute_line source) (file_lines (?s @ ?l @ [CHR 0x0A]))"
    using assms(1) l file_lines_append[of _ ?l] by auto
  then show ?thesis by (simp add: do_vcs_install_def Let_def)
qed

theorem attribute_is_glued_to_the_last_line:
  "do_vcs_install ''pssh/_version.py'' (do_vcs_install ''pssh/_version.py'' (Some ''*.py text'')) =
     Some (''*.py textpssh/_version.py export-subst'' @ [CHR 0x0A] @ ''pssh/_version.py export-subst'' @ [CHR 0x0A])"
  by code_simp

end
