(* ===== verification/Error_Texts.thy ===== *)
theory Error_Texts
  imports Validation Auth
begin

text \<open>
  What a caller reads when a client cannot be made: the classes and the arguments of the exceptions
  that the connection and the authentication raise (\<open>pssh/clients/base/single.py\<close> and
  \<open>pssh/clients/native/single.py\<close>), and their texts.
\<close>

section \<open>Classes and arguments\<close>

text \<open>\<open>None\<close> for the exceptions that come from the system or from the SSH library as they are.\<close>

definition connect_msg :: string where
  "connect_msg = ''Error connecting to host '%s:%s' - %s - retry %s/%s''"

fun conn_error_raised :: "conn_error \<Rightarrow> raised option" where
  "conn_error_raised (ENoIPv6 host addrs) =
     Some (NoIPv6AddressFoundError,
       [PStr ''Requested IPv6 only and no IPv6 addresses found for host %s from address list %s'',
        PStr host, PList (map PObj addrs)])"
| "conn_error_raised (EUnknownHost host m retries allowed) =
     Some (UnknownHostError,
       [PStr ''Unknown host %s - %s - retry %s/%s'', PStr host, PStr m, PInt retries, PInt allowed])"
| "conn_error_raised (EConnection host port m retries allowed) =
     Some (ConnectionError,
       [PStr connect_msg, PStr host, PInt port, PStr m, PInt retries,
        PInt allowed])"
| "conn_error_raised (ESSH2Timeout host port m) =
     Some (Timeout, [PStr ''Error connecting to host %s:%s - %s'', PStr host, PInt port, PObj m])"
| "conn_error_raised _ = None"

text \<open>The texts of the other exceptions that an authentication ends with are in the parameter \<open>str\<close>.\<close>

fun auth_error_raised :: "(auth_error \<Rightarrow> string) \<Rightarrow> auth_error \<Rightarrow> raised option" where
  "auth_error_raised str (AuthError m) = Some (AuthenticationError, [PStr m])"
| "auth_error_raised str (AuthRetriesError host port ex retries allowed) =
     Some (AuthenticationError,
       [PStr ''Authentication error while connecting to %s:%s - %s - retries %s/%s'', PStr host, PInt port, PObj (str ex),
        PInt retries, PInt allowed])"
| "auth_error_raised str _ = None"

definition raised_text :: "raised option \<Rightarrow> string option" where
  "raised_text r = (case r of None \<Rightarrow> None | Some (c, args) \<Rightarrow> exception_str c args)"

section \<open>Texts\<close>

lemma raised_text_template:
  assumes "\<And>p. p \<in> set ps \<Longrightarrow> CHR ''%'' \<notin> set p" "length ps = Suc (length xs)" "xs \<noteq> []" "c \<noteq> ConnectionError"
    and "fmt = template ps"
  shows "raised_text (Some (c, PStr fmt # xs)) = Some (weave ps (map py_str xs))"
proof -
  have "ps \<noteq> []" using assms(2) by auto
  with exception_text_of[OF assms(1) _ assms(3,4)] assms(2,5) show ?thesis by (simp add: raised_text_def)
qed

text \<open>The format strings, cut at their placeholders.\<close>

lemma connect_templates:
  "''Unknown host %s - %s - retry %s/%s'' = template [''Unknown host '', '' - '', '' - retry '', ''/'', '''']"
  "''Error connecting to host %s:%s - %s'' = template [''Error connecting to host '', '':'', '' - '', '''']"
  "''Authentication error while connecting to %s:%s - %s - retries %s/%s'' =
     template [''Authentication error while connecting to '', '':'', '' - '', '' - retries '', ''/'', '''']"
  by simp_all

lemma unknown_host_text:
  "raised_text (conn_error_raised (EUnknownHost host m retries allowed)) =
     Some (''Unknown host '' @ host @ '' - '' @ m @ '' - retry '' @ dec_int retries @ ''/'' @ dec_int allowed)"
  unfolding conn_error_raised.simps
  by (rule raised_text_template[OF _ _ _ _ connect_templates(1), THEN trans]) (auto simp: py_str_def)

lemma timeout_text:
  "raised_text (conn_error_raised (ESSH2Timeout host port m)) =
     Some (''Error connecting to host '' @ host @ '':'' @ dec_int port @ '' - '' @ m)"
  unfolding conn_error_raised.simps
  by (rule raised_text_template[OF _ _ _ _ connect_templates(2), THEN trans]) (auto simp: py_str_def)

lemma auth_retries_text:
  "raised_text (auth_error_raised str (AuthRetriesError host port ex retries allowed)) =
     Some (''Authentication error while connecting to '' @ host @ '':'' @ dec_int port @ '' - '' @ str ex @
       '' - retries '' @ dec_int retries @ ''/'' @ dec_int allowed)"
  unfolding auth_error_raised.simps
  by (rule raised_text_template[OF _ _ _ _ connect_templates(3), THEN trans]) (auto simp: py_str_def)

text \<open>The built-in class does not format: its text is that of the tuple of the six arguments.\<close>

lemma connection_error_text:
  "raised_text (conn_error_raised (EConnection host port m retries allowed)) =
     Some (''('' @ comma_join
       [repr_str connect_msg, repr_str host, dec_int port, repr_str m,
        dec_int retries, dec_int allowed] @ '')'')"
  by (simp add: raised_text_def exception_str_def issubclass_iff)

text \<open>The last error of the two retry loops.\<close>

lemma unknown_host_looked_up:
  assumes "\<And>h. resolver E h = GaiError m"
  shows "fst (connect P E host port 1 s) = Inl (EUnknownHost host m (max 1 (num_retries P)) (num_retries P))"
  using connect_gai_forever[OF assms, of P host port 1 s] by (simp add: retries_left_def)

lemma unreachable_given_up:
  assumes "sockets_open E" "\<And>h. dialer E h = OSErr m" "\<And>h. resolver E h = Resolved [a]"
    "ipv6_only P \<Longrightarrow> addr_family a = AF_INET6"
  shows "fst (connect P E host port 1 s) = Inl (EConnection host port m (max 1 (num_retries P)) (num_retries P))"
  using connect_oserr_forever[OF assms, where host = host and port = port and retries = 1 and s = s]
  by (simp add: retries_left_def)

section \<open>Properties\<close>

text \<open>
  What a caller reads after the last attempt.  For a host that cannot be resolved it is a sentence with
  the host, the reason and the number of attempts.
\<close>
theorem text_of_an_unknown_host:
  assumes "\<And>h. resolver E h = GaiError m"
  shows "\<exists>e. fst (connect P E host port 1 s) = Inl e \<and> raised_text (conn_error_raised e) =
    Some (''Unknown host '' @ host @ '' - '' @ m @ '' - retry '' @ dec_int (max 1 (num_retries P)) @ ''/'' @
      dec_int (num_retries P))"
  by (intro exI conjI, rule unknown_host_looked_up[OF assms], rule unknown_host_text)

theorem text_of_an_unknown_host_witness:
  "\<exists>e. fst (connect (params 3) ((one_host (\<lambda>h. Connected))\<lparr>resolver := \<lambda>h. GaiError ''no name''\<rparr>) ''db'' 22 1 idle) = Inl e \<and>
     raised_text (conn_error_raised e) = Some ''Unknown host db - no name - retry 3/3''"
proof -
  have d: "dec_int 3 = ''3''" by code_simp
  show ?thesis
    using text_of_an_unknown_host[of "(one_host (\<lambda>h. Connected))\<lparr>resolver := \<lambda>h. GaiError ''no name''\<rparr>" "''no name''"
        "params 3" "''db''" 22 idle]
    by (simp add: params_def d)
qed

text \<open>
  For a host whose one address cannot be connected to it is the representation of a tuple, whose
  first element is the sentence with its placeholders still in it.
\<close>
theorem text_of_an_unreachable_host:
  assumes "sockets_open E" "\<And>h. dialer E h = OSErr m" "\<And>h. resolver E h = Resolved [a]"
    "ipv6_only P \<Longrightarrow> addr_family a = AF_INET6"
  shows "\<exists>e. fst (connect P E host port 1 s) = Inl e \<and> raised_text (conn_error_raised e) =
    Some (''('' @ comma_join [repr_str connect_msg, repr_str host,
      dec_int port, repr_str m, dec_int (max 1 (num_retries P)), dec_int (num_retries P)] @ '')'')"
  using unreachable_given_up[OF assms, where host = host and port = port and s = s] connection_error_text by blast

theorem text_of_an_unreachable_host_witness:
  "\<exists>e. fst (connect (params 3) (one_host (\<lambda>h. OSErr ''timed out'')) ''db'' 22 1 idle) = Inl e \<and>
     raised_text (conn_error_raised e) =
       Some (''('' @ ([CHR 0x22] @ ''Error connecting to host '%s:%s' - %s - retry %s/%s'' @ [CHR 0x22] @
         '', 'db', 22, 'timed out', 3, 3'') @ '')'')"
proof -
  have n: "num_retries (params 3) = 3" "max 1 (3 :: int) = 3" by (simp_all add: params_def)
  have t: "comma_join [repr_str connect_msg, repr_str ''db'', dec_int 22, repr_str ''timed out'', dec_int 3, dec_int 3] =
    [CHR 0x22] @ ''Error connecting to host '%s:%s' - %s - retry %s/%s'' @ [CHR 0x22] @ '', 'db', 22, 'timed out', 3, 3''"
    by code_simp
  from text_of_an_unreachable_host[of "one_host (\<lambda>h. OSErr ''timed out'')" "''timed out''" local_addr "params 3" "''db''" 22 idle]
  have "\<exists>e. fst (connect (params 3) (one_host (\<lambda>h. OSErr ''timed out'')) ''db'' 22 1 idle) = Inl e \<and>
     raised_text (conn_error_raised e) = Some (''('' @ comma_join [repr_str connect_msg, repr_str ''db'', dec_int 22,
       repr_str ''timed out'', dec_int (max 1 (num_retries (params 3))), dec_int (num_retries (params 3))] @ '')'')"
    by (simp only: one_host_facts) (simp add: one_host_def local_addr_def)
  then show ?thesis unfolding n t .
qed

end
