(* ===== verification/Fleet.thy ===== *)
theory Fleet
  imports Setup Pool_Results
begin

text \<open>
  A parallel client with the clients that it makes.  \<open>Parallel_Client\<close> and \<open>Pool_Results\<close> leave open
  what a client is and how it is made; here it is a native client, made by its constructor
  (\<open>Setup\<close>) from the arguments that \<open>_make_ssh_client\<close> passes, over a network and a server for each host.
  The defaults of all constructors and the two constants of \<open>constants.py\<close> are those of the code.
\<close>

section \<open>Constants and defaults\<close>

definition DEFAULT_RETRIES :: int where
  "DEFAULT_RETRIES = 3"

definition RETRY_DELAY :: int where
  "RETRY_DELAY = 5"

definition native_defaults :: "string \<Rightarrow> client_args" where
  "native_defaults host =
     \<lparr>arg_host = host, arg_user = None, arg_password = None, arg_port = None, arg_pkey = NoKey,
      arg_num_retries = DEFAULT_RETRIES, arg_allow_agent = True, arg_timeout = None, arg_keepalive_seconds = 60,
      arg_identity_auth = True, arg_ipv6_only = False, arg_compress = False, arg_keyboard_interactive = False,
      arg_proxy_host = None,
      arg_proxy_login = \<lparr>login_port = None, login_pkey = None, login_user = None, login_password = None\<rparr>,
      arg_cert_file = None, arg_gssapi_auth = False, arg_gssapi_server = None, arg_gssapi_client = None\<rparr>"

text \<open>The ssh-python client has neither a proxy nor keep-alive messages.\<close>

definition ssh_defaults :: "string \<Rightarrow> client_args" where
  "ssh_defaults host =
     \<lparr>arg_host = host, arg_user = None, arg_password = None, arg_port = None, arg_pkey = NoKey,
      arg_num_retries = DEFAULT_RETRIES, arg_allow_agent = True, arg_timeout = None, arg_keepalive_seconds = 0,
      arg_identity_auth = True, arg_ipv6_only = False, arg_compress = False, arg_keyboard_interactive = False,
      arg_proxy_host = None,
      arg_proxy_login = \<lparr>login_port = None, login_pkey = None, login_user = None, login_password = None\<rparr>,
      arg_cert_file = None, arg_gssapi_auth = False, arg_gssapi_server = None, arg_gssapi_client = None\<rparr>"

definition native_parallel_defaults :: host_config where
  "native_parallel_defaults = default_config
     \<lparr>hc_port := PInt 22, hc_num_retries := PInt DEFAULT_RETRIES, hc_allow_agent := PBool True,
      hc_retry_delay := PInt RETRY_DELAY, hc_keepalive_seconds := PInt 60, hc_identity_auth := PBool True,
      hc_ipv6_only := PBool False\<rparr>"

definition ssh_parallel_defaults :: host_config where
  "ssh_parallel_defaults = default_config
     \<lparr>hc_port := PInt 22, hc_num_retries := PInt DEFAULT_RETRIES, hc_allow_agent := PBool True,
      hc_retry_delay := PInt RETRY_DELAY, hc_identity_auth := PBool True, hc_ipv6_only := PBool False\<rparr>"

section \<open>The client of a host\<close>

text \<open>
  The values that are passed, as the arguments of the constructor.  \<open>None\<close>: values that \<open>client_args\<close>
  does not have, a float as a timeout or a boolean as a number.
\<close>

fun typed_text :: "pyval \<Rightarrow> string option option" where
  "typed_text PNone = Some None"
| "typed_text (PStr s) = Some (Some s)"
| "typed_text _ = None"

fun typed_number :: "pyval \<Rightarrow> int option option" where
  "typed_number PNone = Some None"
| "typed_number (PInt n) = Some (Some n)"
| "typed_number _ = None"

fun typed_key :: "pyval \<Rightarrow> key option" where
  "typed_key PNone = Some NoKey"
| "typed_key (PStr p) = Some (KeyPath p)"
| "typed_key (PBytes d) = Some (KeyData d)"
| "typed_key _ = None"

definition typed_args :: "string \<Rightarrow> host_config \<Rightarrow> client_args option" where
  "typed_args host a =
     (case (typed_text (hc_user a), typed_text (hc_password a), typed_text (hc_proxy_host a), typed_text (hc_proxy_user a),
            typed_text (hc_proxy_password a)) of
        (Some usr, Some pw, Some proxy, Some proxy_usr, Some proxy_pw) \<Rightarrow>
          (case (typed_number (hc_port a), typed_number (hc_num_retries a), typed_number (hc_timeout a),
                 typed_number (hc_keepalive_seconds a), typed_number (hc_proxy_port a)) of
             (Some port, Some (Some retries), Some timeout, Some keepalive, Some proxy_port) \<Rightarrow>
               (case (typed_key (hc_private_key a), typed_key (hc_proxy_pkey a)) of
                  (Some key, Some proxy_key) \<Rightarrow>
                    Some ((native_defaults host)
                      \<lparr>arg_user := usr, arg_password := pw, arg_port := port, arg_pkey := key, arg_num_retries := retries,
                       arg_allow_agent := truthy (hc_allow_agent a), arg_timeout := timeout,
                       arg_keepalive_seconds := (case keepalive of None \<Rightarrow> 0 | Some n \<Rightarrow> n),
                       arg_identity_auth := truthy (hc_identity_auth a), arg_ipv6_only := truthy (hc_ipv6_only a),
                       arg_compress := truthy (hc_compress a), arg_proxy_host := proxy,
                       arg_proxy_login := \<lparr>login_port = proxy_port,
                         login_pkey = (if proxy_key = NoKey then None else Some proxy_key),
                         login_user = proxy_usr, login_password = proxy_pw\<rparr>\<rparr>)
                | _ \<Rightarrow> None)
           | _ \<Rightarrow> None)
      | _ \<Rightarrow> None)"

text \<open>
  \<open>_make_ssh_client\<close> of the native parallel client: \<open>N\<close> and \<open>E\<close> are the network and the server of each
  host, \<open>raise\<close> the exceptions of a constructor among those of the parallel client, and \<open>other\<close> what
  becomes of the values that are not modelled.
\<close>

definition make_native_client ::
  "(setup_error \<Rightarrow> par_error) \<Rightarrow> (string \<Rightarrow> host_config \<Rightarrow> par_error + client \<times> client option) \<Rightarrow> surroundings
     \<Rightarrow> (string \<Rightarrow> net) \<Rightarrow> (string \<Rightarrow> auth_env) \<Rightarrow> nat \<Rightarrow> string \<Rightarrow> host_config \<Rightarrow> par_error + client \<times> client option" where
  "make_native_client raise other X N E fport host a =
     (case typed_args host a of
        None \<Rightarrow> other host a
      | Some A \<Rightarrow>
          let proxy = (case arg_proxy_host A of None \<Rightarrow> '''' | Some p \<Rightarrow> p) in
          (case native_constructor X (N host) (E host) (N proxy) (E proxy) fport A of
             (Inl e, _, _) \<Rightarrow> Inl (raise e)
           | (Inr _, c, p) \<Rightarrow> Inr (c, p)))"

text \<open>
  The same for the ssh-python client, whose constructor takes a certificate and the arguments of GSSAPI
  and has no proxy.
\<close>

definition typed_ssh_args :: "string \<Rightarrow> host_config \<Rightarrow> client_args option" where
  "typed_ssh_args host a =
     (case (typed_text (hc_user a), typed_text (hc_password a), typed_text (hc_cert_file a),
            typed_text (hc_gssapi_server_identity a), typed_text (hc_gssapi_client_identity a)) of
        (Some usr, Some pw, Some cert, Some gss_server, Some gss_client) \<Rightarrow>
          (case (typed_number (hc_port a), typed_number (hc_num_retries a), typed_number (hc_timeout a),
                 typed_key (hc_private_key a)) of
             (Some port, Some (Some retries), Some timeout, Some key) \<Rightarrow>
               Some ((ssh_defaults host)
                 \<lparr>arg_user := usr, arg_password := pw, arg_port := port, arg_pkey := key, arg_num_retries := retries,
                  arg_allow_agent := truthy (hc_allow_agent a), arg_timeout := timeout,
                  arg_identity_auth := truthy (hc_identity_auth a), arg_ipv6_only := truthy (hc_ipv6_only a),
                  arg_compress := truthy (hc_compress a), arg_cert_file := cert,
                  arg_gssapi_auth := truthy (hc_gssapi_auth a), arg_gssapi_server := gss_server,
                  arg_gssapi_client := gss_client\<rparr>)
           | _ \<Rightarrow> None)
      | _ \<Rightarrow> None)"

definition make_ssh_client ::
  "(setup_error \<Rightarrow> par_error) \<Rightarrow> (string \<Rightarrow> host_config \<Rightarrow> par_error + client) \<Rightarrow> surroundings
     \<Rightarrow> (string \<Rightarrow> net) \<Rightarrow> (string \<Rightarrow> auth_env) \<Rightarrow> string \<Rightarrow> host_config \<Rightarrow> par_error + client" where
  "make_ssh_client raise other X N E host a =
     (case typed_ssh_args host a of
        None \<Rightarrow> other host a
      | Some A \<Rightarrow>
          (case ssh_constructor X (N host) (E host) A of
             (Inl e, _) \<Rightarrow> Inl (raise e)
           | (Inr _, c) \<Rightarrow> Inr c))"

section \<open>What a default client passes on\<close>

definition text_value :: "string option \<Rightarrow> pyval" where
  "text_value t = (case t of None \<Rightarrow> PNone | Some s \<Rightarrow> PStr s)"

lemma typed_text_value: "typed_text (text_value t) = Some t"
  by (simp add: text_value_def split: option.split)

lemma py_or_same [simp]: "py_or a a = a"
  by (simp add: py_or_def)

definition login_defaults :: "string option \<Rightarrow> string option \<Rightarrow> host_config" where
  "login_defaults usr pw = native_parallel_defaults\<lparr>hc_user := text_value usr, hc_password := text_value pw\<rparr>"

lemma login_defaults_typed: "well_typed (own_config (login_defaults usr pw))"
  by (simp add: login_defaults_def own_config_def native_parallel_defaults_def default_config_def well_typed_def
      field_types_def fails_def text_value_def split: option.split)

lemma default_constructor:
  assumes "native_parallel_constructor F (HList hs) (login_defaults usr pw) None l = Inr c"
  shows "phosts c = hs \<and> phost_config c = None \<and> pself c = login_defaults usr pw \<and> host_clients c = Map.empty"
  using assms
  by (simp add: native_parallel_constructor_def base_parallel_constructor_def validate_hosts_def validate_pkey_def
      check_host_config_def validate_api_def login_defaults_def native_parallel_defaults_def default_config_def
      split: sum.splits if_splits) (auto)

lemma default_host_config:
  assumes "native_parallel_constructor F (HList hs) (login_defaults usr pw) None l = Inr c"
  shows "get_host_config c i = Inr (own_config (login_defaults usr pw))"
proof -
  have "make_host_config (own_config (login_defaults usr pw)) = Inr (own_config (login_defaults usr pw))"
    using login_defaults_typed[of usr pw] by (simp add: make_host_config_ok) (simp add: own_config_def)
  with default_constructor[OF assms] show ?thesis by (simp add: get_host_config_def)
qed

lemma default_requests:
  assumes "native_parallel_constructor F (HList hs) (login_defaults usr pw) None l = Inr c"
  shows "request_client F native_client_args i host c =
    MakeClient (native_client_args (login_defaults usr pw) (own_config (login_defaults usr pw)) PNone)"
  using default_constructor[OF assms] default_host_config[OF assms, of i]
  by (simp add: request_client_def load_pkey_data_def own_config_def login_defaults_def native_parallel_defaults_def
      default_config_def)

lemma default_typed_args:
  "typed_args host (native_client_args (login_defaults usr pw) (own_config (login_defaults usr pw)) PNone) =
    Some ((native_defaults host)\<lparr>arg_user := usr, arg_password := pw, arg_port := Some 22\<rparr>)"
  by (simp add: typed_args_def native_client_args_def own_config_def login_defaults_def native_parallel_defaults_def
      default_config_def typed_text_value native_defaults_def py_or_def)

lemma default_client_args:
  assumes "native_parallel_constructor F (HList hs) (login_defaults usr pw) None l = Inr c"
    "request_client F native_client_args i host c = MakeClient args"
  shows "typed_args host args =
    Some ((native_defaults host)\<lparr>arg_user := usr, arg_password := pw, arg_port := Some 22\<rparr>)"
  using assms(2) by (auto simp: default_requests[OF assms(1)] default_typed_args)

definition ssh_login_defaults :: "string option \<Rightarrow> string option \<Rightarrow> host_config" where
  "ssh_login_defaults usr pw = ssh_parallel_defaults\<lparr>hc_user := text_value usr, hc_password := text_value pw\<rparr>"

lemma default_ssh_client_args:
  assumes "ssh_parallel_constructor F (HList hs) (ssh_login_defaults usr pw) None l = Inr c"
    "request_client F ssh_client_args i host c = MakeClient args"
  shows "typed_ssh_args host args = Some ((ssh_defaults host)\<lparr>arg_user := usr, arg_password := pw, arg_port := Some 22\<rparr>)"
proof -
  note defs = ssh_login_defaults_def ssh_parallel_defaults_def default_config_def
  have c: "phost_config c = None" "pself c = ssh_login_defaults usr pw"
    using assms(1)
    by (simp_all add: ssh_parallel_constructor_def base_parallel_constructor_def validate_hosts_def validate_pkey_def
        check_host_config_def validate_api_def defs split: sum.splits if_splits) auto
  have "well_typed (own_config (ssh_login_defaults usr pw))"
    by (simp add: defs own_config_def well_typed_def field_types_def fails_def text_value_def split: option.split)
  then have "make_host_config (own_config (ssh_login_defaults usr pw)) = Inr (own_config (ssh_login_defaults usr pw))"
    by (simp add: make_host_config_ok) (simp add: own_config_def)
  with assms(2) c have "args = ssh_client_args (ssh_login_defaults usr pw) (own_config (ssh_login_defaults usr pw)) PNone"
    by (simp add: get_host_config_def request_client_def load_pkey_data_def own_config_def defs split: option.splits)
  then show ?thesis
    by (simp add: typed_ssh_args_def ssh_client_args_def own_config_def defs typed_text_value ssh_defaults_def)
qed

section \<open>Commands on the clients\<close>

text \<open>
  A client knows the name of its host, which is the name of its host outputs and of the server that
  answers the calls on its channels.
\<close>

definition named_client :: "(string \<Rightarrow> host_config \<Rightarrow> par_error + 'c) \<Rightarrow> string \<Rightarrow> host_config \<Rightarrow> par_error + string \<times> 'c" where
  "named_client construct host a = map_sum id (Pair host) (construct host a)"

text \<open>
  The call of \<open>run_command\<close> in \<open>_run_command\<close> of the parallel client, which passes no \<open>timeout\<close>.  The
  client has just been made, so that nothing has been called on a channel of it.  \<open>R\<close> answers the
  calls for each host, \<open>raise\<close> is as in \<open>make_native_client\<close>.
\<close>

record command_args =
  cmd_sudo :: bool
  cmd_user :: "string option"
  cmd_use_pty :: bool
  cmd_shell :: "string option"
  cmd_read_timeout :: "nat option"

definition client_run_command ::
  "(chan_error \<Rightarrow> par_error) \<Rightarrow> (string \<Rightarrow> chan_error + bytes) \<Rightarrow> (string \<Rightarrow> chan_env) \<Rightarrow> command_args
     \<Rightarrow> string \<times> 'c \<Rightarrow> string \<Rightarrow> par_error + host_output" where
  "client_run_command raise encode R a client command =
     (case client of (host, _) \<Rightarrow>
        map_sum raise id
          (fst (run_command encode (native_execute (R host)) (R host) host command (cmd_sudo a) (cmd_user a)
             (cmd_use_pty a) (cmd_shell a) None (cmd_read_timeout a) [])))"

text \<open>What the same command comes to on a client that is made for one host by itself.\<close>

definition single_client_args :: "string option \<Rightarrow> string option \<Rightarrow> string \<Rightarrow> client_args" where
  "single_client_args usr pw host = (native_defaults host)\<lparr>arg_user := usr, arg_password := pw, arg_port := Some 22\<rparr>"

definition single_run ::
  "(setup_error \<Rightarrow> par_error) \<Rightarrow> (chan_error \<Rightarrow> par_error) \<Rightarrow> surroundings \<Rightarrow> (string \<Rightarrow> net) \<Rightarrow> (string \<Rightarrow> auth_env) \<Rightarrow> nat
     \<Rightarrow> (string \<Rightarrow> chan_error + bytes) \<Rightarrow> (string \<Rightarrow> chan_env) \<Rightarrow> command_args \<Rightarrow> string option \<Rightarrow> string option
     \<Rightarrow> string \<Rightarrow> string \<Rightarrow> par_error + host_output" where
  "single_run raise raise_run X N E fport encode R a usr pw command host =
     (case native_constructor X (N host) (E host) (N '''') (E '''') fport (single_client_args usr pw host) of
        (Inl e, _) \<Rightarrow> Inl (raise e)
      | (Inr _, client) \<Rightarrow> client_run_command raise_run encode R a (host, client) command)"

definition output_of_single :: "string \<Rightarrow> par_error + host_output \<Rightarrow> par_output" where
  "output_of_single host r =
     (case r of Inr out \<Rightarrow> Output out | Inl ex \<Rightarrow> FailedOutput host PNone (as_timeout ex))"

lemma default_output_of:
  assumes "native_parallel_constructor F (HList hs) (login_defaults usr pw) None l = Inr c"
  shows "output_of c i r = output_of_single (hs ! i) r"
  using default_constructor[OF assms] default_host_config[OF assms, of i]
  by (simp add: output_of_def output_of_single_def alias_of_def own_config_def split: sum.split)

lemma default_make_client:
  "make_native_client raise other X N E fport host
     (native_client_args (login_defaults usr pw) (own_config (login_defaults usr pw)) PNone) =
   (case native_constructor X (N host) (E host) (N '''') (E '''') fport (single_client_args usr pw host) of
      (Inl e, _) \<Rightarrow> Inl (raise e)
    | (Inr _, client) \<Rightarrow> Inr client)"
proof -
  have "arg_proxy_host (single_client_args usr pw host) = None"
    by (simp add: single_client_args_def native_defaults_def)
  then show ?thesis
    by (simp add: make_native_client_def default_typed_args flip: single_client_args_def split: prod.split sum.split)
qed

lemma default_alone:
  assumes "native_parallel_constructor F (HList hs) (login_defaults usr pw) None l = Inr c" "i < length hs"
  shows "alone F native_client_args (named_client (make_native_client raise other X N E fport))
      (\<lambda>i client. client_run_command raise_run encode R a client command) (py_enumerate hs) c i =
    single_run raise raise_run X N E fport encode R a usr pw command (hs ! i)"
  using default_requests[OF assms(1)] assms(2)
  by (simp add: alone_def on_client_def get_ssh_client_parts named_client_def default_make_client single_run_def
      nth_enumerate_eq split: prod.split sum.split)

text \<open>
  A run of a default parallel client in which every greenlet has come to its end: the results are those
  of one client per host, each made and used by itself.
\<close>

lemma default_run_results:
  assumes c: "native_parallel_constructor F (HList hs) (login_defaults usr pw) None l = Inr c"
    and "set order \<subseteq> {..<length hs}" "0 < pool_size"
    and run: "host_run F native_client_args (named_client (make_native_client raise other X N E fport))
           (\<lambda>i client. client_run_command raise_run encode R a client command) pool_size (py_enumerate hs)
           (start_run c (py_enumerate hs)) s"
    and "\<And>t. \<not> host_step F native_client_args (named_client (make_native_client raise other X N E fport))
           (\<lambda>i client. client_run_command raise_run encode R a client command) pool_size (py_enumerate hs) s t"
  defines "result \<equiv> \<lambda>i. single_run raise raise_run X N E fport encode R a usr pw command (hs ! i)"
  shows "phases s = map (\<lambda>i. Ended (result i)) [0..<length hs]"
    and "get_output_from_cmds (shared s) False result order = Inr (map (\<lambda>i. output_of_single (hs ! i) (result i)) order)"
proof -
  have "distinct (py_enumerate hs)" by simp
  note ended = host_run_ended[OF run assms(5,3) this, unfolded length_enumerate, unfolded default_alone[OF c]]
  have "length (phases s) = length hs"
    using pool_inv_run[OF host_run_task_run[OF run]] by (simp add: pool_inv_def)
  then show "phases s = map (\<lambda>i. Ended (result i)) [0..<length hs]"
    by (intro nth_equalityI) (simp_all add: ended default_alone[OF c] result_def)
  have "same_but_cache c (shared s)"
    using results_inv_run[OF run] by (simp add: results_inv_def)
  moreover have "configured c" by (simp add: configured_def default_host_config[OF c])
  ultimately show "get_output_from_cmds (shared s) False result order = Inr (map (\<lambda>i. output_of_single (hs ! i) (result i)) order)"
    using assms(2) default_constructor[OF c] by (simp add: outputs_of_run default_output_of[OF c])
qed

section \<open>Properties\<close>

lemma native_constructor_history:
  assumes "native_constructor X N E NP EP fport A = (Inr (), c, p)" "arg_proxy_host A = None"
    "login_port (arg_proxy_login A) = None"
  shows "p = None \<and> list_all (at_host (arg_host A) (own_port (arg_port A))) (history (conn_of c)) \<and>
    count is_handshake (conn_of c) \<le> nat (max 1 (arg_num_retries A))"
proof -
  let ?port = "own_port (arg_port A)"
  have e: "connection_endpoint (arg_host A) (arg_port A) None None = (arg_host A, ?port)"
    by (simp add: connection_endpoint_def falsy_port_def)
  with assms have p: "p = None" and at: "native_client_at X N E A (arg_host A, ?port) new_client = (Inr (), c)"
    by (auto simp: native_constructor_def split: prod.splits)
  from at obtain k where "native_client_init (conn_attributes A) N (auth_attributes X A k None) E (arg_keepalive_seconds A)
      (arg_host A) ?port new_client = (Inr (), c)"
    by (rule native_client_atE) simp
  from native_client_history[OF this] p show ?thesis by (simp add: conn_attributes_def)
qed

lemma single_run_output:
  assumes "single_run raise raise_run X N E fport encode R a usr pw command host = Inr ho" "\<And>host. resolves (N host)"
  shows "(\<exists>client. native_constructor X (N host) (E host) (N '''') (E '''') fport (single_client_args usr pw host) =
        (Inr (), client, None) \<and> client_ready (N host) (E host) client) \<and>
    (\<exists>cmd. encode (command_string command (cmd_sudo a) (cmd_user a) (cmd_shell a)) = Inr cmd \<and>
       ho = \<lparr>ho_host = host, ho_channel = True, ho_client = True, ho_exception = None,
             ho_read_timeout = pick_timeout (cmd_read_timeout a) None, ho_command = Some cmd\<rparr>)"
proof -
  from assms(1) obtain client p where
    made: "native_constructor X (N host) (E host) (N '''') (E '''') fport (single_client_args usr pw host) = (Inr (), client, p)"
    and run: "client_run_command raise_run encode R a (host, client, p) command = Inr ho"
    by (auto simp: single_run_def split: prod.splits sum.splits)
  have "arg_proxy_host (single_client_args usr pw host) = None"
    "login_port (arg_proxy_login (single_client_args usr pw host)) = None" "arg_host (single_client_args usr pw host) = host"
    by (simp_all add: single_client_args_def native_defaults_def)
  with native_constructor_ready[OF assms(2) assms(2) made] native_constructor_history[OF made]
  have "client_ready (N host) (E host) client" "p = None" by simp_all
  let ?m = "run_command encode (native_execute (R host)) (R host) host command (cmd_sudo a) (cmd_user a)
      (cmd_use_pty a) (cmd_shell a) None (cmd_read_timeout a) []"
  from run have "fst ?m = Inr ho" by (cases "fst ?m") (simp_all add: client_run_command_def)
  then have "?m = (Inr ho, snd ?m)" by (simp add: prod_eq_iff)
  from run_command_output[OF this] \<open>p = None\<close> \<open>client_ready (N host) (E host) client\<close> made show ?thesis by simp
qed

text \<open>It has an output when the client can be made and every call on its channel is answered.\<close>

lemma single_run_answered:
  assumes "native_constructor X (N host) (E host) (N '''') (E '''') fport (single_client_args usr pw host) = (Inr (), client)"
    "\<And>h. R host h = None" "encode (command_string command (cmd_sudo a) (cmd_user a) (cmd_shell a)) = Inr cmd"
  shows "\<exists>ho. single_run raise raise_run X N E fport encode R a usr pw command host = Inr ho"
  using assms by (simp add: single_run_def client_run_command_def run_command_def native_execute_def execute_def
      native_open_session_def wrap_session_error_def make_host_output_def attempt_def call_def)

text \<open>
  C10: A parallel client that is made with a list of hosts, a user and a password, and otherwise with the
  defaults: whatever its greenlets do in its pool and in which order, every client that was made in it is
  the client of one of the hosts, connected, authenticated and non-blocking, without a proxy; while it was
  made no other name and no other port than 22 was looked up, and there were at most three handshakes.
\<close>

theorem default_pool_makes_ready_clients:
  assumes "native_parallel_constructor F (HList hs) (login_defaults usr pw) None l = Inr c"
    and "\<And>host. resolves (N host)"
    and "host_run F native_client_args (make_native_client raise other X N E fport) operation pool_size
           (py_enumerate hs) (start_run c (py_enumerate hs)) s"
    and "((i, host), client, proxy) \<in> set (clients_made s)"
  shows "i < length hs \<and> host = hs ! i \<and> client_ready (N host) (E host) client \<and> proxy = None \<and>
    list_all (at_host host 22) (history (conn_of client)) \<and> count is_handshake (conn_of client) \<le> 3"
proof -
  have "distinct (py_enumerate hs)" by simp
  from made_clients_run[OF assms(3) this assms(4)] obtain args where
    i: "(i, host) \<in> set (py_enumerate hs)" and args: "request_client F native_client_args i host c = MakeClient args"
    and made: "make_native_client raise other X N E fport host args = Inr (client, proxy)"
    by auto
  let ?A = "(native_defaults host)\<lparr>arg_user := usr, arg_password := pw, arg_port := Some 22\<rparr>"
  have A: "arg_host ?A = host" "arg_proxy_host ?A = None" "login_port (arg_proxy_login ?A) = None"
    "own_port (arg_port ?A) = 22" "arg_num_retries ?A = 3"
    by (simp_all add: native_defaults_def own_port_def falsy_port_def DEFAULT_RETRIES_def)
  from made default_client_args[OF assms(1) args]
  have "native_constructor X (N host) (E host) (N '''') (E '''') fport ?A = (Inr (), client, proxy)"
    by (auto simp: make_native_client_def A split: prod.splits sum.splits)
  from native_constructor_ready[OF assms(2) assms(2) this] native_constructor_history[OF this A(2,3), unfolded A] i
  show ?thesis by simp
qed

text \<open>
  The clients that a pool of the ssh-python client makes are ready too, whatever the parallel client and
  its hosts are configured to be, and each has made at most as many handshakes as it has retries.
\<close>

lemma ssh_constructor_ready:
  assumes "resolves N" "ssh_constructor X N E A = (Inr (), c)"
  shows "client_ready N E c \<and> count is_handshake (conn_of c) \<le> nat (max 1 (arg_num_retries A))"
proof -
  let ?B = "A\<lparr>arg_keyboard_interactive := False\<rparr>"
  from assms(2) obtain cert where
    "base_constructor X (\<lambda>P Q. ssh_client_init P N Q E (arg_host A) (own_port (arg_port A))) ?B cert new_client = (Inr (), c)"
    by (auto simp: ssh_constructor_def split: sum.splits)
  then obtain k where i: "ssh_client_init (conn_attributes ?B) N (auth_attributes X ?B k cert) E (arg_host A)
      (own_port (arg_port A)) new_client = (Inr (), c)"
    by (rule base_constructorE)
  from ssh_client_ready[OF assms(1) i] ssh_client_handshakes[OF i] show ?thesis by (simp add: conn_attributes_def)
qed

theorem ssh_pool_makes_ready_clients:
  assumes "\<And>host. resolves (N host)" "distinct keys"
    "\<And>host a client. other host a \<noteq> Inr client"
    "host_run F ssh_client_args (make_ssh_client raise other X N E) operation pool_size keys (start_run c keys) s"
    "((i, host), client) \<in> set (clients_made s)"
  shows "(i, host) \<in> set keys \<and> client_ready (N host) (E host) client \<and>
    (\<exists>args A. typed_ssh_args host args = Some A \<and> count is_handshake (conn_of client) \<le> nat (max 1 (arg_num_retries A)))"
proof -
  from made_clients_run[OF assms(4,2,5)] obtain args where "(i, host) \<in> set keys"
    and made: "make_ssh_client raise other X N E host args = Inr client" by auto
  moreover from made obtain A where "typed_ssh_args host args = Some A"
    "ssh_constructor X (N host) (E host) A = (Inr (), client)"
    by (auto simp: make_ssh_client_def assms(3) split: option.splits prod.splits sum.splits)
  ultimately show ?thesis using ssh_constructor_ready[OF assms(1)] by blast
qed

text \<open>One host, of which the first handshake fails.\<close>

definition lone_client :: "'c pclient" where
  "lone_client = \<lparr>phosts = [''h''], phost_config = None, pself = login_defaults (Some ''u'') (Some ''p''),
     host_clients = (\<lambda>k. None)\<rparr>"

lemma lone_client_made:
  "native_parallel_constructor no_files (HList [''h'']) (login_defaults (Some ''u'') (Some ''p'')) None True = Inr lone_client"
  by (simp add: native_parallel_constructor_def base_parallel_constructor_def validate_hosts_def validate_pkey_def
      check_host_config_def validate_api_def login_defaults_def native_parallel_defaults_def default_config_def
      lone_client_def)

definition example_client :: client where
  "example_client = fst (snd (native_constructor example_home shaky example_server shaky example_server 5000
     ((native_defaults ''h'')\<lparr>arg_user := Some ''u'', arg_password := Some ''p'', arg_port := Some 22\<rparr>)))"

lemma example_client_made:
  "native_constructor example_home shaky example_server shaky example_server 5000
     ((native_defaults ''h'')\<lparr>arg_user := Some ''u'', arg_password := Some ''p'', arg_port := Some 22\<rparr>) =
   (Inr (), example_client, None)"
  unfolding example_client_def by code_simp

abbreviation make_example where
  "make_example \<equiv> make_native_client (\<lambda>e. POther ''raised'') (\<lambda>host a. Inl PTypeError) example_home (\<lambda>host. shaky)
     (\<lambda>host. example_server) 5000"

text \<open>A pool of one host, whose client has been made.\<close>

definition lone_run :: "'c pclient \<Rightarrow> 'c \<Rightarrow> ('c, 'r) phase \<Rightarrow> ('c, 'r) pool_run" where
  "lone_run c client p = \<lparr>shared = keep_client (0, ''h'') client c, phases = [p], next_task = 1,
     clients_made = [((0, ''h''), client)]\<rparr>"

lemma lone_host_run:
  assumes "request_client F client_args 0 ''h'' c = MakeClient args" "construct ''h'' args = Inr client"
  shows "host_run F client_args construct operation 1 [(0, ''h'')] (start_run c [(0, ''h'')]) (lone_run c client (Using client))"
    and "host_run F client_args construct operation 1 [(0, ''h'')] (start_run c [(0, ''h'')])
      (lone_run c client (Ended (operation 0 client)))"
proof -
  let ?keys = "[(0, ''h'')] :: (nat \<times> string) list"
  let ?step = "host_step F client_args construct operation 1 ?keys"
  let ?s0 = "start_run c ?keys" let ?s1 = "?s0\<lparr>phases := [Making args], next_task := 1\<rparr>"
  note simps = start_run_def set_phase_def begin_task_def lone_run_def
  have "?step ?s0 ?s1"
    using host_begins[of ?s0 ?keys 1 F client_args construct operation] assms(1) by (simp add: simps)
  moreover have "?step ?s1 (lone_run c client (Using client))"
    using host_constructed[of 0 ?keys ?s1 args construct client F client_args operation 1] assms(2) by (simp add: simps)
  ultimately show using_it: "host_run F client_args construct operation 1 ?keys ?s0 (lone_run c client (Using client))"
    by (meson host_run_refl host_run_step)
  have "?step (lone_run c client (Using client)) (lone_run c client (Ended (operation 0 client)))"
    using host_ends[of 0 ?keys "lone_run c client (Using client)" client F client_args construct operation 1]
    by (simp add: simps)
  with using_it show "host_run F client_args construct operation 1 ?keys ?s0 (lone_run c client (Ended (operation 0 client)))"
    by (rule host_run_step)
qed

lemma lone_run_stuck: "\<not> host_step F client_args construct operation pool_size [(0, ''h'')] (lone_run c client (Ended r)) t"
proof
  assume "host_step F client_args construct operation pool_size [(0, ''h'')] (lone_run c client (Ended r)) t"
  then show False by cases (auto simp: lone_run_def)
qed

lemma make_example_client:
  "make_example ''h'' (native_client_args (login_defaults (Some ''u'') (Some ''p''))
      (own_config (login_defaults (Some ''u'') (Some ''p''))) PNone) = Inr (example_client, None)"
  using example_client_made by (simp add: default_make_client single_client_args_def)

theorem default_pool_makes_ready_clients_witness:
  "\<exists>s. host_run no_files native_client_args make_example (\<lambda>i client. Inr ()) 1 [(0, ''h'')] (start_run lone_client [(0, ''h'')]) s
     \<and> clients_made s = [((0, ''h''), example_client, None)]
     \<and> client_ready shaky example_server example_client \<and> count is_handshake (conn_of example_client) \<le> 3"
proof -
  let ?s = "lone_run lone_client (example_client, None) (Using (example_client, None))"
  have "resolves shaky" by (simp add: shaky_def one_host_def resolves_def)
  note run = lone_host_run(1)[where construct = make_example, OF default_requests[OF lone_client_made, of 0 "''h''"] make_example_client, of "\<lambda>i client. Inr ()"]
  from run have "host_run no_files native_client_args make_example (\<lambda>i client. Inr ()) 1 (py_enumerate [''h''])
      (start_run lone_client (py_enumerate [''h''])) ?s" by simp
  from default_pool_makes_ready_clients[OF lone_client_made \<open>resolves shaky\<close> this, of 0 "''h''" example_client None] run
  show ?thesis by (intro exI[of _ ?s]) (simp add: lone_run_def)
qed

end
