(* ===== verification/Spec2Isabelle.thy ===== *)
theory Spec2Isabelle
  imports RW_Schedule Output_Lines Channel_Readers Validation Host_Config Client_Init Commands
    Parallel_Client Scp_Send Transfers Tunnel_Handler Shells Setup Host_Output Housekeeping Channel_Locks
    Pool_Results Client_Scope Version_Install Error_Texts Fleet
begin

text \<open>
  parallel-ssh runs commands and copies files on many hosts over SSH, from Python greenlets.  This
  development models the package \<^verbatim>\<open>src/pssh\<close> and proves what its parts do, alone and together.

  \<^bold>\<open>The program.\<close>  A parallel client (\<^verbatim>\<open>clients/base/parallel.py\<close>, with a subclass per SSH library in
  \<^verbatim>\<open>clients/native\<close> and \<^verbatim>\<open>clients/ssh\<close>) spawns a greenlet per host in a pool.  Each greenlet asks for the
  client of its host, which connects, makes a session, authenticates and is kept in a cache, and then
  runs a command, opens a shell or copies files.  A single client (\<^verbatim>\<open>clients/base/single.py\<close> and its
  subclasses) calls the SSH library, which is non-blocking: a call that answers EAGAIN is repeated after
  the socket was polled.  The output of a command is read by two greenlets into buffers
  (\<^verbatim>\<open>clients/reader.py\<close>), from which the caller iterates over lines.  A client with a proxy connects to a
  local port, behind which the thread of \<^verbatim>\<open>clients/native/tunnel.py\<close> forwards to the host.

  \<^bold>\<open>How it is modelled.\<close>  A Python function is a function from a state to a result and the next state; the
  result is \<open>Inl\<close> of an exception or \<open>Inr\<close> of a value (\<open>Prelude\<close>).  What the network, a server, an agent or
  a channel answers is an argument of the model: a function of all requests made so far, or a script
  that gives the answer to the \<open>k\<close>-th call.  A loop that need not end is a \<open>partial_function (option)\<close>,
  and \<open>None\<close> is that it does not; no model uses fuel.  Greenlets that share state are step relations
  whose steps are what runs between two points at which gevent can switch; results hold for every
  interleaving.  Bytes are lists of characters, and Python integers are \<^typ>\<open>int\<close> or, where they cannot be
  negative, \<^typ>\<open>nat\<close>.

  \<^bold>\<open>The theories.\<close>
  \<^item> \<open>Prelude\<close>, \<open>Py_Strings\<close>, \<open>Py_Values\<close>, \<open>Py_Text\<close>: programs over a state, string functions and
    \<^verbatim>\<open>os.path\<close>, values with their truth, types and printf-style formatting, stripping, splitting and numbers.
  \<^item> \<open>RW_Buffer\<close>, \<open>RW_Schedule\<close> (\<^verbatim>\<open>reader.py\<close>): \<open>ConcurrentRWBuffer\<close> with its cursor and both positions; it
    is a queue of bytes (\<open>byte_queue\<close>, \<open>buffer_refines_queue\<close>); one writer and any number of iterating
    readers lose no data and no wake-up and come to an end.
  \<^item> \<open>Channel_Readers\<close>, \<open>Channel_Locks\<close>: both \<open>_read_output_to_buffer\<close>, and the locks between the readers
    and \<open>close_channel\<close>.
  \<^item> \<open>Output_Lines\<close>, \<open>Host_Output\<close> (\<^verbatim>\<open>base/single.py\<close>, \<^verbatim>\<open>output.py\<close>): cutting the chunks into lines, decoding
    and logging them, the properties of \<open>HostOutput\<close>, and reading on after a timeout.
  \<^item> \<open>Polling\<close> (\<open>PollMixIn\<close>, \<open>Stdin\<close>): the EAGAIN loops for calls and for writes (\<open>byte_sink\<close>,
    \<open>write_loop_induct\<close>).
  \<^item> \<open>Exceptions\<close>, \<open>Validation\<close>, \<open>Host_Config\<close>: the exceptions with their order and their text,
    \<^verbatim>\<open>common.py\<close>, \<^verbatim>\<open>config.py\<close>; \<open>Error_Texts\<close>: what a caller reads of a failed connection.
  \<^item> \<open>Connection\<close>, \<open>Auth\<close>, \<open>Client_Init\<close>, \<open>Setup\<close>: resolving, connecting and the handshake with their
    retries (\<open>connect_contract\<close>, the rule from which the facts about connecting follow); the order of the authentication methods (\<open>auth_provider\<close>, for both clients); \<open>_init\<close> and
    \<open>_disconnect\<close>; all constructors with the checks of their arguments and the client for the proxy.
  \<^item> \<open>Commands\<close>, \<open>Shells\<close>: the command string, executing, waiting, closing and exit codes, and the
    interactive shells of one and of many hosts.
  \<^item> \<open>Parallel_Client\<close>, \<open>Host_Tasks\<close>: hosts and their configurations, the tasks of \<open>run_command\<close> and of the
    copies, gathering output and joining; the greenlets of a pool over the cache of clients.
    \<open>Pool_Results\<close>: each greenlet of a pool ends with the result it has when it runs alone, so that
    \<open>run_command\<close> returns what each host gives for itself, however they are interleaved.
  \<^item> \<open>Fleet\<close>: the constants, the defaults of all constructors, and what a parallel client makes of them: the
    constructors of \<open>Setup\<close> and the commands of \<open>Commands\<close> run inside the pools of \<open>Pool_Results\<close>, and a
    run comes to what one client per host comes to (\<open>default_run_results\<close>).
  \<^item> \<open>Client_Scope\<close>: clients and shells in \<^verbatim>\<open>with\<close> statements, \<open>__del__\<close>, and a client with a proxy that
    only takes IPv6 addresses.
  \<^item> \<open>Sftp_Upload\<close>, \<open>Scp_Send\<close>, \<open>Downloads\<close>, \<open>Transfers\<close>: copying trees to and from a host over SFTP and SCP,
    each alone and there and back.
  \<^item> \<open>Tunnel\<close>, \<open>Tunnel_Handler\<close>: the forwarding loops (\<open>sender\<close>, for the channel and for the socket) and the
    handler of a connection that runs them, the queues, the servers and the sweep of \<open>LocalForwarder\<close>, and what a
    client hands to it.
  \<^item> \<open>Housekeeping\<close>: the keep-alive greenlet, and the loggers of \<^verbatim>\<open>utils.py\<close>.
  \<^item> \<open>Version_Render\<close>, \<open>Version_Git\<close> (\<^verbatim>\<open>_version.py\<close>): the version of the package, from the keywords of an
    archive, from \<^verbatim>\<open>git describe\<close> or from a directory, and its rendering in eight styles, the default
    one with a reader that gives back what it says.  \<open>Py_Json\<close>, \<open>Version_Build\<close> (\<^verbatim>\<open>versioneer.py\<close>): where the
    version is looked for when a release is built, the file that is written into it, as a text with its
    JSON, and what the commands of setuptools write; a source release keeps its version, a wheel does not.
    \<open>Version_Install\<close>: the command that put it into the repository, which finds the repository set up.
  \<^item> This theory: output from the channel through the buffer to the lines that the caller gets, of one
    command and of a command on many hosts; and the whole of it, a default parallel client whose own
    clients (\<open>Fleet\<close>) connect, authenticate and run a command in a pool, up to the lines of each host.

  \<^bold>\<open>What the groups of lemmas show.\<close>  Invariants of the buffer, of its schedule, of the forwarder, of the
  pool and of the locks, each preserved by every step and used by rule induction over the runs; the
  functional behaviour of each operation with its error branches; termination of the schedules and of
  the retry loops by measures, and of the polling loops against scripts; equivalence of the line
  splitter with a split at line feeds; refinement of a queue; round trips of copies and of quoting.
  Where the code falls short of its documentation the behaviour it has is proved, as in
  \<open>timeout_loses_the_begun_line\<close>, \<open>two_clients_for_one_host\<close> or \<open>threads_can_get_each_others_tunnel\<close>.

  \<^bold>\<open>Hypotheses about code outside the package.\<close>  \<open>finds_eol\<close> states what \<open>ssh2.utils.find_eol\<close> documents;
  \<open>resolves\<close>, \<open>responsive\<close>, \<open>willing\<close>, \<open>accepting\<close> and \<open>opens_dirs\<close> describe networks and servers that
  answer; \<open>tagged_checkout\<close> says what git prints in a checkout with a tag and \<open>loopback_is_ipv4\<close> what
  \<^verbatim>\<open>127.0.0.1\<close> resolves to.  Each occurs with a witness that evaluates the theorem where they hold.

  \<^bold>\<open>Not modelled.\<close>  The SSH libraries, gevent and the operating system, which are parameters; the
  \<open>StreamServer\<close> of gevent that accepts the connections of a tunnel and calls their handler; the texts that are only logged;
  the deprecated no-ops; the abstract methods that only raise \<open>NotImplementedError\<close>;
  of \<^verbatim>\<open>versioneer.py\<close> its second copy of \<^verbatim>\<open>_version.py\<close>, the manifest and the commands for programs that are
  not used here; the scripts for documentation and CI.  Timeouts are events that may happen at the
  points where the code can be interrupted by them; apart from \<open>Housekeeping\<close> there is no clock.
\<close>

section \<open>Output, from the channel to the caller\<close>

text \<open>
  What the reader of a channel appends to its buffer in \<open>n\<close> calls: the channel is one of the native client
  or one of the ssh-python client, and answers as its script says.
\<close>

definition channel_chunks :: "int \<Rightarrow> (nat \<Rightarrow> 'e + int \<times> bytes) + (nat \<Rightarrow> 'e ssh_read) \<Rightarrow> nat \<Rightarrow> bytes list" where
  "channel_chunks eagain chan n =
     (case chan of Inl script \<Rightarrow> native_chunks script eagain 0 n | Inr script \<Rightarrow> ssh_chunks script 0 n)"


definition short_script :: "nat \<Rightarrow> unit + int \<times> bytes" where
  "short_script k = (if k = 0 then Inr (-37, []) else if k = 1 then Inr (2, ''ab'') else Inr (0, []))"


section \<open>Output of many hosts\<close>

lemma host_stdout_lines:
  assumes "sched_reachable 1 chunks s" "\<And>t. \<not> sched_step 1 s t" "finds_eol f" "CR \<notin> set (concat chunks)"
    and "\<And>l. l \<in> set (lines_of (concat chunks)) \<Longrightarrow> decode l = Inr (g l)" "ho_client ho"
  shows "host_stdout f decode ho (map snd (delivered s)) False =
    Some (Some (map g (lines_of (concat chunks)),
      map (\<lambda>l. ''['' @ ho_host ho @ '']'' @ [CHR 0x09] @ g l) (lines_of (concat chunks)), Inr ()))"
proof -
  from sched_progress[OF sched_reachable_inv[OF assms(1)] _ assms(2)]
  have "concat (map snd (delivered s)) = concat chunks"
    by (simp add: sched_complete_def delivered_bytes_def)
  with read_output_lines_lf[OF assms(3), of "map snd (delivered s)"] assms(4)
  have "read_output_lines f (map snd (delivered s)) False = Some (lines_of (concat chunks), Inr ())" by simp
  then show ?thesis
    using assms(6) read_output_buffer_decoded[of "lines_of (concat chunks)" decode g, OF assms(5)]
    by (simp add: host_stdout_def read_stream_def)
qed



section \<open>A default parallel client, from its hosts to the lines of their output\<close>


definition plain_command :: command_args where
  "plain_command = \<lparr>cmd_sudo = False, cmd_user = None, cmd_use_pty = False, cmd_shell = None, cmd_read_timeout = None\<rparr>"

definition ab_output :: host_output where
  "ab_output = \<lparr>ho_host = ''h'', ho_channel = True, ho_client = True, ho_exception = None, ho_read_timeout = None,
     ho_command = Some ''id''\<rparr>"

lemma example_single_run:
  "single_run (\<lambda>e. POther ''raised'') (\<lambda>e. POther ''failed'') example_home (\<lambda>host. shaky) (\<lambda>host. example_server) 5000 Inr
     (\<lambda>host h. None) plain_command (Some ''u'') (Some ''p'') ''id'' ''h'' = Inr ab_output"
proof -
  have "fst (run_command Inr (native_execute (\<lambda>h. None)) (\<lambda>h. None) ''h'' ''id'' False None False None None None []) = Inr ab_output"
    by code_simp
  then show ?thesis
    by (simp add: single_run_def single_client_args_def example_client_made client_run_command_def plain_command_def)
qed


end
